(* ===== verification/Go_Prelude.thy ===== *)
theory Go_Prelude
  imports Main "HOL-Library.Word"
begin

text \<open>
  Shared vocabulary of the development: the Go types the program uses (bytes, fixed-width
  integers, \<^verbatim>\<open>time.Time\<close>, \<^verbatim>\<open>time.Duration\<close>), slices, big-endian encodings, and the generic
  lemmas the component theories use.

  \<^item> A \<^verbatim>\<open>byte\<close> is an \<open>8 word\<close>; a \<^verbatim>\<open>[]byte\<close> is a list of them. A Go \<^verbatim>\<open>string\<close> is a byte
    sequence too and is modelled by \<open>string\<close> (an Isabelle \<open>char\<close> is one byte).
  \<^item> \<^verbatim>\<open>int\<close> values that count or index are \<open>nat\<close> or \<open>int\<close>: they stay far below 2 to the 63.
    Fixed-width integers whose wrap-around can be observed are words.
  \<^item> A \<^verbatim>\<open>time.Time\<close> is the number of nanoseconds since the zero time of Go, so
    \<^verbatim>\<open>t.IsZero()\<close> is \<open>t = 0\<close>; a \<^verbatim>\<open>time.Duration\<close> is a number of nanoseconds, and
    \<^verbatim>\<open>t.Sub(u)\<close> saturates at the bounds of \<^verbatim>\<open>int64\<close>.
  \<^item> A slice expression that is out of range panics in Go; \<open>go_slice_opt\<close> returns \<open>None\<close> there,
    and \<open>go_slice\<close> is used only where the code has checked the bounds before.
\<close>

unbundle bit_operations_syntax

named_theorems go_simps \<open>unfolding rules for the Go vocabulary\<close>
named_theorems len_simps \<open>lengths of encoded byte strings\<close>

type_synonym byte = "8 word"
type_synonym bytes = "byte list"
type_synonym go_time = int
type_synonym duration = int

section \<open>Durations and times\<close>

definition nanosecond :: duration where "nanosecond = 1"
definition millisecond :: duration where "millisecond = 1000000"
definition second :: duration where "second = 1000000000"
definition minute :: duration where "minute = 60 * second"

definition time_is_zero :: "go_time \<Rightarrow> bool" where
  "time_is_zero t \<longleftrightarrow> t = 0"

definition time_sub :: "go_time \<Rightarrow> go_time \<Rightarrow> duration" where
  "time_sub t u = max (- (2 ^ 63)) (min (2 ^ 63 - 1) (t - u))"

definition time_add :: "go_time \<Rightarrow> duration \<Rightarrow> go_time" where
  "time_add t d = t + d"

definition time_before :: "go_time \<Rightarrow> go_time \<Rightarrow> bool" where
  "time_before t u \<longleftrightarrow> t < u"

definition time_after :: "go_time \<Rightarrow> go_time \<Rightarrow> bool" where
  "time_after t u \<longleftrightarrow> u < t"

text \<open>Integer division of Go truncates towards zero.\<close>

definition go_div :: "int \<Rightarrow> int \<Rightarrow> int" where
  "go_div a b = sgn a * sgn b * (\<bar>a\<bar> div \<bar>b\<bar>)"

lemma go_div_nonneg [simp]: "0 \<le> a \<Longrightarrow> 0 < b \<Longrightarrow> go_div a b = a div b"
  by (cases "a = 0") (auto simp: go_div_def)

lemma go_div_pos_iff: "0 < b \<Longrightarrow> 0 < go_div a b \<longleftrightarrow> b \<le> a"
proof -
  assume b: "0 < b"
  show ?thesis
  proof (cases "0 \<le> a")
    case True
    with b have "go_div a b = a div b" by simp
    with b show ?thesis by (simp add: pos_imp_zdiv_pos_iff)
  next
    case False
    with b have "go_div a b = - (\<bar>a\<bar> div b)" by (simp add: go_div_def)
    moreover have "0 \<le> \<bar>a\<bar> div b" using b by (simp add: pos_imp_zdiv_nonneg_iff)
    ultimately show ?thesis using False b by simp
  qed
qed

lemma time_sub_mono: "t \<le> t' \<Longrightarrow> time_sub t u \<le> time_sub t' u"
  by (simp add: time_sub_def)

lemma time_sub_small:
  "- (2 ^ 63) \<le> t - u \<Longrightarrow> t - u < 2 ^ 63 \<Longrightarrow> time_sub t u = t - u"
  by (simp add: time_sub_def)

lemma time_sub_le: "u \<le> t \<Longrightarrow> time_sub t u \<le> t - u"
  by (simp add: time_sub_def)

lemmas [go_simps] =
  nanosecond_def millisecond_def second_def minute_def time_is_zero_def time_add_def
  time_before_def time_after_def

section \<open>Slices\<close>

definition go_slice :: "'a list \<Rightarrow> nat \<Rightarrow> nat \<Rightarrow> 'a list" where
  "go_slice xs i j = take (j - i) (drop i xs)"

definition go_slice_opt :: "'a list \<Rightarrow> nat \<Rightarrow> nat \<Rightarrow> 'a list option" where
  "go_slice_opt xs i j = (if i \<le> j \<and> j \<le> length xs then Some (go_slice xs i j) else None)"

lemma length_go_slice [simp]: "length (go_slice xs i j) = min (j - i) (length xs - i)"
  by (simp add: go_slice_def)

lemma go_slice_append_left [simp]: "go_slice (xs @ ys) 0 (length xs) = xs"
  by (simp add: go_slice_def)

lemma go_slice_append_right: "i = length xs \<Longrightarrow> go_slice (xs @ ys) i j = take (j - i) ys"
  by (simp add: go_slice_def)

lemma go_slice_skip: "length xs \<le> i \<Longrightarrow> go_slice (xs @ ys) i j = go_slice ys (i - length xs) (j - length xs)"
  by (simp add: go_slice_def diff_diff_left)

lemma go_slice_keep: "j \<le> length xs \<Longrightarrow> go_slice (xs @ ys) i j = go_slice xs i j"
  by (cases "i \<le> j") (auto simp: go_slice_def)

lemma go_slice_all [simp]: "length xs \<le> j \<Longrightarrow> go_slice xs 0 j = xs"
  by (simp add: go_slice_def)

lemma go_slice_opt_SomeD: "go_slice_opt xs i j = Some ys \<Longrightarrow> ys = go_slice xs i j \<and> i \<le> j \<and> j \<le> length xs"
  by (auto simp: go_slice_opt_def split: if_splits)

lemma go_slice_mid: "length a = i \<Longrightarrow> j = i + length b \<Longrightarrow> go_slice (a @ b @ c) i j = b"
  by (simp add: go_slice_def)

lemma go_slice_rejoin: "i \<le> j \<Longrightarrow> take i xs @ go_slice xs i j @ drop j xs = xs"
  by (simp add: go_slice_def) (metis append_assoc append_take_drop_id drop_drop le_add_diff_inverse2)

lemma nth_go_slice: "k < j - i \<Longrightarrow> i + k < length xs \<Longrightarrow> go_slice xs i j ! k = xs ! (i + k)"
  by (simp add: go_slice_def)

section \<open>Big-endian integers\<close>

definition be_val :: "bytes \<Rightarrow> nat" where
  "be_val bs = foldl (\<lambda>acc b. acc * 256 + unat b) 0 bs"

fun be_put :: "nat \<Rightarrow> nat \<Rightarrow> bytes" where
  "be_put 0 n = []"
| "be_put (Suc k) n = be_put k (n div 256) @ [word_of_nat n]"

lemma length_be_put [simp, len_simps]: "length (be_put k n) = k"
  by (induction k arbitrary: n) auto

lemma be_val_Nil [simp]: "be_val [] = 0"
  by (simp add: be_val_def)

lemma be_val_snoc [simp]: "be_val (bs @ [b]) = be_val bs * 256 + unat b"
  by (simp add: be_val_def)

lemma unat_byte_of_nat [simp]: "unat (word_of_nat n :: byte) = n mod 256"
  by (simp add: unat_of_nat)

lemma mod_div_power_step: "(n div 256) mod 256 ^ k * 256 + n mod 256 = n mod (256 ^ Suc k :: nat)"
  by (simp add: mod_mult2_eq)

lemma be_val_put [simp]: "be_val (be_put k n) = n mod 256 ^ k"
proof (induction k arbitrary: n)
  case 0
  show ?case by simp
next
  case (Suc k)
  then show ?case using mod_div_power_step[of n k] by simp
qed

lemma be_val_less: "be_val bs < 256 ^ length bs"
proof (induction bs rule: rev_induct)
  case Nil
  show ?case by simp
next
  case (snoc b bs)
  have "unat b < 256" using unsigned_less[of b] by simp
  then have "be_val bs * 256 + unat b < (be_val bs + 1) * 256" by simp
  also have "\<dots> \<le> 256 ^ length bs * 256" using snoc by (intro mult_right_mono) auto
  finally show ?case by simp
qed

lemma be_put_val: "be_put (length bs) (be_val bs) = bs"
proof (induction bs rule: rev_induct)
  case Nil
  show ?case by simp
next
  case (snoc b bs)
  have b: "unat b < 256" using unsigned_less[of b] by simp
  have "(be_val bs * 256 + unat b) div 256 = be_val bs" using b by simp
  moreover have "word_of_nat (be_val bs * 256 + unat b) = b"
  proof (rule word_unat_eq_iff[THEN iffD2])
    show "unat (word_of_nat (be_val bs * 256 + unat b) :: byte) = unat b"
      using b by (simp only: unat_byte_of_nat) simp
  qed
  ultimately show ?case using snoc by simp
qed

text \<open>\<^verbatim>\<open>binary.BigEndian.PutUint16(b, uint16(n))\<close> and its reader.\<close>

abbreviation put_u16 :: "nat \<Rightarrow> bytes" where "put_u16 \<equiv> be_put 2"
abbreviation put_u32 :: "nat \<Rightarrow> bytes" where "put_u32 \<equiv> be_put 4"

lemma be_val_put_u16 [simp]: "n < 65536 \<Longrightarrow> be_val (put_u16 n) = n"
  by simp

lemma be_val_u16_less: "be_val (go_slice bs i (i + 2)) < 65536"
proof -
  have "be_val (go_slice bs i (i + 2)) < 256 ^ length (go_slice bs i (i + 2))" by (rule be_val_less)
  also have "\<dots> \<le> 256 ^ 2" by (rule power_increasing) auto
  finally show ?thesis by simp
qed

section \<open>Bits of machine integers\<close>

text \<open>\<^verbatim>\<open>x &^ 63\<close> (and \<^verbatim>\<open>x & ^63\<close>) on an \<^verbatim>\<open>int\<close>: clear the low six bits.\<close>

definition clear6 :: "int \<Rightarrow> int" where
  "clear6 x = x AND NOT 63"

lemma clear_low_bits: "(x::int) AND NOT (mask n) = x - x mod 2 ^ n"
proof -
  have "x AND NOT (mask n) = push_bit n (drop_bit n x)"
    by (rule bit_eqI) (auto simp: bit_simps)
  also have "\<dots> = x div 2 ^ n * 2 ^ n"
    by (simp add: push_bit_eq_mult drop_bit_eq_div)
  also have "\<dots> = x - x mod 2 ^ n"
    by (simp add: minus_mod_eq_div_mult)
  finally show ?thesis .
qed

lemma clear6_eq: "clear6 x = x - x mod 64"
  using clear_low_bits[of x 6] by (simp add: clear6_def mask_eq_exp_minus_1)

lemma clear6_dvd [simp]: "64 dvd clear6 x"
  by (simp add: clear6_eq dvd_minus_mod)

lemma clear6_le [simp]: "clear6 x \<le> x"
  by (simp add: clear6_eq)

lemma clear6_gt: "x < clear6 x + 64"
proof -
  have "x mod 64 < 64" by simp
  then show ?thesis unfolding clear6_eq by arith
qed

lemma clear6_id: "64 dvd x \<Longrightarrow> clear6 x = x"
  by (simp add: clear6_eq)

lemma clear6_mono: "x \<le> y \<Longrightarrow> clear6 x \<le> clear6 y"
  using zdiv_mono1[of x y 64] by (simp add: clear6_eq minus_mod_eq_mult_div)

lemma clear6_round_up: "x \<le> clear6 (x + 63)" "clear6 (x + 63) < x + 64"
  using clear6_gt[of "x + 63"] clear6_le[of "x + 63"] by arith+

text \<open>
  \<^verbatim>\<open>append([]byte(nil), xs...)\<close>: a copy of the slice, which is nil (\<open>None\<close>) when there is nothing to
  copy.
\<close>

definition go_copy :: "bytes \<Rightarrow> bytes option" where
  "go_copy xs = (if xs = [] then None else Some xs)"

lemma go_copy_Some [simp]: "go_copy xs = Some ys \<longleftrightarrow> xs = ys \<and> xs \<noteq> []"
  by (auto simp: go_copy_def)

text \<open>The bytes of a string literal.\<close>

definition str_bytes :: "string \<Rightarrow> bytes" where
  "str_bytes s = map of_char s"

lemma length_str_bytes [simp, len_simps]: "length (str_bytes s) = length s"
  by (simp add: str_bytes_def)

section \<open>Lists, options and maps\<close>

text \<open>\<^verbatim>\<open>for i, x := range xs\<close> with an early return: the first index whose element satisfies \<open>P\<close>.\<close>

fun find_index_from :: "nat \<Rightarrow> ('a \<Rightarrow> bool) \<Rightarrow> 'a list \<Rightarrow> nat option" where
  "find_index_from i P [] = None"
| "find_index_from i P (x # xs) = (if P x then Some i else find_index_from (Suc i) P xs)"

abbreviation find_index :: "('a \<Rightarrow> bool) \<Rightarrow> 'a list \<Rightarrow> nat option" where
  "find_index \<equiv> find_index_from 0"

lemma find_index_from_Some:
  "find_index_from i P xs = Some k \<Longrightarrow>
     i \<le> k \<and> k < i + length xs \<and> P (xs ! (k - i)) \<and> (\<forall>j < k - i. \<not> P (xs ! j))"
proof (induction xs arbitrary: i)
  case Nil
  then show ?case by simp
next
  case (Cons x xs)
  show ?case
  proof (cases "P x")
    case True
    with Cons.prems show ?thesis by simp
  next
    case False
    with Cons.prems have "find_index_from (Suc i) P xs = Some k" by simp
    from Cons.IH[OF this] have ih: "Suc i \<le> k" "k < Suc i + length xs" "P (xs ! (k - Suc i))"
      "\<forall>j < k - Suc i. \<not> P (xs ! j)" by auto
    from ih(1) have k: "k - i = Suc (k - Suc i)" by simp
    have "\<forall>j < k - i. \<not> P ((x # xs) ! j)"
      using ih(4) False k by (auto simp: less_Suc_eq_0_disj)
    with ih k show ?thesis by simp
  qed
qed

lemma find_index_Some:
  "find_index P xs = Some k \<Longrightarrow> k < length xs \<and> P (xs ! k) \<and> (\<forall>j < k. \<not> P (xs ! j))"
  using find_index_from_Some[of 0 P xs k] by simp

lemma find_index_from_None: "find_index_from i P xs = None \<longleftrightarrow> (\<forall>x \<in> set xs. \<not> P x)"
  by (induction xs arbitrary: i) auto

end
