(* ===== verification/Ewma.thy ===== *)
theory Ewma
  imports Complex_Main Go_Prelude
begin

text \<open>
  The exponentially weighted moving averages of \<^verbatim>\<open>github.com/VividCortex/ewma\<close> that the resolver
  statistics and the question size estimator rely on, and the \<^verbatim>\<open>float64\<close> conventions of the
  development. A \<^verbatim>\<open>float64\<close> is modelled by a real number: rounding is not modelled.
\<close>

section \<open>Conversions\<close>

text \<open>\<^verbatim>\<open>int(x)\<close> of a \<^verbatim>\<open>float64\<close> truncates towards zero.\<close>

definition go_trunc :: "real \<Rightarrow> int" where
  "go_trunc x = (if 0 \<le> x then \<lfloor>x\<rfloor> else \<lceil>x\<rceil>)"

lemma go_trunc_nonneg: "0 \<le> x \<Longrightarrow> go_trunc x = \<lfloor>x\<rfloor>"
  by (simp add: go_trunc_def)

lemma go_trunc_of_int [simp]: "go_trunc (of_int k) = k"
  by (simp add: go_trunc_def)

section \<open>SimpleEWMA\<close>

record SimpleEWMA =
  se_value :: real

definition simple_decay :: real where
  "simple_decay = 2 / (30 + 1)"

definition SimpleEWMA_Add :: "real \<Rightarrow> SimpleEWMA \<Rightarrow> SimpleEWMA" where
  "SimpleEWMA_Add v e =
     (if se_value e = 0 then e\<lparr>se_value := v\<rparr>
      else e\<lparr>se_value := v * simple_decay + se_value e * (1 - simple_decay)\<rparr>)"

definition SimpleEWMA_Set :: "real \<Rightarrow> SimpleEWMA \<Rightarrow> SimpleEWMA" where
  "SimpleEWMA_Set v e = e\<lparr>se_value := v\<rparr>"

section \<open>VariableEWMA\<close>

record VariableEWMA =
  ve_decay :: real
  ve_value :: real
  ve_count :: "8 word"

definition warmup_samples :: "8 word" where
  "warmup_samples = 10"

definition NewVariableEWMA :: "real \<Rightarrow> VariableEWMA" where
  "NewVariableEWMA age = \<lparr>ve_decay = 2 / (age + 1), ve_value = 0, ve_count = 0\<rparr>"

definition VariableEWMA_Add :: "real \<Rightarrow> VariableEWMA \<Rightarrow> VariableEWMA" where
  "VariableEWMA_Add v e =
     (if ve_count e < warmup_samples then
        e\<lparr>ve_count := ve_count e + 1, ve_value := ve_value e + v\<rparr>
      else if ve_count e = warmup_samples then
        (let avg = ve_value e / 10
         in e\<lparr>ve_count := ve_count e + 1,
              ve_value := v * ve_decay e + avg * (1 - ve_decay e)\<rparr>)
      else e\<lparr>ve_value := v * ve_decay e + ve_value e * (1 - ve_decay e)\<rparr>)"

definition VariableEWMA_Value :: "VariableEWMA \<Rightarrow> real" where
  "VariableEWMA_Value e = (if ve_count e \<le> warmup_samples then 0 else ve_value e)"

definition VariableEWMA_Set :: "real \<Rightarrow> VariableEWMA \<Rightarrow> VariableEWMA" where
  "VariableEWMA_Set v e =
     (if ve_count e \<le> warmup_samples
      then e\<lparr>ve_value := v, ve_count := warmup_samples + 1\<rparr>
      else e\<lparr>ve_value := v\<rparr>)"

text \<open>An average that has been \<^verbatim>\<open>Set\<close> once is past its warm-up.\<close>

definition ewma_ready :: "VariableEWMA \<Rightarrow> bool" where
  "ewma_ready e \<longleftrightarrow> warmup_samples < ve_count e"

lemma VariableEWMA_Value_Set [simp]: "VariableEWMA_Value (VariableEWMA_Set v e) = v"
  by (auto simp: VariableEWMA_Value_def VariableEWMA_Set_def warmup_samples_def)

lemma ewma_ready_Set [simp]: "ewma_ready (VariableEWMA_Set v e)"
  by (auto simp: ewma_ready_def VariableEWMA_Set_def warmup_samples_def)

lemma ewma_ready_Add: "ewma_ready e \<Longrightarrow> ewma_ready (VariableEWMA_Add v e)"
  by (auto simp: ewma_ready_def VariableEWMA_Add_def)

lemma VariableEWMA_Value_Add:
  "ewma_ready e \<Longrightarrow>
     VariableEWMA_Value (VariableEWMA_Add v e) =
       v * ve_decay e + VariableEWMA_Value e * (1 - ve_decay e)"
  by (auto simp: ewma_ready_def VariableEWMA_Add_def VariableEWMA_Value_def)

lemma ve_decay_Add [simp]: "ve_decay (VariableEWMA_Add v e) = ve_decay e"
  by (simp add: VariableEWMA_Add_def Let_def)

lemma ve_decay_Set [simp]: "ve_decay (VariableEWMA_Set v e) = ve_decay e"
  by (simp add: VariableEWMA_Set_def)

text \<open>A convex combination stays between its two ends.\<close>

lemma convex_between:
  fixes a b d lo hi :: real
  assumes "0 \<le> d" "d \<le> 1" "lo \<le> a" "a \<le> hi" "lo \<le> b" "b \<le> hi"
  shows "lo \<le> a * d + b * (1 - d)" "a * d + b * (1 - d) \<le> hi"
proof -
  have "lo * d + lo * (1 - d) \<le> a * d + b * (1 - d)"
    using assms by (intro add_mono mult_right_mono) auto
  then show "lo \<le> a * d + b * (1 - d)" by (simp add: algebra_simps)
  have "a * d + b * (1 - d) \<le> hi * d + hi * (1 - d)"
    using assms by (intro add_mono mult_right_mono) auto
  then show "a * d + b * (1 - d) \<le> hi" by (simp add: algebra_simps)
qed

end
