(* ===== verification/Common.thy ===== *)
theory Common
  imports Go_Prelude
begin

text \<open>
  The constants and the framing functions of \<^verbatim>\<open>dnscrypt-proxy/common.go\<close>: packet size limits, the
  cryptographic constructions with their numeric order, and the two-byte length prefix that DNS over
  TCP uses (\<open>PrefixWithSize\<close> writes it, \<open>ReadPrefixed\<close> reads a framed packet from a connection that
  delivers bytes in chunks of any size).
\<close>

section \<open>Constants\<close>

definition ClientMagicLen :: nat where "ClientMagicLen = 8"
definition MinDNSPacketSize :: nat where "MinDNSPacketSize = 12 + 5"
definition MaxDNSPacketSize :: nat where "MaxDNSPacketSize = 4096"
definition MaxDNSUDPPacketSize :: nat where "MaxDNSUDPPacketSize = 4096"
definition MaxDNSUDPSafePacketSize :: nat where "MaxDNSUDPSafePacketSize = 1252"
definition InitialMinQuestionSize :: nat where "InitialMinQuestionSize = 512"

definition CertMagic :: bytes where
  "CertMagic = [0x44, 0x4e, 0x53, 0x43]"

definition ServerMagic :: bytes where
  "ServerMagic = [0x72, 0x36, 0x66, 0x6e, 0x76, 0x57, 0x6a, 0x38]"

lemmas size_defs [go_simps] =
  ClientMagicLen_def MinDNSPacketSize_def MaxDNSPacketSize_def MaxDNSUDPPacketSize_def
  MaxDNSUDPSafePacketSize_def InitialMinQuestionSize_def

lemma length_ServerMagic [simp, len_simps]: "length ServerMagic = 8"
  by (simp add: ServerMagic_def)

lemma length_CertMagic [simp, len_simps]: "length CertMagic = 4"
  by (simp add: CertMagic_def)

section \<open>Cryptographic constructions\<close>

datatype CryptoConstruction =
    UndefinedConstruction
  | XSalsa20Poly1305
  | XChacha20Poly1305
  | XWingPQ

fun construction_code :: "CryptoConstruction \<Rightarrow> nat" where
  "construction_code UndefinedConstruction = 0"
| "construction_code XSalsa20Poly1305 = 1"
| "construction_code XChacha20Poly1305 = 2"
| "construction_code XWingPQ = 3"

lemma construction_code_inj: "construction_code c = construction_code d \<Longrightarrow> c = d"
  by (cases c; cases d) auto

text \<open>The constructions are compared as the \<^verbatim>\<open>uint16\<close> values they are in the source.\<close>

instantiation CryptoConstruction :: linorder
begin

definition less_eq_CryptoConstruction :: "CryptoConstruction \<Rightarrow> CryptoConstruction \<Rightarrow> bool" where
  "less_eq_CryptoConstruction c d \<longleftrightarrow> construction_code c \<le> construction_code d"

definition less_CryptoConstruction :: "CryptoConstruction \<Rightarrow> CryptoConstruction \<Rightarrow> bool" where
  "less_CryptoConstruction c d \<longleftrightarrow> construction_code c < construction_code d"

instance
  by standard
    (auto simp: less_eq_CryptoConstruction_def less_CryptoConstruction_def
      intro: construction_code_inj)

end

lemmas construction_order = less_eq_CryptoConstruction_def less_CryptoConstruction_def

section \<open>Framing\<close>

datatype frame_error = PacketTooLarge | PacketTooShort | ReadError

text \<open>
  The source grows the slice by two bytes, moves the packet two positions to the right (\<^verbatim>\<open>copy\<close>
  handles overlapping slices) and writes the length over the first two bytes.
\<close>

definition PrefixWithSize :: "bytes \<Rightarrow> frame_error + bytes" where
  "PrefixWithSize packet =
     (if length packet > 0xffff then Inl PacketTooLarge
      else let grown = packet @ [0] @ [0];
               moved = take 2 grown @ take (length grown - 2) grown
           in Inr (put_u16 (length moved - 2) @ drop 2 moved))"

text \<open>
  The header check of the read loop: once two bytes are there and the length is still unknown
  (\<open>None\<close>, the \<^verbatim>\<open>-1\<close> of the source), it is read and checked.
\<close>

definition frame_length :: "bytes \<Rightarrow> nat option \<Rightarrow> frame_error + nat option" where
  "frame_length buf packetLength =
     (if length buf \<ge> 2 \<and> packetLength = None
      then let pl = be_val (go_slice buf 0 2)
           in if pl > MaxDNSPacketSize - 1 then Inl PacketTooLarge
              else if pl < MinDNSPacketSize then Inl PacketTooShort
              else Inr (Some pl)
      else Inr packetLength)"

text \<open>
  A connection is the sequence of bytes the peer sends and a schedule: the number of bytes the
  successive calls of \<^verbatim>\<open>Read\<close> are willing to deliver. A call fails when the peer has nothing more to
  send or when the schedule ends (the deadline of the connection).
\<close>

primrec ReadPrefixed_loop :: "nat list \<Rightarrow> bytes \<Rightarrow> bytes \<Rightarrow> nat option \<Rightarrow> frame_error + bytes" where
  "ReadPrefixed_loop [] pending buf packetLength = Inl ReadError"
| "ReadPrefixed_loop (k # ks) pending buf packetLength =
     (if pending = [] then Inl ReadError
      else let n = min k (min (2 + MaxDNSPacketSize - length buf) (length pending));
               buf' = buf @ take n pending;
               pending' = drop n pending
           in case frame_length buf' packetLength of
                Inl e \<Rightarrow> Inl e
              | Inr None \<Rightarrow> ReadPrefixed_loop ks pending' buf' None
              | Inr (Some pl) \<Rightarrow>
                  if length buf' \<ge> 2 + pl then Inr (go_slice buf' 2 (2 + pl))
                  else ReadPrefixed_loop ks pending' buf' (Some pl))"

definition ReadPrefixed :: "nat list \<Rightarrow> bytes \<Rightarrow> frame_error + bytes" where
  "ReadPrefixed schedule sent = ReadPrefixed_loop schedule sent [] None"

declare ReadPrefixed_loop.simps(2) [simp del]

lemma ReadPrefixed_loop_Cons:
  assumes "pending \<noteq> []"
    and n: "n = min k (min (2 + MaxDNSPacketSize - length buf) (length pending))"
    and buf': "buf' = buf @ take n pending"
  shows "ReadPrefixed_loop (k # ks) pending buf pl =
    (case frame_length buf' pl of
       Inl e \<Rightarrow> Inl e
     | Inr None \<Rightarrow> ReadPrefixed_loop ks (drop n pending) buf' None
     | Inr (Some m) \<Rightarrow>
         if length buf' \<ge> 2 + m then Inr (go_slice buf' 2 (2 + m))
         else ReadPrefixed_loop ks (drop n pending) buf' (Some m))"
  using assms(1) unfolding ReadPrefixed_loop.simps(2) Let_def n buf' by (simp only: if_False)

lemma PrefixWithSize_eq:
  "length packet \<le> 0xffff \<Longrightarrow> PrefixWithSize packet = Inr (put_u16 (length packet) @ packet)"
  by (simp add: PrefixWithSize_def Let_def)

lemma PrefixWithSize_error: "0xffff < length packet \<Longrightarrow> PrefixWithSize packet = Inl PacketTooLarge"
  by (simp add: PrefixWithSize_def)

text \<open>
  The reader's invariant: what has been read and what is pending make up the framed packet followed
  by whatever the peer sent after it, and a known length is the packet's length.
\<close>

definition frame_inv :: "bytes \<Rightarrow> bytes \<Rightarrow> bytes \<Rightarrow> bytes \<Rightarrow> nat option \<Rightarrow> bool" where
  "frame_inv p rest pending buf pl \<longleftrightarrow>
     buf @ pending = put_u16 (length p) @ p @ rest \<and> length buf < 2 + length p \<and>
     pl = (if length buf < 2 then None else Some (length p))"

lemma take_eq_of_append:
  assumes "xs @ ys = zs @ ws" "length zs \<le> length xs"
  shows "take (length zs) xs = zs"
proof -
  have "take (length zs) (xs @ ys) = take (length zs) (zs @ ws)" using assms(1) by simp
  then show ?thesis using assms(2) by simp
qed

lemma frame_inv_progress:
  assumes inv: "frame_inv p rest pending buf pl"
    and p: "MinDNSPacketSize \<le> length p" "length p \<le> MaxDNSPacketSize - 1"
    and k: "0 < k"
  defines "n \<equiv> min k (min (2 + MaxDNSPacketSize - length buf) (length pending))"
  defines "buf' \<equiv> buf @ take n pending"
  shows "pending \<noteq> [] \<and> length buf < length buf' \<and>
    buf' @ drop n pending = put_u16 (length p) @ p @ rest"
proof -
  have eq: "buf @ pending = put_u16 (length p) @ p @ rest" and lb: "length buf < 2 + length p"
    using inv by (auto simp: frame_inv_def)
  have "length buf + length pending = 2 + length p + length rest"
    using arg_cong[OF eq, of length] by simp
  then have pend: "pending \<noteq> []" using lb by auto
  then have "0 < n" using k lb p by (auto simp: n_def size_defs)
  moreover have "n \<le> length pending" by (simp add: n_def)
  ultimately have "length buf < length buf'" by (simp add: buf'_def)
  moreover have "buf' @ drop n pending = buf @ pending" by (simp add: buf'_def)
  ultimately show ?thesis using pend eq by simp
qed

lemma ReadPrefixed_loop_ok:
  assumes "frame_inv p rest pending buf pl"
    and p: "MinDNSPacketSize \<le> length p" "length p \<le> MaxDNSPacketSize - 1"
    and "\<forall>k \<in> set ks. 0 < k" "2 + length p \<le> length buf + length ks"
  shows "ReadPrefixed_loop ks pending buf pl = Inr p"
  using assms(1,4,5)
proof (induction ks arbitrary: pending buf pl)
  case Nil
  then show ?case by (simp add: frame_inv_def)
next
  case (Cons k ks)
  define n where "n = min k (min (2 + MaxDNSPacketSize - length buf) (length pending))"
  define buf' where "buf' = buf @ take n pending"
  have pr: "pending \<noteq> []" "length buf < length buf'"
    "buf' @ drop n pending = put_u16 (length p) @ p @ rest"
    using frame_inv_progress[OF Cons.prems(1) p, of k] Cons.prems(2) by (auto simp: n_def buf'_def)
  have hdr: "be_val (go_slice buf' 0 2) = length p" if "2 \<le> length buf'"
  proof -
    have "take 2 buf' = put_u16 (length p)"
      using take_eq_of_append[OF pr(3)] that by simp
    then show ?thesis using p by (simp add: go_slice_def size_defs)
  qed
  have pl: "pl = (if length buf < 2 then None else Some (length p))"
    using Cons.prems(1) by (simp add: frame_inv_def)
  have known: "frame_length buf' pl = Inr (if length buf' < 2 then None else Some (length p))"
    using pl hdr p pr(2) by (auto simp: frame_length_def Let_def)
  have step: "ReadPrefixed_loop (k # ks) pending buf pl =
      (if length buf' < 2 then ReadPrefixed_loop ks (drop n pending) buf' None
       else if length buf' \<ge> 2 + length p then Inr (go_slice buf' 2 (2 + length p))
       else ReadPrefixed_loop ks (drop n pending) buf' (Some (length p)))"
    using known ReadPrefixed_loop_Cons[OF pr(1) n_def buf'_def] by simp
  show ?case
  proof (cases "length buf' \<ge> 2 + length p")
    case True
    have "take (2 + length p) buf' = put_u16 (length p) @ p"
      using take_eq_of_append[of buf' "drop n pending" "put_u16 (length p) @ p" rest] pr(3) True
      by simp
    then have "drop 2 (take (2 + length p) buf') = p" by simp
    then have "go_slice buf' 2 (2 + length p) = p" by (simp add: go_slice_def drop_take)
    then show ?thesis using True step by simp
  next
    case False
    then have "frame_inv p rest (drop n pending) buf'
        (if length buf' < 2 then None else Some (length p))"
      using pr(3) by (simp add: frame_inv_def)
    from Cons.IH[OF this] have "ReadPrefixed_loop ks (drop n pending) buf'
        (if length buf' < 2 then None else Some (length p)) = Inr p"
      using Cons.prems(2,3) pr(2) by simp
    then show ?thesis using False step by (simp split: if_splits)
  qed
qed

text \<open>A known length has been read from the first two bytes and lies within the limits.\<close>

definition length_ok :: "bytes \<Rightarrow> nat option \<Rightarrow> bool" where
  "length_ok buf pl \<longleftrightarrow>
     (case pl of None \<Rightarrow> True
      | Some n \<Rightarrow> 2 \<le> length buf \<and> n = be_val (take 2 buf) \<and> 17 \<le> n \<and> n \<le> 4095)"

lemma length_ok_append: "length_ok buf pl \<Longrightarrow> length_ok (buf @ xs) pl"
  by (auto simp: length_ok_def split: option.splits)

lemma frame_length_ok: "frame_length buf pl = Inr pl' \<Longrightarrow> length_ok buf pl \<Longrightarrow> length_ok buf pl'"
  by (auto simp: frame_length_def length_ok_def Let_def size_defs go_slice_def split: if_splits)

lemma ReadPrefixed_loop_sound:
  "ReadPrefixed_loop ks pending buf pl = Inr p \<Longrightarrow> length_ok buf pl \<Longrightarrow>
     17 \<le> length p \<and> length p \<le> 4095 \<and>
     p = go_slice (buf @ pending) 2 (2 + be_val (take 2 (buf @ pending)))"
proof (induction ks arbitrary: pending buf pl)
  case Nil
  then show ?case by simp
next
  case (Cons k ks)
  define n where "n = min k (min (2 + MaxDNSPacketSize - length buf) (length pending))"
  define buf' where "buf' = buf @ take n pending"
  have ne: "pending \<noteq> []" using Cons.prems(1) by (auto simp: ReadPrefixed_loop.simps(2))
  note run = Cons.prems(1)[unfolded ReadPrefixed_loop_Cons[OF ne n_def buf'_def]]
  have all: "buf' @ drop n pending = buf @ pending" by (simp add: buf'_def)
  have ok: "length_ok buf' pl" unfolding buf'_def by (rule length_ok_append[OF Cons.prems(2)])
  show ?case
  proof (cases "frame_length buf' pl")
    case (Inl e)
    then show ?thesis using run by simp
  next
    case (Inr pl')
    note ok' = frame_length_ok[OF Inr ok]
    show ?thesis
    proof (cases pl')
      case None
      then have "ReadPrefixed_loop ks (drop n pending) buf' None = Inr p" using run Inr by simp
      then show ?thesis using Cons.IH[of "drop n pending" buf' None] ok' None unfolding all by blast
    next
      case (Some m)
      show ?thesis
      proof (cases "2 + m \<le> length buf'")
        case False
        then have "ReadPrefixed_loop ks (drop n pending) buf' (Some m) = Inr p"
          using run Inr Some by simp
        then show ?thesis
          using Cons.IH[of "drop n pending" buf' "Some m"] ok' Some unfolding all by blast
      next
        case True
        then have p: "p = go_slice buf' 2 (2 + m)" using run Inr Some by simp
        have m: "m = be_val (take 2 (buf @ pending))" "17 \<le> m" "m \<le> 4095"
          using ok' Some by (auto simp: length_ok_def all[symmetric])
        have "go_slice (buf @ pending) 2 (2 + m) = go_slice buf' 2 (2 + m)"
          using True by (simp add: all[symmetric] go_slice_keep)
        then show ?thesis using p m True by simp
      qed
    qed
  qed
qed

section \<open>Properties\<close>



text \<open>
  Framing soundness. Whatever a peer sends, in whatever chunks, a packet that \<open>ReadPrefixed\<close>
  returns has between 17 and 4095 bytes and is exactly the part of the stream that the two-byte
  length prefix announces.
\<close>

theorem ReadPrefixed_sound:
  assumes "ReadPrefixed schedule sent = Inr p"
  shows "17 \<le> length p \<and> length p \<le> 4095 \<and> p = go_slice sent 2 (2 + be_val (take 2 sent))"
proof -
  have "length_ok [] None" by (simp add: length_ok_def)
  from ReadPrefixed_loop_sound[OF assms[unfolded ReadPrefixed_def] this]
  show ?thesis unfolding append_Nil .
qed

theorem ReadPrefixed_sound_witness:
  "ReadPrefixed [1, 30] ([0, 17] @ replicate 18 9) = Inr (replicate 17 9) \<and>
   replicate 17 (9 :: byte) = go_slice ([0, 17] @ replicate 18 9) 2 (2 + be_val (take 2 ([0, 17] @ replicate 18 9)))"
proof -
  have run: "ReadPrefixed [1, 30] ([0, 17] @ replicate 18 9) = Inr (replicate 17 9)"
    by code_simp
  show ?thesis using run ReadPrefixed_sound[OF run] by blast
qed

end
