(* ===== verification/Estimators.thy ===== *)
theory Estimators
  imports Ewma Common
begin

text \<open>
  The question size estimator of \<^verbatim>\<open>dnscrypt-proxy/estimators.go\<close>: the smallest size to which a UDP
  query is padded. It doubles when a response was truncated (\<open>blindAdjust\<close>) and is halved when the
  moving average of the response sizes allows it (\<open>adjust\<close>).
\<close>

record QuestionSizeEstimator =
  minQuestionSize :: int
  qse_ewma :: SimpleEWMA

definition NewQuestionSizeEstimator :: QuestionSizeEstimator where
  "NewQuestionSizeEstimator =
     \<lparr>minQuestionSize = int InitialMinQuestionSize, qse_ewma = \<lparr>se_value = 0\<rparr>\<rparr>"

definition MinQuestionSize :: "QuestionSizeEstimator \<Rightarrow> int" where
  "MinQuestionSize e = minQuestionSize e"

definition blindAdjust :: "QuestionSizeEstimator \<Rightarrow> QuestionSizeEstimator" where
  "blindAdjust e =
     (let m = (if int MaxDNSUDPPacketSize - minQuestionSize e < minQuestionSize e
               then int MaxDNSUDPPacketSize else minQuestionSize e * 2)
      in e\<lparr>minQuestionSize := m, qse_ewma := SimpleEWMA_Set (of_int m) (qse_ewma e)\<rparr>)"

definition adjust :: "int \<Rightarrow> QuestionSizeEstimator \<Rightarrow> QuestionSizeEstimator" where
  "adjust packetSize e =
     (let w = SimpleEWMA_Add (of_int packetSize) (qse_ewma e);
          ma = go_trunc (se_value w);
          m = minQuestionSize e
      in if ma > int InitialMinQuestionSize \<and> ma < go_div m 2
         then e\<lparr>qse_ewma := w, minQuestionSize := max (int InitialMinQuestionSize) (go_div m 2)\<rparr>
         else e\<lparr>qse_ewma := w\<rparr>)"

datatype estimator_op = BlindAdjust | Adjust int

fun estimator_step :: "estimator_op \<Rightarrow> QuestionSizeEstimator \<Rightarrow> QuestionSizeEstimator" where
  "estimator_step BlindAdjust e = blindAdjust e"
| "estimator_step (Adjust n) e = adjust n e"

definition estimator_run :: "estimator_op list \<Rightarrow> QuestionSizeEstimator" where
  "estimator_run ops = fold estimator_step ops NewQuestionSizeEstimator"

lemmas estimator_defs =
  MaxDNSUDPPacketSize_def InitialMinQuestionSize_def MinQuestionSize_def

text \<open>
  The invariant: the size is 512 doubled a number of times, and at most 4096. In particular it is a
  multiple of 64, as the padding of a query requires.
\<close>

definition estimator_inv :: "QuestionSizeEstimator \<Rightarrow> bool" where
  "estimator_inv e \<longleftrightarrow> minQuestionSize e \<in> {512, 1024, 2048, 4096}"

lemma estimator_inv_step: "estimator_inv e \<Longrightarrow> estimator_inv (estimator_step s e)"
  by (cases s) (auto simp: estimator_inv_def blindAdjust_def adjust_def Let_def estimator_defs)

lemma estimator_inv_fold: "estimator_inv e \<Longrightarrow> estimator_inv (fold estimator_step ops e)"
  by (induction ops arbitrary: e) (auto intro: estimator_inv_step)

lemma estimator_inv_run: "estimator_inv (estimator_run ops)"
  unfolding estimator_run_def
  by (rule estimator_inv_fold)
    (simp add: estimator_inv_def NewQuestionSizeEstimator_def estimator_defs)

text \<open>
  C24. Whatever sequence of responses the estimator sees, the padding target it
  returns is one of 512, 1024, 2048 and 4096: it never leaves the range from the initial size to the
  largest UDP packet, and is a multiple of 64.
\<close>

theorem estimator_range: "MinQuestionSize (estimator_run ops) \<in> {512, 1024, 2048, 4096}"
  using estimator_inv_run[of ops] by (simp add: estimator_inv_def MinQuestionSize_def)

text \<open>
  The estimator converges upwards: three truncated responses in a row bring any
  reachable estimate to the largest UDP packet size, where further truncations keep it.
\<close>

theorem blindAdjust_saturates:
  "MinQuestionSize (fold estimator_step (replicate (3 + n) BlindAdjust) (estimator_run ops)) = 4096"
proof -
  have three: "minQuestionSize (blindAdjust (blindAdjust (blindAdjust e))) = 4096"
    if "estimator_inv e" for e
    using that by (auto simp: estimator_inv_def blindAdjust_def Let_def estimator_defs)
  have stay: "minQuestionSize e = 4096 \<Longrightarrow>
      minQuestionSize (fold estimator_step (replicate k BlindAdjust) e) = 4096" for k e
    by (induction k arbitrary: e) (auto simp: blindAdjust_def Let_def estimator_defs)
  show ?thesis
    using stay[OF three[OF estimator_inv_run[of ops]], of n]
    by (simp add: MinQuestionSize_def eval_nat_numeral)
qed

end
