(* ===== verification/Server_Types.thy ===== *)
theory Server_Types
  imports Estimators
begin

text \<open>
  The data the resolver-facing components share: server stamps (\<^verbatim>\<open>go-dnsstamps\<close>), relays, the
  post-quantum session state of a server (\<^verbatim>\<open>pq.go\<close>) and the \<open>ServerInfo\<close> record
  (\<^verbatim>\<open>serversInfo.go\<close>). A pointer that may be nil is an \<open>option\<close>; a \<^verbatim>\<open>[]byte\<close> for which the code
  distinguishes nil is one too. The fields of \<^verbatim>\<open>ServerInfo\<close> that no modelled operation reads (the
  TLS client credentials) are left out.
\<close>

section \<open>Stamps\<close>

datatype StampProtoType =
    StampProtoTypePlain
  | StampProtoTypeDNSCrypt
  | StampProtoTypeDoH
  | StampProtoTypeTLS
  | StampProtoTypeDoQ
  | StampProtoTypeODoHTarget
  | StampProtoTypeDNSCryptRelay
  | StampProtoTypeODoHRelay

record ServerStamp =
  st_ServerAddrStr :: string
  st_ServerPk :: bytes
  st_Hashes :: "bytes list"
  st_ProviderName :: string
  st_Path :: string
  st_Props :: "64 word"
  st_Proto :: StampProtoType

record RegisteredServer =
  rs_name :: string
  rs_stamp :: ServerStamp

section \<open>Addresses and relays\<close>

text \<open>A resolved address: the IP address in its 16-byte form and the port.\<close>

record net_addr =
  na_ip :: bytes
  na_port :: nat

record DNSCryptRelay =
  RelayUDPAddr :: net_addr
  RelayTCPAddr :: net_addr

record Relay =
  rl_Proto :: StampProtoType
  rl_Dnscrypt :: "DNSCryptRelay option"
  rl_ODoH :: "string option"
  rl_Name :: string

section \<open>Post-quantum session state\<close>

record pqSessionState =
  pq_ticket :: "bytes option"
  pq_resumeSecret :: bytes
  pq_expiry :: go_time
  pq_epoch :: nat
  pq_encap :: "bytes option"
  pq_encapKey :: bytes
  pq_encapEpoch :: nat

definition zero_key :: bytes where
  "zero_key = replicate 32 0"

lemma length_zero_key [simp, len_simps]: "length zero_key = 32"
  by (simp add: zero_key_def)

definition empty_pqSessionState :: pqSessionState where
  "empty_pqSessionState =
     \<lparr>pq_ticket = None, pq_resumeSecret = zero_key, pq_expiry = 0, pq_epoch = 0,
      pq_encap = None, pq_encapKey = zero_key, pq_encapEpoch = 0\<rparr>"

definition newPqSessionState :: "CryptoConstruction \<Rightarrow> pqSessionState option" where
  "newPqSessionState c = (if c \<noteq> XWingPQ then None else Some empty_pqSessionState)"

section \<open>Servers\<close>

record ODoHTargetConfig =
  odoh_suite :: "16 word \<times> 16 word \<times> 16 word"
  odoh_keyID :: bytes
  odoh_publicKey :: bytes

record ServerInfo =
  si_lastActionTS :: go_time
  si_rtt :: VariableEWMA
  si_Name :: string
  si_HostName :: string
  si_UDPAddr :: net_addr
  si_TCPAddr :: net_addr
  si_Relay :: "Relay option"
  si_URL :: string
  si_initialRtt :: int
  si_Timeout :: duration
  si_CryptoConstruction :: CryptoConstruction
  si_ServerPk :: bytes
  si_SharedKey :: bytes
  si_MagicQuery :: bytes
  si_PqPublicKey :: bytes
  si_PqCertContext :: bytes
  si_pqSession :: "pqSessionState option"
  si_fragmentsBlocked :: bool
  si_Proto :: StampProtoType
  si_useGet :: bool
  si_odohTargetConfigs :: "ODoHTargetConfig list"
  si_Props :: "64 word"
  si_totalQueries :: "64 word"
  si_failedQueries :: "64 word"
  si_lastUpdateTime :: go_time
  si_lastDecayTS :: go_time

definition SupportsDNSSEC :: "ServerInfo \<Rightarrow> bool" where
  "SupportsDNSSEC s \<longleftrightarrow> si_Props s AND push_bit 0 1 \<noteq> 0"

definition SupportsNoLog :: "ServerInfo \<Rightarrow> bool" where
  "SupportsNoLog s \<longleftrightarrow> si_Props s AND push_bit 1 1 \<noteq> 0"

definition SupportsNoFilter :: "ServerInfo \<Rightarrow> bool" where
  "SupportsNoFilter s \<longleftrightarrow> si_Props s AND push_bit 2 1 \<noteq> 0"

text \<open>A server without observations, for examples: every field has its zero value in Go.\<close>

definition zero_addr :: net_addr where
  "zero_addr = \<lparr>na_ip = replicate 16 0, na_port = 0\<rparr>"

definition zero_ServerInfo :: ServerInfo where
  "zero_ServerInfo =
     \<lparr>si_lastActionTS = 0, si_rtt = NewVariableEWMA 10, si_Name = [], si_HostName = [],
      si_UDPAddr = zero_addr, si_TCPAddr = zero_addr, si_Relay = None, si_URL = [],
      si_initialRtt = 0, si_Timeout = 0, si_CryptoConstruction = UndefinedConstruction,
      si_ServerPk = zero_key, si_SharedKey = zero_key, si_MagicQuery = replicate 8 0,
      si_PqPublicKey = [], si_PqCertContext = [], si_pqSession = None, si_fragmentsBlocked = False,
      si_Proto = StampProtoTypePlain, si_useGet = False, si_odohTargetConfigs = [], si_Props = 0,
      si_totalQueries = 0, si_failedQueries = 0, si_lastUpdateTime = 0, si_lastDecayTS = 0\<rparr>"

end
