(* ===== verification/Padding.thy ===== *)
theory Padding
  imports Common
begin

text \<open>
  The ISO/IEC 7816-4 padding of DNSCrypt payloads: \<open>pad\<close> and \<open>unpad\<close> of \<^verbatim>\<open>crypto.go\<close> and \<open>pqPad\<close> of
  \<^verbatim>\<open>pq.go\<close>. The locale \<open>padding_scheme\<close> is the contract the encryption code relies on; both padding
  functions are instances of it, with the one \<open>unpad\<close> as their inverse.
\<close>

definition NonceSize :: nat where "NonceSize = 24"
definition HalfNonceSize :: nat where "HalfNonceSize = 24 div 2"
definition TagSize :: nat where "TagSize = 16"
definition PublicKeySize :: nat where "PublicKeySize = 32"
definition QueryOverhead :: nat where
  "QueryOverhead = ClientMagicLen + PublicKeySize + HalfNonceSize + TagSize"
definition ResponseOverhead :: nat where
  "ResponseOverhead = length ServerMagic + NonceSize + TagSize"

lemmas crypto_sizes =
  NonceSize_def HalfNonceSize_def TagSize_def PublicKeySize_def QueryOverhead_def
  ResponseOverhead_def size_defs

lemma QueryOverhead_eq: "QueryOverhead = 68"
  by (simp add: crypto_sizes)

lemma ResponseOverhead_eq: "ResponseOverhead = 48"
  by (simp add: crypto_sizes)

datatype pad_error = ShortPadding | DelimiterNotFound

section \<open>The padding functions\<close>

text \<open>The loop of \<^verbatim>\<open>pad\<close>: append zero bytes until the packet has \<open>minSize\<close> bytes.\<close>

function pad_loop :: "bytes \<Rightarrow> int \<Rightarrow> bytes" where
  "pad_loop packet minSize =
     (if int (length packet) < minSize then pad_loop (packet @ [0]) minSize else packet)"
  by pat_completeness auto
termination
  by (relation "measure (\<lambda>(packet, minSize). nat (minSize - int (length packet)))") auto

declare pad_loop.simps [simp del]

definition pad :: "bytes \<Rightarrow> int \<Rightarrow> bytes" where
  "pad packet minSize = pad_loop (packet @ [0x80]) minSize"

text \<open>The loop of \<^verbatim>\<open>unpad\<close>, with \<open>i\<close> the number of bytes not yet looked at.\<close>

fun unpad_loop :: "bytes \<Rightarrow> nat \<Rightarrow> pad_error + bytes" where
  "unpad_loop packet 0 = Inl ShortPadding"
| "unpad_loop packet (Suc i) =
     (if packet ! i = 0x80 then Inr (take i packet)
      else if packet ! i \<noteq> 0 then Inl DelimiterNotFound
      else unpad_loop packet i)"

definition unpad :: "bytes \<Rightarrow> pad_error + bytes" where
  "unpad packet = unpad_loop packet (length packet)"

text \<open>
  \<^verbatim>\<open>pqPad\<close> allocates the padded packet at once: the next multiple of 64 that has room for the
  delimiter, or \<open>floor\<close> if that is larger.
\<close>

definition pqPad :: "bytes \<Rightarrow> int \<Rightarrow> bytes" where
  "pqPad packet floor =
     (let target0 = clear6 (int (length packet) + 1 + 63);
          target = (if target0 < floor then floor else target0);
          padded = packet @ replicate (nat target - length packet) 0
      in padded[length packet := 0x80])"

section \<open>Closed forms\<close>

lemma pad_loop_eq: "pad_loop packet m = packet @ replicate (nat m - length packet) 0"
proof (induction packet m rule: pad_loop.induct)
  case (1 packet m)
  show ?case
  proof (cases "int (length packet) < m")
    case True
    then obtain d where d: "nat m - length packet = Suc d"
      by (metis Suc_diff_Suc zless_nat_eq_int_zless)
    then have "nat m - length (packet @ [0]) = d" by simp
    with 1 True d show ?thesis by (simp add: pad_loop.simps[of packet m])
  next
    case False
    then show ?thesis by (simp add: pad_loop.simps[of packet m])
  qed
qed

lemma pad_eq: "pad packet m = packet @ 0x80 # replicate (nat m - Suc (length packet)) 0"
  by (simp add: pad_def pad_loop_eq)

lemma pqPad_eq:
  "pqPad packet floor =
     packet @ 0x80 #
     replicate (nat (max floor (clear6 (int (length packet) + 64))) - Suc (length packet)) 0"
proof -
  define t where "t = max floor (clear6 (int (length packet) + 64))"
  have t: "(if clear6 (int (length packet) + 1 + 63) < floor then floor
      else clear6 (int (length packet) + 1 + 63)) = t"
    by (simp add: t_def max_def add.assoc)
  have "int (length packet) < t" using clear6_gt[of "int (length packet) + 64"] by (simp add: t_def)
  then obtain d where d: "nat t - length packet = Suc d"
    by (metis Suc_diff_Suc zless_nat_eq_int_zless)
  then have "pqPad packet floor = (packet @ 0 # replicate d 0)[length packet := 0x80]"
    unfolding pqPad_def Let_def t by simp
  also have "\<dots> = packet @ 0x80 # replicate d 0" by (simp add: list_update_append)
  finally show ?thesis using d by (simp add: t_def[symmetric])
qed

lemma unpad_loop_zeros:
  "i \<le> k \<Longrightarrow> unpad_loop (packet @ 0x80 # replicate k 0) (Suc (length packet + i)) = Inr packet"
proof (induction i)
  case 0
  then show ?case by (simp add: nth_append)
next
  case (Suc i)
  then show ?case by (simp add: nth_append nth_Cons')
qed

lemma unpad_delimited: "unpad (packet @ 0x80 # replicate k 0) = Inr packet"
  using unpad_loop_zeros[of k k packet] by (simp add: unpad_def)

lemma unpad_loop_sound:
  "unpad_loop packet i = Inr p \<Longrightarrow> i \<le> length packet \<Longrightarrow>
     \<exists>k. take i packet = p @ 0x80 # replicate k 0"
proof (induction i)
  case 0
  then show ?case by simp
next
  case (Suc i)
  have tk: "take (Suc i) packet = take i packet @ [packet ! i]"
    using Suc.prems(2) by (simp add: take_Suc_conv_app_nth)
  show ?case
  proof (cases "packet ! i = 0x80")
    case True
    then have "take (Suc i) packet = p @ 0x80 # replicate 0 0" using tk Suc.prems by simp
    then show ?thesis by blast
  next
    case False
    then have z: "packet ! i = 0" and r: "unpad_loop packet i = Inr p"
      using Suc.prems by (auto split: if_splits)
    from Suc.IH[OF r] Suc.prems(2) obtain k where "take i packet = p @ 0x80 # replicate k 0" by auto
    then have "take (Suc i) packet = p @ 0x80 # replicate (Suc k) 0"
      using tk z by (simp add: replicate_append_same)
    then show ?thesis by blast
  qed
qed

lemma unpad_sound: "unpad packet = Inr p \<Longrightarrow> \<exists>k. packet = p @ 0x80 # replicate k 0"
  using unpad_loop_sound[of packet "length packet" p] by (simp add: unpad_def)

section \<open>The contract of a padding\<close>

locale padding_scheme =
  fixes padf :: "bytes \<Rightarrow> int \<Rightarrow> bytes"
    and unpadf :: "bytes \<Rightarrow> 'e + bytes"
    and target :: "nat \<Rightarrow> int \<Rightarrow> int"
  assumes unpad_pad: "unpadf (padf p n) = Inr p"
    and length_pad: "int (length (padf p n)) = target (length p) n"
    and target_ge: "int k < target k n"
    and target_mono: "n \<le> target k n"
begin

lemma pad_inject: "padf p n = padf q m \<Longrightarrow> p = q"
  by (metis unpad_pad sum.inject(2))

lemma pad_extends: "length p < length (padf p n)"
  using length_pad[of p n] target_ge[of "length p" n] by simp

lemma pad_reaches: "n \<le> int (length (padf p n))"
  using length_pad[of p n] target_mono[of n "length p"] by simp

lemma pad_size_only: "length p = length q \<Longrightarrow> length (padf p n) = length (padf q n)"
  using length_pad[of p n] length_pad[of q n] by simp

end

interpretation classic_padding: padding_scheme pad unpad "\<lambda>k n. max n (int k + 1)"
  by unfold_locales (auto simp: pad_eq unpad_delimited)

lemma pq_target_gt: "int k < max n (clear6 (int k + 64))"
  using clear6_gt[of "int k + 64"] by simp

interpretation pq_padding: padding_scheme pqPad unpad "\<lambda>k n. max n (clear6 (int k + 64))"
proof unfold_locales
  fix p n
  show "unpad (pqPad p n) = Inr p" by (simp add: pqPad_eq unpad_delimited)
  define t where "t = max n (clear6 (int (length p) + 64))"
  have "int (length p) < t" unfolding t_def by (rule pq_target_gt)
  then have "int (length p + Suc (nat t - Suc (length p))) = t" by simp
  then show "int (length (pqPad p n)) = max n (clear6 (int (length p) + 64))"
    by (simp add: pqPad_eq t_def)
next
  fix k n
  show "int k < max n (clear6 (int k + 64))" by (rule pq_target_gt)
  show "n \<le> max n (clear6 (int k + 64))" by simp
qed

section \<open>Properties\<close>

text \<open>
  Padding round trip. \<open>unpad\<close> recovers exactly the packet that \<open>pad\<close> or \<open>pqPad\<close> was given, for
  every packet (also one that ends in padding-like bytes) and every target size.
\<close>

theorem padding_roundtrip: "unpad (pad p n) = Inr p \<and> unpad (pqPad p m) = Inr p"
  using classic_padding.unpad_pad pq_padding.unpad_pad by blast

text \<open>
  \<open>unpad\<close> accepts nothing else: what it returns, followed by the delimiter and zero bytes, is its
  input, so a successful \<open>unpad\<close> determines the padded packet up to the number of zeros.
\<close>

theorem unpad_exact: "unpad packet = Inr p \<longleftrightarrow> (\<exists>k. packet = p @ 0x80 # replicate k 0)"
  using unpad_sound unpad_delimited by blast

text \<open>
  Sizes. A packet padded by \<open>pqPad\<close> has exactly the larger of the floor and the next multiple of
  64 above its length, so with a floor that is a multiple of 64 the padded size always is one and
  tells nothing about the packet but its 64-byte class.
\<close>

theorem pqPad_length:
  "int (length (pqPad p floor)) = max floor (64 * (int (length p) div 64 + 1))"
proof -
  have "clear6 (int (length p) + 64) = 64 * (int (length p) div 64 + 1)"
    by (simp add: clear6_eq minus_mod_eq_mult_div algebra_simps)
  then show ?thesis using pq_padding.length_pad[of p floor] by simp
qed

end
