(* ===== verification/Secretbox.thy ===== *)
theory Secretbox
  imports Padding
begin

text \<open>
  The authenticated encryption the proxy uses: \<^verbatim>\<open>xsecretbox\<close> (XChaCha20-Poly1305) and NaCl's
  \<^verbatim>\<open>secretbox\<close> and \<^verbatim>\<open>box\<close> (XSalsa20-Poly1305), both vendored. The construction around the stream
  cipher and the authenticator is modelled; the primitives themselves (key streams, Poly1305, X25519,
  the hash functions) are the parameters collected in the record \<open>crypto_prims\<close>. A primitive whose
  result is a fixed-size array gives its byte at each index, and \<open>arr n\<close> is the array of the first
  \<open>n\<close> of them, so that a result has the right size by construction. Randomness is an explicit input
  of the same form, \<open>None\<close> when reading it fails.
\<close>

type_synonym byte_fun = "nat \<Rightarrow> byte"

definition arr :: "nat \<Rightarrow> byte_fun \<Rightarrow> bytes" where
  "arr n f = map f [0..<n]"

lemma length_arr [simp, len_simps]: "length (arr n f) = n"
  by (simp add: arr_def)

text \<open>\<^verbatim>\<open>copy\<close> into a zeroed array of \<open>n\<close> bytes.\<close>

definition copy_into :: "nat \<Rightarrow> bytes \<Rightarrow> bytes" where
  "copy_into n xs = take n xs @ replicate (n - length xs) 0"

lemma length_copy_into [simp, len_simps]: "length (copy_into n xs) = n"
  by (simp add: copy_into_def)

lemma copy_into_id: "length xs = n \<Longrightarrow> copy_into n xs = xs"
  by (simp add: copy_into_def)

lemma take_copy_into: "k \<le> length xs \<Longrightarrow> k \<le> n \<Longrightarrow> take k (copy_into n xs) = take k xs"
  by (simp add: copy_into_def min_def)

record crypto_prims =
  cp_chacha20 :: "bytes \<Rightarrow> bytes \<Rightarrow> nat \<Rightarrow> byte_fun"
  cp_hchacha20 :: "bytes \<Rightarrow> bytes \<Rightarrow> byte_fun option"
  cp_salsa20 :: "bytes \<Rightarrow> bytes \<Rightarrow> byte_fun"
  cp_hsalsa20 :: "bytes \<Rightarrow> bytes \<Rightarrow> byte_fun"
  cp_poly1305 :: "bytes \<Rightarrow> bytes \<Rightarrow> byte_fun"
  cp_x25519 :: "bytes \<Rightarrow> bytes \<Rightarrow> byte_fun option"
  cp_x25519_base :: "bytes \<Rightarrow> byte_fun"
  cp_sha256 :: "bytes \<Rightarrow> byte_fun"
  cp_sha512_256 :: "bytes \<Rightarrow> byte_fun"
  cp_hkdf_sha256 :: "bytes \<Rightarrow> bytes \<Rightarrow> bytes \<Rightarrow> byte_fun"
  cp_xwing_encapsulate :: "bytes \<Rightarrow> byte_fun \<Rightarrow> (byte_fun \<times> byte_fun) option"

section \<open>The box construction\<close>

text \<open>
  \<^verbatim>\<open>XORKeyStream\<close>: the bytes of a message xor-ed with a key stream that starts at index \<open>i\<close>.
\<close>

fun xor_stream :: "byte_fun \<Rightarrow> nat \<Rightarrow> bytes \<Rightarrow> bytes" where
  "xor_stream ks i [] = []"
| "xor_stream ks i (x # xs) = (ks i XOR x) # xor_stream ks (Suc i) xs"

lemma length_xor_stream [simp, len_simps]: "length (xor_stream ks i xs) = length xs"
  by (induction xs arbitrary: i) auto

lemma xor_stream_cancel [simp]: "xor_stream ks i (xor_stream ks i xs) = xs"
  by (induction xs arbitrary: i) (auto simp: xor.assoc[symmetric])

lemma take_xor_stream: "take n (xor_stream ks i xs) = xor_stream ks i (take n xs)"
  by (induction xs arbitrary: i n) (auto simp: take_Cons')

lemma drop_xor_stream_length: "drop n (xor_stream ks i xs) = xor_stream ks (i + n) (drop n xs)"
  by (induction xs arbitrary: i n) (auto simp: drop_Cons' nat_diff_split)

text \<open>
  Both \<^verbatim>\<open>Seal\<close> functions: the first 32 bytes of the first block of the key stream are the one-time
  authenticator key, its last 32 bytes encrypt the start of the message, and the stream from block 1
  on encrypts the rest. The tag of the ciphertext comes first in the result.
\<close>

definition box_seal :: "(bytes \<Rightarrow> bytes \<Rightarrow> byte_fun) \<Rightarrow> byte_fun \<Rightarrow> byte_fun \<Rightarrow> bytes \<Rightarrow> bytes" where
  "box_seal poly block0 stream1 message =
     (let firstBlock = arr 64 block0;
          polyKey = take 32 firstBlock;
          firstMessageBlock = (if length message > 32 then take 32 message else message);
          ciphertext = xor_stream (\<lambda>i. firstBlock ! i) 32 firstMessageBlock @
                       xor_stream stream1 0 (drop (length firstMessageBlock) message);
          tag = arr TagSize (poly polyKey ciphertext)
      in tag @ ciphertext)"

definition box_open ::
  "(bytes \<Rightarrow> bytes \<Rightarrow> byte_fun) \<Rightarrow> byte_fun \<Rightarrow> byte_fun \<Rightarrow> bytes \<Rightarrow> bytes option" where
  "box_open poly block0 stream1 box =
     (if length box < TagSize then None
      else let firstBlock = arr 64 block0;
               polyKey = take 32 firstBlock;
               ciphertext = drop TagSize box;
               tag = arr TagSize (poly polyKey ciphertext)
           in if tag \<noteq> take TagSize box then None
              else let firstMessageBlock =
                         (if length ciphertext > 32 then take 32 ciphertext else ciphertext)
                   in Some (xor_stream (\<lambda>i. firstBlock ! i) 32 firstMessageBlock @
                            xor_stream stream1 0 (drop (length firstMessageBlock) ciphertext)))"

lemma first_block_take: "(if length m > 32 then take 32 m else m) = take 32 (m :: bytes)"
  by simp

lemma box_seal_alt:
  "box_seal poly block0 stream1 m =
     (let c = xor_stream (\<lambda>i. arr 64 block0 ! i) 32 (take 32 m) @ xor_stream stream1 0 (drop 32 m)
      in arr 16 (poly (take 32 (arr 64 block0)) c) @ c)"
  unfolding box_seal_def Let_def first_block_take by (auto simp: TagSize_def min_def)

lemma box_open_alt:
  "box_open poly block0 stream1 b =
     (if length b < 16 \<or> arr 16 (poly (take 32 (arr 64 block0)) (drop 16 b)) \<noteq> take 16 b then None
      else Some (xor_stream (\<lambda>i. arr 64 block0 ! i) 32 (take 32 (drop 16 b)) @
                 xor_stream stream1 0 (drop 32 (drop 16 b))))"
  unfolding box_open_def Let_def first_block_take by (auto simp: TagSize_def min_def)

lemma length_box_seal [len_simps]: "length (box_seal poly b0 s1 m) = length m + 16"
  by (simp add: box_seal_alt Let_def)

lemma box_open_seal: "box_open poly b0 s1 (box_seal poly b0 s1 m) = Some m"
proof (cases "length m \<le> 32")
  case True
  then show ?thesis by (simp add: box_open_alt box_seal_alt Let_def)
next
  case False
  then show ?thesis by (simp add: box_open_alt box_seal_alt Let_def)
qed

lemma box_seal_open: "box_open poly b0 s1 b = Some m \<Longrightarrow> b = box_seal poly b0 s1 m"
proof -
  assume op: "box_open poly b0 s1 b = Some m"
  define c where "c = drop 16 b"
  have b: "b = take 16 b @ c" by (simp add: c_def)
  have tag: "take 16 b = arr 16 (poly (take 32 (arr 64 b0)) c)"
    and m: "m = xor_stream (\<lambda>i. arr 64 b0 ! i) 32 (take 32 c) @ xor_stream s1 0 (drop 32 c)"
    using op by (auto simp: box_open_alt c_def split: if_splits)
  have "xor_stream (\<lambda>i. arr 64 b0 ! i) 32 (take 32 m) @ xor_stream s1 0 (drop 32 m) = c"
    by (cases "length c \<le> 32") (auto simp: m)
  then show ?thesis using b tag by (simp add: box_seal_alt Let_def)
qed

section \<open>The packages\<close>

text \<open>\<^verbatim>\<open>xsecretbox\<close>: \<open>None\<close> of the outer option is the panic on a wrong nonce or key size.\<close>

definition xsecretbox_Seal :: "crypto_prims \<Rightarrow> bytes \<Rightarrow> bytes \<Rightarrow> bytes \<Rightarrow> bytes option" where
  "xsecretbox_Seal P nonce message key =
     (if length nonce \<noteq> NonceSize then None
      else if length key \<noteq> 32 then None
      else Some (box_seal (cp_poly1305 P) (cp_chacha20 P key nonce 0) (cp_chacha20 P key nonce 1)
                   message))"

definition xsecretbox_Open :: "crypto_prims \<Rightarrow> bytes \<Rightarrow> bytes \<Rightarrow> bytes \<Rightarrow> bytes option option" where
  "xsecretbox_Open P nonce box key =
     (if length nonce \<noteq> NonceSize then None
      else if length key \<noteq> 32 then None
      else Some (box_open (cp_poly1305 P) (cp_chacha20 P key nonce 0) (cp_chacha20 P key nonce 1)
                   box))"

text \<open>
  \<^verbatim>\<open>SharedKey\<close> gives the key and whether an error is returned. When the key exchange fails the key is
  random, and the error returned is the one of reading the random bytes.
\<close>

definition xsecretbox_SharedKey ::
  "crypto_prims \<Rightarrow> byte_fun option \<Rightarrow> bytes \<Rightarrow> bytes \<Rightarrow> bytes \<times> bool" where
  "xsecretbox_SharedKey P rnd secretKey publicKey =
     (case (case cp_x25519 P secretKey publicKey of
              None \<Rightarrow> None
            | Some dhKey \<Rightarrow> cp_hchacha20 P (arr 32 dhKey) (replicate 16 0)) of
        None \<Rightarrow> (case rnd of None \<Rightarrow> (replicate 32 0, True) | Some r \<Rightarrow> (arr 32 r, False))
      | Some subKey \<Rightarrow> (arr 32 subKey, False))"

text \<open>NaCl's \<^verbatim>\<open>secretbox\<close>: the sub-key comes from HSalsa20, the block counter from byte 8 on.\<close>

definition secretbox_setup :: "crypto_prims \<Rightarrow> bytes \<Rightarrow> bytes \<Rightarrow> bytes \<times> bytes" where
  "secretbox_setup P nonce key =
     (arr 32 (cp_hsalsa20 P key (copy_into 16 nonce)), copy_into 16 (drop 16 nonce))"

definition secretbox_Seal :: "crypto_prims \<Rightarrow> bytes \<Rightarrow> bytes \<Rightarrow> bytes \<Rightarrow> bytes" where
  "secretbox_Seal P message nonce key =
     (let (subKey, counter) = secretbox_setup P nonce key
      in box_seal (cp_poly1305 P) (cp_salsa20 P subKey counter)
           (cp_salsa20 P subKey (counter[8 := 1])) message)"

definition secretbox_Open :: "crypto_prims \<Rightarrow> bytes \<Rightarrow> bytes \<Rightarrow> bytes \<Rightarrow> bytes option" where
  "secretbox_Open P box nonce key =
     (let (subKey, counter) = secretbox_setup P nonce key
      in box_open (cp_poly1305 P) (cp_salsa20 P subKey counter)
           (cp_salsa20 P subKey (counter[8 := 1])) box)"

definition ScalarMult :: "crypto_prims \<Rightarrow> bytes \<Rightarrow> bytes \<Rightarrow> bytes" where
  "ScalarMult P scalar point =
     (case cp_x25519 P scalar point of None \<Rightarrow> replicate 32 0 | Some r \<Rightarrow> arr 32 r)"

definition ScalarBaseMult :: "crypto_prims \<Rightarrow> bytes \<Rightarrow> bytes" where
  "ScalarBaseMult P scalar = arr 32 (cp_x25519_base P scalar)"

definition box_Precompute :: "crypto_prims \<Rightarrow> bytes \<Rightarrow> bytes \<Rightarrow> bytes" where
  "box_Precompute P peersPublicKey privateKey =
     arr 32 (cp_hsalsa20 P (ScalarMult P privateKey peersPublicKey) (replicate 16 0))"

lemma length_ScalarBaseMult [simp, len_simps]: "length (ScalarBaseMult P s) = 32"
  by (simp add: ScalarBaseMult_def)

lemma length_box_Precompute [simp, len_simps]: "length (box_Precompute P pk sk) = 32"
  by (simp add: box_Precompute_def)

lemma length_xsecretbox_SharedKey [simp, len_simps]:
  "length (fst (xsecretbox_SharedKey P rnd sk pk)) = 32"
  by (simp add: xsecretbox_SharedKey_def split: option.splits)

section \<open>The contract of a box\<close>

text \<open>
  What the proxy relies on: opening inverts sealing, nothing but a sealed box opens, and a box is 16
  bytes longer than its message. Nonces and keys range over those for which the operations do not
  panic.
\<close>

locale aead =
  fixes seal :: "bytes \<Rightarrow> bytes \<Rightarrow> bytes \<Rightarrow> bytes"
    and opn :: "bytes \<Rightarrow> bytes \<Rightarrow> bytes \<Rightarrow> bytes option"
  assumes open_seal: "opn n k (seal n k m) = Some m"
    and seal_open: "opn n k b = Some m \<Longrightarrow> b = seal n k m"
    and length_seal: "length (seal n k m) = length m + TagSize"
begin

lemma open_iff: "opn n k b = Some m \<longleftrightarrow> b = seal n k m"
  using open_seal seal_open by blast

lemma seal_inject: "seal n k m = seal n k m' \<longleftrightarrow> m = m'"
  by (metis open_seal option.inject)

lemma open_length: "opn n k b = Some m \<Longrightarrow> length b = length m + TagSize"
  using seal_open length_seal by blast

lemma open_short: "length b < TagSize \<Longrightarrow> opn n k b = None"
  using open_length by (cases "opn n k b") force+

end

definition xchacha_seal :: "crypto_prims \<Rightarrow> bytes \<Rightarrow> bytes \<Rightarrow> bytes \<Rightarrow> bytes" where
  "xchacha_seal P n k m =
     box_seal (cp_poly1305 P) (cp_chacha20 P k n 0) (cp_chacha20 P k n 1) m"

definition xchacha_open :: "crypto_prims \<Rightarrow> bytes \<Rightarrow> bytes \<Rightarrow> bytes \<Rightarrow> bytes option" where
  "xchacha_open P n k b =
     box_open (cp_poly1305 P) (cp_chacha20 P k n 0) (cp_chacha20 P k n 1) b"

lemma xsecretbox_Seal_eq:
  "length n = 24 \<Longrightarrow> length k = 32 \<Longrightarrow> xsecretbox_Seal P n m k = Some (xchacha_seal P n k m)"
  by (simp add: xsecretbox_Seal_def xchacha_seal_def NonceSize_def)

lemma xsecretbox_Open_eq:
  "length n = 24 \<Longrightarrow> length k = 32 \<Longrightarrow> xsecretbox_Open P n b k = Some (xchacha_open P n k b)"
  by (simp add: xsecretbox_Open_def xchacha_open_def NonceSize_def)

interpretation xchacha: aead "xchacha_seal P" "xchacha_open P" for P
  by unfold_locales
    (auto simp: xchacha_seal_def xchacha_open_def box_open_seal box_seal_open len_simps TagSize_def)

interpretation xsalsa: aead "\<lambda>n k m. secretbox_Seal P m n k" "\<lambda>n k b. secretbox_Open P b n k" for P
  by unfold_locales
    (auto simp: secretbox_Seal_def secretbox_Open_def box_open_seal box_seal_open len_simps TagSize_def
      split: prod.splits)

section \<open>A concrete instance of the primitives\<close>

text \<open>
  For examples: a key stream that depends on key, nonce and position, a tag that sums the message,
  and the multiplicative group of bytes in place of the curve (its base point is 1).
\<close>

definition example_prims :: crypto_prims where
  "example_prims =
     \<lparr>cp_chacha20 = (\<lambda>k n c i. sum_list k + sum_list n + of_nat c + of_nat i),
      cp_hchacha20 = (\<lambda>k n. Some (\<lambda>i. k ! i)),
      cp_salsa20 = (\<lambda>k n i. sum_list k + sum_list n + of_nat i),
      cp_hsalsa20 = (\<lambda>k n i. k ! i + 1),
      cp_poly1305 = (\<lambda>k m i. sum_list k + sum_list m + of_nat i),
      cp_x25519 = (\<lambda>sk pk. Some (\<lambda>i. sk ! i * pk ! i)),
      cp_x25519_base = (\<lambda>sk i. sk ! i),
      cp_sha256 = (\<lambda>m i. sum_list m),
      cp_sha512_256 = (\<lambda>m i. sum_list m),
      cp_hkdf_sha256 = (\<lambda>salt ikm info i. sum_list salt + sum_list ikm + sum_list info),
      cp_xwing_encapsulate = (\<lambda>pk seed. Some (\<lambda>i. seed i + 1, \<lambda>i. seed i))\<rparr>"

section \<open>Properties\<close>

text \<open>
  C26. Authenticated encryption. \<^verbatim>\<open>Open\<close> of both packages accepts exactly the boxes that \<^verbatim>\<open>Seal\<close> makes
  under the same nonce and key, returns the message that was sealed, and panics exactly when \<^verbatim>\<open>Seal\<close>
  does. No assumption is made on the stream ciphers or on Poly1305.
\<close>

theorem open_exact:
  "(xsecretbox_Open P n b k = Some (Some m) \<longleftrightarrow> xsecretbox_Seal P n m k = Some b) \<and>
   (xsecretbox_Open P n b k = None \<longleftrightarrow> xsecretbox_Seal P n m k = None) \<and>
   (secretbox_Open P b n k = Some m \<longleftrightarrow> secretbox_Seal P m n k = b)"
proof -
  have "xsecretbox_Open P n b k = Some (Some m) \<longleftrightarrow> xsecretbox_Seal P n m k = Some b"
    unfolding xsecretbox_Open_def xsecretbox_Seal_def
    by (auto simp: box_open_seal dest: box_seal_open)
  moreover have "xsecretbox_Open P n b k = None \<longleftrightarrow> xsecretbox_Seal P n m k = None"
    by (simp add: xsecretbox_Open_def xsecretbox_Seal_def)
  ultimately show ?thesis using xsalsa.open_iff[where P = P] by auto
qed

end
