(* ===== verification/PQ.thy ===== *)
theory PQ
  imports Server_Types Secretbox
begin

text \<open>
  The post-quantum variant of DNSCrypt (\<^verbatim>\<open>dnscrypt-proxy/pq.go\<close>): key derivation, the session state
  of a server (a resumption ticket and a cached encapsulation, each tied to the network epoch in
  which it was obtained), construction of queries and processing of the control block of a response.
  A \<^verbatim>\<open>time.Now()\<close> is an argument; a method with a nil receiver is one on \<open>None\<close>.
\<close>

section \<open>Proxy state and results\<close>

text \<open>
  The fields of \<^verbatim>\<open>Proxy\<close> the encryption code uses: the client key pair, the servers in use, the
  question size estimator and the network monitor, of which the epoch counts.
\<close>

record Proxy =
  px_proxySecretKey :: bytes
  px_proxyPublicKey :: bytes
  px_ephemeralKeys :: bool
  px_questionSizeEstimator :: QuestionSizeEstimator
  px_netMonitor :: "nat option"
  px_inner :: "ServerInfo list"

definition networkEpoch :: "Proxy \<Rightarrow> nat" where
  "networkEpoch px = (case px_netMonitor px of None \<Rightarrow> 0 | Some epoch \<Rightarrow> epoch)"

datatype crypto_error =
    RandError | EncapsulationError | CryptoPanic | FatalExit | QuestionTooLarge
  | InvalidSizeOrPrefix | UnexpectedNonce | IncorrectTag
  | PQResponseTooShort | PQControlOverflows | IncorrectPadding

text \<open>
  The random bytes an operation reads, in the order of the reads: the client nonce, the seed of an
  encapsulation, the padding byte of a TCP query, and the two fallback keys of a key exchange.
\<close>

record entropy =
  en_nonce :: "byte_fun option"
  en_encap :: "byte_fun option"
  en_pad :: "byte option"
  en_sharedKey :: "byte_fun option"
  en_weakKey :: "byte_fun option"

record enc_result =
  er_sharedKey :: bytes
  er_encrypted :: bytes
  er_clientNonce :: bytes
  er_queryEpoch :: nat

section \<open>Constants and key derivation\<close>

definition PQXWingPublicKeySize :: nat where "PQXWingPublicKeySize = 1216"
definition PQXWingCiphertextSize :: nat where "PQXWingCiphertextSize = 1120"
definition PQProfileExtSize :: nat where "PQProfileExtSize = 12"
definition PQControlVersion :: byte where "PQControlVersion = 0x01"
definition PQExtVersion :: byte where "PQExtVersion = 0x01"
definition PQKdfID :: byte where "PQKdfID = 0x01"
definition PQAeadID :: byte where "PQAeadID = 0x01"
definition PQResumedPaddingFloor :: nat where "PQResumedPaddingFloor = 256"
definition PQESVersion :: bytes where "PQESVersion = [0x00, 0x03]"
definition PQResumeMagic :: bytes where "PQResumeMagic = str_bytes ''PQResume''"
definition PQControlMagic :: bytes where "PQControlMagic = str_bytes ''PQDR''"

lemmas pq_sizes = PQXWingPublicKeySize_def PQXWingCiphertextSize_def PQProfileExtSize_def
  PQResumedPaddingFloor_def crypto_sizes

lemma length_PQResumeMagic [simp, len_simps]: "length PQResumeMagic = 8"
  by (simp add: PQResumeMagic_def)

lemma length_PQControlMagic [simp, len_simps]: "length PQControlMagic = 4"
  by (simp add: PQControlMagic_def)

definition pqProfileExtension :: bytes where
  "pqProfileExtension =
     str_bytes ''PQD'' @ [PQExtVersion, PQESVersion ! 0, PQESVersion ! 1, PQKdfID, PQAeadID] @
     put_u16 PQXWingPublicKeySize @ put_u16 PQXWingCiphertextSize"

lemma length_pqProfileExtension: "length pqProfileExtension = PQProfileExtSize"
  by (simp add: pqProfileExtension_def PQProfileExtSize_def)

text \<open>The reader of \<^verbatim>\<open>hkdf\<close> gives up only after 8160 bytes; every caller asks for 32.\<close>

definition hkdfSha256 :: "crypto_prims \<Rightarrow> bytes \<Rightarrow> bytes \<Rightarrow> bytes \<Rightarrow> nat \<Rightarrow> bytes" where
  "hkdfSha256 P salt ikm info outLen = arr outLen (cp_hkdf_sha256 P salt ikm info)"

text \<open>\<open>None\<close> is the panic on a certificate that is too short.\<close>

definition pqCertContext :: "bytes \<Rightarrow> bytes option" where
  "pqCertContext binCert =
     (if length binCert < 1320 then None
      else Some (str_bytes ''DNSCrypt-PQ-v1'' @ go_slice binCert 4 6 @ go_slice binCert 6 8 @
        go_slice binCert 72 1288 @ go_slice binCert 1288 1296 @ go_slice binCert 1296 1300 @
        go_slice binCert 1300 1304 @ go_slice binCert 1304 1308 @ go_slice binCert 1308 1320))"

definition pqDeriveSharedKey :: "crypto_prims \<Rightarrow> bytes \<Rightarrow> bytes \<Rightarrow> bytes \<Rightarrow> bytes \<Rightarrow> bytes" where
  "pqDeriveSharedKey P kemSS clientMagic certContext ct =
     (let salt = [PQESVersion ! 0, PQESVersion ! 1] @ clientMagic;
          info = certContext @ ct
      in copy_into 32 (hkdfSha256 P salt kemSS info 32))"

definition pqResumeSecret :: "crypto_prims \<Rightarrow> bytes \<Rightarrow> bytes \<Rightarrow> bytes \<Rightarrow> bytes" where
  "pqResumeSecret P sharedKey clientMagic clientNonce =
     (let salt = clientMagic @ clientNonce
      in copy_into 32 (hkdfSha256 P salt sharedKey (str_bytes ''DNSCrypt-PQ-resume-secret-v1'') 32))"

definition pqResumedSharedKey :: "crypto_prims \<Rightarrow> bytes \<Rightarrow> bytes \<Rightarrow> bytes \<Rightarrow> bytes \<Rightarrow> bytes" where
  "pqResumedSharedKey P resumeSecret clientMagic clientNonce ticket =
     (let salt = clientMagic @ clientNonce;
          th = arr 32 (cp_sha256 P ticket);
          info = str_bytes ''DNSCrypt-PQ-resumed-query-v1'' @ th
      in copy_into 32 (hkdfSha256 P salt resumeSecret info 32))"

lemma length_pq_keys [simp, len_simps]:
  "length (pqDeriveSharedKey P ss m c ct) = 32"
  "length (pqResumeSecret P k m n) = 32"
  "length (pqResumedSharedKey P rs m n t) = 32"
  by (simp_all add: pqDeriveSharedKey_def pqResumeSecret_def pqResumedSharedKey_def Let_def)

text \<open>
  \<^verbatim>\<open>xwing.Encapsulate\<close> with a nil seed panics on a public key of the wrong size and when no
  randomness can be read.
\<close>

definition pqEncapsulate ::
  "crypto_prims \<Rightarrow> byte_fun option \<Rightarrow> bytes \<Rightarrow> crypto_error + (bytes \<times> bytes)" where
  "pqEncapsulate P seed pk =
     (if length pk \<noteq> PQXWingPublicKeySize then Inl CryptoPanic
      else case seed of
        None \<Rightarrow> Inl CryptoPanic
      | Some r \<Rightarrow>
          (case cp_xwing_encapsulate P pk r of
             None \<Rightarrow> Inl EncapsulationError
           | Some (ss, ct) \<Rightarrow> Inr (arr 32 ss, arr PQXWingCiphertextSize ct)))"

section \<open>Session state\<close>

definition pqSession_store ::
  "bytes \<Rightarrow> bytes \<Rightarrow> go_time \<Rightarrow> nat \<Rightarrow> pqSessionState option \<Rightarrow> pqSessionState option" where
  "pqSession_store ticket resumeSecret expiry epoch sess =
     (case sess of
        None \<Rightarrow> None
      | Some s \<Rightarrow> Some (s\<lparr>pq_ticket := go_copy ticket, pq_resumeSecret := resumeSecret,
                         pq_expiry := expiry, pq_epoch := epoch\<rparr>))"

definition pqSession_get ::
  "go_time \<Rightarrow> nat \<Rightarrow> pqSessionState option \<Rightarrow> (bytes \<times> bytes) option \<times> pqSessionState option" where
  "pqSession_get now currentEpoch sess =
     (case sess of
        None \<Rightarrow> (None, None)
      | Some s \<Rightarrow>
          (case pq_ticket s of
             None \<Rightarrow> (None, Some s)
           | Some ticket \<Rightarrow>
               if \<not> time_before now (pq_expiry s) then (None, Some s)
               else if pq_epoch s \<noteq> currentEpoch
               then (None, Some (s\<lparr>pq_ticket := None, pq_resumeSecret := zero_key, pq_expiry := 0\<rparr>))
               else (Some (ticket, pq_resumeSecret s), Some s)))"

definition getCachedEncapsulation ::
  "nat \<Rightarrow> pqSessionState option \<Rightarrow> (bytes \<times> bytes) option \<times> pqSessionState option" where
  "getCachedEncapsulation currentEpoch sess =
     (case sess of
        None \<Rightarrow> (None, None)
      | Some s \<Rightarrow>
          (case pq_encap s of
             None \<Rightarrow> (None, Some s)
           | Some ct \<Rightarrow>
               if pq_encapEpoch s \<noteq> currentEpoch
               then (None, Some (s\<lparr>pq_encap := None, pq_encapKey := zero_key\<rparr>))
               else (Some (ct, pq_encapKey s), Some s)))"

definition storeEncapsulation ::
  "bytes \<Rightarrow> bytes \<Rightarrow> nat \<Rightarrow> pqSessionState option \<Rightarrow> pqSessionState option" where
  "storeEncapsulation ct key epoch sess =
     (case sess of
        None \<Rightarrow> None
      | Some s \<Rightarrow> Some (s\<lparr>pq_encap := go_copy ct, pq_encapKey := key, pq_encapEpoch := epoch\<rparr>))"

section \<open>Queries\<close>

definition pqResumedOverhead :: "nat \<Rightarrow> nat" where
  "pqResumedOverhead ticketLen = length PQResumeMagic + 2 + ticketLen + HalfNonceSize + TagSize"

definition pqUDPPacketLimit :: "ServerInfo \<Rightarrow> nat" where
  "pqUDPPacketLimit s =
     (if si_fragmentsBlocked s then MaxDNSUDPSafePacketSize else MaxDNSUDPPacketSize)"

definition pqResumedPaddingFloor :: "Proxy \<Rightarrow> ServerInfo \<Rightarrow> nat \<Rightarrow> string \<Rightarrow> int" where
  "pqResumedPaddingFloor px s ticketLen proto =
     (if proto \<noteq> ''udp'' then int PQResumedPaddingFloor
      else let overhead = int (pqResumedOverhead ticketLen);
               want = MinQuestionSize (px_questionSizeEstimator px) - overhead
           in max (int PQResumedPaddingFloor)
                (min (clear6 (want + 63)) (clear6 (int (pqUDPPacketLimit s) - overhead))))"

text \<open>The two ends of \<^verbatim>\<open>encryptPQ\<close>: with a resumption ticket, and with an X-Wing ciphertext.\<close>

definition pq_resumed_query ::
  "crypto_prims \<Rightarrow> Proxy \<Rightarrow> ServerInfo \<Rightarrow> bytes \<Rightarrow> bytes \<Rightarrow> bytes \<Rightarrow> bytes \<Rightarrow> string \<Rightarrow>
   crypto_error + enc_result" where
  "pq_resumed_query P px s clientNonce ticket resumeSecret packet proto =
     (let key = pqResumedSharedKey P resumeSecret (si_MagicQuery s) clientNonce ticket;
          padded = pqPad packet (pqResumedPaddingFloor px s (length ticket) proto)
      in case xsecretbox_Seal P (copy_into NonceSize clientNonce) padded key of
           None \<Rightarrow> Inl CryptoPanic
         | Some ct \<Rightarrow>
             Inr \<lparr>er_sharedKey = key,
                  er_encrypted =
                    PQResumeMagic @ put_u16 (length ticket) @ ticket @ clientNonce @ ct,
                  er_clientNonce = clientNonce, er_queryEpoch = networkEpoch px\<rparr>)"

definition pq_full_query ::
  "crypto_prims \<Rightarrow> Proxy \<Rightarrow> ServerInfo \<Rightarrow> bytes \<Rightarrow> bytes \<Rightarrow> bytes \<Rightarrow> bytes \<Rightarrow>
   crypto_error + enc_result" where
  "pq_full_query P px s clientNonce ctKem key packet =
     (let padded = pqPad packet 64
      in case xsecretbox_Seal P (copy_into NonceSize clientNonce) padded key of
           None \<Rightarrow> Inl CryptoPanic
         | Some ct \<Rightarrow>
             Inr \<lparr>er_sharedKey = key,
                  er_encrypted = si_MagicQuery s @ ctKem @ clientNonce @ ct,
                  er_clientNonce = clientNonce, er_queryEpoch = networkEpoch px\<rparr>)"

definition encryptPQ ::
  "crypto_prims \<Rightarrow> Proxy \<Rightarrow> entropy \<Rightarrow> go_time \<Rightarrow> ServerInfo \<Rightarrow> bytes \<Rightarrow> string \<Rightarrow>
   (crypto_error + enc_result) \<times> ServerInfo" where
  "encryptPQ P px en now s packet proto =
     (let queryEpoch = networkEpoch px
      in case en_nonce en of
           None \<Rightarrow> (Inl RandError, s)
         | Some r \<Rightarrow>
             (let clientNonce = arr HalfNonceSize r
              in case pqSession_get now queryEpoch (si_pqSession s) of
                   (Some (ticket, resumeSecret), sess) \<Rightarrow>
                     (pq_resumed_query P px s clientNonce ticket resumeSecret packet proto,
                      s\<lparr>si_pqSession := sess\<rparr>)
                 | (None, sess) \<Rightarrow>
                     (case getCachedEncapsulation queryEpoch sess of
                        (Some (ctKem, key), sess') \<Rightarrow>
                          (pq_full_query P px s clientNonce ctKem key packet,
                           s\<lparr>si_pqSession := sess'\<rparr>)
                      | (None, sess') \<Rightarrow>
                          (case pqEncapsulate P (en_encap en) (si_PqPublicKey s) of
                             Inl e \<Rightarrow> (Inl e, s\<lparr>si_pqSession := sess'\<rparr>)
                           | Inr (kemSS, ctKem) \<Rightarrow>
                               let key = pqDeriveSharedKey P kemSS (si_MagicQuery s)
                                           (si_PqCertContext s) ctKem
                               in (pq_full_query P px s clientNonce ctKem key packet,
                                   s\<lparr>si_pqSession :=
                                       storeEncapsulation ctKem key queryEpoch sess'\<rparr>)))))"

section \<open>Responses\<close>

definition pqProcessControl ::
  "crypto_prims \<Rightarrow> Proxy \<Rightarrow> go_time \<Rightarrow> ServerInfo \<Rightarrow> bytes \<Rightarrow> bytes \<Rightarrow> bytes \<Rightarrow> nat \<Rightarrow> ServerInfo" where
  "pqProcessControl P px now s sharedKey clientNonce control queryEpoch =
     (if length control < 11 then s
      else if go_slice control 0 4 \<noteq> PQControlMagic \<or> control ! 4 \<noteq> PQControlVersion then s
      else let lifetime = be_val (go_slice control 5 9);
               ticketLen = be_val (go_slice control 9 11)
           in if 11 + ticketLen > length control then s
              else let ticket = go_slice control 11 (11 + ticketLen)
                   in if pqResumedOverhead (length ticket) + PQResumedPaddingFloor > MaxDNSUDPPacketSize
                      then s
                      else if queryEpoch \<noteq> networkEpoch px then s
                      else let resumeSecret =
                                 pqResumeSecret P sharedKey (si_MagicQuery s) clientNonce;
                               expiry = time_add now (int lifetime * second)
                           in s\<lparr>si_pqSession :=
                                 pqSession_store ticket resumeSecret expiry queryEpoch
                                   (si_pqSession s)\<rparr>)"

definition pqStripControl ::
  "crypto_prims \<Rightarrow> Proxy \<Rightarrow> go_time \<Rightarrow> ServerInfo \<Rightarrow> bytes \<Rightarrow> bytes \<Rightarrow> bytes \<Rightarrow> nat \<Rightarrow>
   (crypto_error + bytes) \<times> ServerInfo" where
  "pqStripControl P px now s sharedKey clientNonce plaintext queryEpoch =
     (if length plaintext < 2 then (Inl PQResponseTooShort, s)
      else let controlLen = be_val (go_slice plaintext 0 2)
           in if 2 + controlLen > length plaintext then (Inl PQControlOverflows, s)
              else let control = go_slice plaintext 2 (2 + controlLen);
                       body = drop (2 + controlLen) plaintext
                   in (Inr body,
                       if controlLen > 0
                       then pqProcessControl P px now s sharedKey clientNonce control queryEpoch
                       else s))"

section \<open>Histories of a session\<close>

datatype pq_op =
    PqStore bytes bytes go_time nat
  | PqGet go_time nat
  | PqGetEncap nat
  | PqStoreEncap bytes bytes nat

fun pq_step :: "pq_op \<Rightarrow> pqSessionState option \<Rightarrow> pqSessionState option" where
  "pq_step (PqStore ticket secret expiry epoch) s = pqSession_store ticket secret expiry epoch s"
| "pq_step (PqGet now epoch) s = snd (pqSession_get now epoch s)"
| "pq_step (PqGetEncap epoch) s = snd (getCachedEncapsulation epoch s)"
| "pq_step (PqStoreEncap ct key epoch) s = storeEncapsulation ct key epoch s"

definition pq_history :: "pq_op list \<Rightarrow> pqSessionState option" where
  "pq_history ops = fold pq_step ops (newPqSessionState XWingPQ)"

lemma pq_history_Nil: "pq_history [] = Some empty_pqSessionState"
  by (simp add: pq_history_def newPqSessionState_def)

lemma pq_history_snoc: "pq_history (ops @ [op]) = pq_step op (pq_history ops)"
  by (simp add: pq_history_def)

text \<open>Operations that leave a ticket of the given expiry and epoch in place.\<close>

fun keeps_ticket :: "go_time \<Rightarrow> nat \<Rightarrow> pq_op \<Rightarrow> bool" where
  "keeps_ticket expiry epoch (PqStore _ _ _ _) = False"
| "keeps_ticket expiry epoch (PqGet now e) = (now < expiry \<longrightarrow> e = epoch)"
| "keeps_ticket expiry epoch op = True"

fun keeps_encap :: "nat \<Rightarrow> pq_op \<Rightarrow> bool" where
  "keeps_encap epoch (PqStoreEncap _ _ _) = False"
| "keeps_encap epoch (PqGetEncap e) = (e = epoch)"
| "keeps_encap epoch op = True"

definition ticket_origin :: "pq_op list \<Rightarrow> pqSessionState \<Rightarrow> bytes \<Rightarrow> bool" where
  "ticket_origin ops s t \<longleftrightarrow>
     t \<noteq> [] \<and> (\<exists>pre post. ops = pre @ PqStore t (pq_resumeSecret s) (pq_expiry s) (pq_epoch s) # post \<and>
       (\<forall>op \<in> set post. keeps_ticket (pq_expiry s) (pq_epoch s) op))"

definition encap_origin :: "pq_op list \<Rightarrow> pqSessionState \<Rightarrow> bytes \<Rightarrow> bool" where
  "encap_origin ops s ct \<longleftrightarrow>
     ct \<noteq> [] \<and> (\<exists>pre post. ops = pre @ PqStoreEncap ct (pq_encapKey s) (pq_encapEpoch s) # post \<and>
       (\<forall>op \<in> set post. keeps_encap (pq_encapEpoch s) op))"

lemma ticket_origin_snoc:
  assumes "ticket_origin ops s t" "keeps_ticket (pq_expiry s) (pq_epoch s) op"
    and "pq_resumeSecret s' = pq_resumeSecret s" "pq_expiry s' = pq_expiry s" "pq_epoch s' = pq_epoch s"
  shows "ticket_origin (ops @ [op]) s' t"
proof -
  from assms(1) obtain pre post where *: "t \<noteq> []"
    "ops = pre @ PqStore t (pq_resumeSecret s) (pq_expiry s) (pq_epoch s) # post"
    "\<forall>op \<in> set post. keeps_ticket (pq_expiry s) (pq_epoch s) op"
    by (auto simp: ticket_origin_def)
  then have "ops @ [op] = pre @ PqStore t (pq_resumeSecret s) (pq_expiry s) (pq_epoch s) # (post @ [op])"
    "\<forall>op' \<in> set (post @ [op]). keeps_ticket (pq_expiry s) (pq_epoch s) op'"
    using assms(2) by auto
  then show ?thesis unfolding ticket_origin_def assms(3-5) using *(1) by blast
qed

lemma encap_origin_snoc:
  assumes "encap_origin ops s t" "keeps_encap (pq_encapEpoch s) op"
    and "pq_encapKey s' = pq_encapKey s" "pq_encapEpoch s' = pq_encapEpoch s"
  shows "encap_origin (ops @ [op]) s' t"
proof -
  from assms(1) obtain pre post where *: "t \<noteq> []"
    "ops = pre @ PqStoreEncap t (pq_encapKey s) (pq_encapEpoch s) # post"
    "\<forall>op \<in> set post. keeps_encap (pq_encapEpoch s) op"
    by (auto simp: encap_origin_def)
  then have "ops @ [op] = pre @ PqStoreEncap t (pq_encapKey s) (pq_encapEpoch s) # (post @ [op])"
    "\<forall>op' \<in> set (post @ [op]). keeps_encap (pq_encapEpoch s) op'"
    using assms(2) by auto
  then show ?thesis unfolding encap_origin_def assms(3-4) using *(1) by blast
qed

lemma ticket_origin_store:
  "t \<noteq> [] \<Longrightarrow> pq_resumeSecret s = sec \<Longrightarrow> pq_expiry s = ex \<Longrightarrow> pq_epoch s = ep \<Longrightarrow>
     ticket_origin (ops @ [PqStore t sec ex ep]) s t"
  unfolding ticket_origin_def by (metis append_Cons empty_iff empty_set)

lemma encap_origin_store:
  "t \<noteq> [] \<Longrightarrow> pq_encapKey s = key \<Longrightarrow> pq_encapEpoch s = ep \<Longrightarrow>
     encap_origin (ops @ [PqStoreEncap t key ep]) s t"
  unfolding encap_origin_def by (metis append_Cons empty_iff empty_set)

definition session_inv :: "pq_op list \<Rightarrow> pqSessionState \<Rightarrow> bool" where
  "session_inv ops s \<longleftrightarrow>
     (\<forall>t. pq_ticket s = Some t \<longrightarrow> ticket_origin ops s t) \<and>
     (\<forall>ct. pq_encap s = Some ct \<longrightarrow> encap_origin ops s ct)"

lemmas session_op_defs = pqSession_store_def pqSession_get_def getCachedEncapsulation_def
  storeEncapsulation_def time_before_def

lemma session_inv_step:
  assumes inv: "session_inv ops s"
  shows "\<exists>s'. pq_step op (Some s) = Some s' \<and> session_inv (ops @ [op]) s'"
proof (cases op)
  case (PqStore t sec ex ep)
  then show ?thesis using inv
    by (auto simp: session_inv_def session_op_defs intro: encap_origin_snoc ticket_origin_store)
next
  case (PqGet now ep)
  then show ?thesis using inv
    by (auto simp: session_inv_def session_op_defs split: option.splits
        intro: encap_origin_snoc ticket_origin_snoc)
next
  case (PqGetEncap ep)
  then show ?thesis using inv
    by (auto simp: session_inv_def session_op_defs split: option.splits
        intro: encap_origin_snoc ticket_origin_snoc)
next
  case (PqStoreEncap ct key ep)
  then show ?thesis using inv
    by (auto simp: session_inv_def session_op_defs intro: ticket_origin_snoc encap_origin_store)
qed

lemma session_inv_history: "\<exists>s. pq_history ops = Some s \<and> session_inv ops s"
proof (induction ops rule: rev_induct)
  case Nil
  then show ?case by (simp add: pq_history_Nil session_inv_def empty_pqSessionState_def)
next
  case (snoc op ops)
  then show ?case using session_inv_step[of ops _ op] by (auto simp: pq_history_snoc)
qed

text \<open>
  C23. Ticket isolation. In any history of a session, \<open>get\<close> hands out a ticket with a secret only if
  these were stored together by the last \<open>store\<close> of the history, under the epoch asked for and with an
  expiry that has not passed; and no lookup under another epoch happened while the ticket was valid.
  A ticket obtained on one network is thus never sent after a network change.
\<close>

theorem pq_ticket_isolation:
  assumes "fst (pqSession_get now epoch (pq_history ops)) = Some (ticket, secret)"
  shows "\<exists>pre post expiry. ops = pre @ PqStore ticket secret expiry epoch # post \<and> ticket \<noteq> [] \<and>
    now < expiry \<and> (\<forall>op \<in> set post. keeps_ticket expiry epoch op)"
proof -
  obtain s where s: "pq_history ops = Some s" "session_inv ops s"
    using session_inv_history by blast
  with assms have t: "pq_ticket s = Some ticket" "secret = pq_resumeSecret s" "now < pq_expiry s"
    "pq_epoch s = epoch"
    by (auto simp: pqSession_get_def time_before_def split: option.splits if_splits)
  then have "ticket_origin ops s ticket" using s(2) by (simp add: session_inv_def)
  then show ?thesis using t unfolding ticket_origin_def by blast
qed

theorem pq_ticket_isolation_witness:
  "\<exists>pre post expiry. [PqStore [1] [2] 50 4, PqGet 10 4] = pre @ PqStore [1] [2] expiry 4 # post \<and>
    [1 :: byte] \<noteq> [] \<and> 20 < expiry \<and> (\<forall>op \<in> set post. keeps_ticket expiry 4 op)"
  by (rule pq_ticket_isolation)
    (simp add: pq_history_def newPqSessionState_def empty_pqSessionState_def session_op_defs go_copy_def)

text \<open>
  The same for the cached encapsulation: \<open>getCachedEncapsulation\<close> returns a ciphertext and a key
  that were stored together last, under the epoch asked for, with no lookup under another epoch since.
\<close>

theorem pq_encapsulation_isolation:
  assumes "fst (getCachedEncapsulation epoch (pq_history ops)) = Some (ct, key)"
  shows "\<exists>pre post. ops = pre @ PqStoreEncap ct key epoch # post \<and> ct \<noteq> [] \<and>
    (\<forall>op \<in> set post. keeps_encap epoch op)"
proof -
  obtain s where s: "pq_history ops = Some s" "session_inv ops s"
    using session_inv_history by blast
  with assms have t: "pq_encap s = Some ct" "key = pq_encapKey s" "pq_encapEpoch s = epoch"
    by (auto simp: getCachedEncapsulation_def split: option.splits if_splits)
  then have "encap_origin ops s ct" using s(2) by (simp add: session_inv_def)
  then show ?thesis using t unfolding encap_origin_def by blast
qed

theorem pq_encapsulation_isolation_witness:
  "\<exists>pre post. [PqStoreEncap [1] [2] 4, PqGet 10 5] = pre @ PqStoreEncap [1] [2] 4 # post \<and>
    [1 :: byte] \<noteq> [] \<and> (\<forall>op \<in> set post. keeps_encap 4 op)"
  by (rule pq_encapsulation_isolation)
    (simp add: pq_history_def newPqSessionState_def empty_pqSessionState_def session_op_defs go_copy_def)

end
