(* ===== verification/PQ_Wire.thy ===== *)
theory PQ_Wire
  imports PQ
begin

text \<open>
  What the queries and responses of the post-quantum protocol mean to the other side. A resolver is
  specified by the way it reads a query (\<open>pq_server_receive\<close>), with its decapsulation function and
  its table of tickets as arguments; the proxy's queries are shown to be readable, to respect the UDP
  size limits, and its ticket handling to follow the control block a resolver sends.
\<close>

section \<open>The resolver's side\<close>

definition pq_open_packet :: "crypto_prims \<Rightarrow> bytes \<Rightarrow> bytes \<Rightarrow> bytes \<Rightarrow> bytes option" where
  "pq_open_packet P clientNonce box key =
     (case xsecretbox_Open P (copy_into NonceSize clientNonce) box key of
        Some (Some padded) \<Rightarrow> (case unpad padded of Inl _ \<Rightarrow> None | Inr packet \<Rightarrow> Some packet)
      | _ \<Rightarrow> None)"

definition pq_server_receive ::
  "crypto_prims \<Rightarrow> (bytes \<Rightarrow> bytes) \<Rightarrow> (bytes \<Rightarrow> bytes option) \<Rightarrow> bytes \<Rightarrow> bytes \<Rightarrow> bytes \<Rightarrow> bytes option" where
  "pq_server_receive P decaps tickets magic certContext query =
     (if take 8 query = PQResumeMagic
      then let tl = be_val (go_slice query 8 10);
               ticket = go_slice query 10 (10 + tl);
               nonce = go_slice query (10 + tl) (22 + tl);
               box = drop (22 + tl) query
           in case tickets ticket of
                None \<Rightarrow> None
              | Some secret \<Rightarrow>
                  pq_open_packet P nonce box (pqResumedSharedKey P secret magic nonce ticket)
      else if take 8 query = magic
      then let ct = go_slice query 8 1128;
               nonce = go_slice query 1128 1140;
               box = drop 1140 query
           in pq_open_packet P nonce box (pqDeriveSharedKey P (decaps ct) magic certContext ct)
      else None)"

text \<open>
  The invariant of a server's session against such a resolver: the ticket is one the resolver has
  issued, with the secret the proxy holds, and small enough for a UDP query; the cached key is the
  one the resolver derives from the cached ciphertext.
\<close>

definition max_ticket :: nat where
  "max_ticket = 3802"

definition session_agrees ::
  "crypto_prims \<Rightarrow> (bytes \<Rightarrow> bytes) \<Rightarrow> (bytes \<Rightarrow> bytes option) \<Rightarrow> ServerInfo \<Rightarrow> bool" where
  "session_agrees P decaps tickets s \<longleftrightarrow>
     (case si_pqSession s of
        None \<Rightarrow> True
      | Some q \<Rightarrow>
          (\<forall>t. pq_ticket q = Some t \<longrightarrow>
             length t \<le> max_ticket \<and> tickets t = Some (pq_resumeSecret q)) \<and>
          (\<forall>ct. pq_encap q = Some ct \<longrightarrow>
             length ct = 1120 \<and>
             pq_encapKey q = pqDeriveSharedKey P (decaps ct) (si_MagicQuery s) (si_PqCertContext s) ct))"

definition kem_correct :: "crypto_prims \<Rightarrow> (bytes \<Rightarrow> bytes) \<Rightarrow> bytes \<Rightarrow> bool" where
  "kem_correct P decaps pk \<longleftrightarrow>
     (\<forall>seed ss ct. cp_xwing_encapsulate P pk seed = Some (ss, ct) \<longrightarrow> decaps (arr 1120 ct) = arr 32 ss)"

lemma pq_open_packet_seal:
  assumes "length key = 32" "length nonce = 12"
    and "xsecretbox_Seal P (copy_into NonceSize nonce) (pqPad packet flr) key = Some box"
  shows "pq_open_packet P nonce box key = Some packet"
proof -
  have "xsecretbox_Open P (copy_into NonceSize nonce) box key = Some (Some (pqPad packet flr))"
    using assms xchacha.open_seal
    by (auto simp: xsecretbox_Open_def xsecretbox_Seal_def box_open_seal split: if_splits)
  then show ?thesis by (simp add: pq_open_packet_def pq_padding.unpad_pad)
qed

lemma pq_receive_resumed:
  assumes t: "length ticket < 65536" "tickets ticket = Some secret" and n: "length nonce = 12"
    and seal: "xsecretbox_Seal P (copy_into NonceSize nonce) (pqPad packet flr)
      (pqResumedSharedKey P secret magic nonce ticket) = Some box"
  shows "pq_server_receive P decaps tickets magic ctx
    (PQResumeMagic @ put_u16 (length ticket) @ ticket @ nonce @ box) = Some packet"
proof -
  define q where "q = PQResumeMagic @ put_u16 (length ticket) @ ticket @ nonce @ box"
  have tl: "be_val (go_slice q 8 10) = length ticket"
    unfolding q_def using t(1) by (subst go_slice_mid) simp_all
  have tk: "go_slice q 10 (10 + length ticket) = ticket"
    using go_slice_mid[of "PQResumeMagic @ put_u16 (length ticket)" 10 _ ticket "nonce @ box"]
    by (simp add: q_def)
  have no: "go_slice q (10 + length ticket) (22 + length ticket) = nonce"
    using go_slice_mid[of "PQResumeMagic @ put_u16 (length ticket) @ ticket" "10 + length ticket"
        "22 + length ticket" nonce box] n by (simp add: q_def)
  have bx: "drop (22 + length ticket) q = box" using n by (simp add: q_def)
  have mg: "take 8 q = PQResumeMagic" by (simp add: q_def)
  show ?thesis
    unfolding q_def[symmetric] pq_server_receive_def
    using mg tl tk no bx t(2) pq_open_packet_seal[OF _ n seal] by (simp add: Let_def)
qed

lemma pq_receive_full:
  assumes m: "length magic = 8" "magic \<noteq> PQResumeMagic" and ct: "length ct = 1120"
    and n: "length nonce = 12"
    and seal: "xsecretbox_Seal P (copy_into NonceSize nonce) (pqPad packet flr)
      (pqDeriveSharedKey P (decaps ct) magic ctx ct) = Some box"
  shows "pq_server_receive P decaps tickets magic ctx (magic @ ct @ nonce @ box) = Some packet"
proof -
  define q where "q = magic @ ct @ nonce @ box"
  have c: "go_slice q 8 1128 = ct" unfolding q_def using m(1) ct by (intro go_slice_mid) simp_all
  have no: "go_slice q 1128 1140 = nonce"
    using go_slice_mid[of "magic @ ct" 1128 1140 nonce box] m(1) ct n by (simp add: q_def)
  have bx: "drop 1140 q = box" using m(1) ct n by (simp add: q_def)
  have mg: "take 8 q = magic" using m(1) by (simp add: q_def)
  show ?thesis
    unfolding q_def[symmetric] pq_server_receive_def
    using mg m(2) c no bx pq_open_packet_seal[OF _ n seal] by (simp add: Let_def)
qed

section \<open>Queries reach the resolver\<close>

lemma seal_total:
  "length key = 32 \<Longrightarrow> xsecretbox_Seal P (copy_into NonceSize n) m key =
     Some (xchacha_seal P (copy_into NonceSize n) key m)"
  by (simp add: xsecretbox_Seal_eq NonceSize_def)

lemma pq_resumed_query_ok:
  assumes "length ticket < 65536" "tickets ticket = Some secret" "length nonce = 12"
  shows "\<exists>r. pq_resumed_query P px s nonce ticket secret packet proto = Inr r \<and>
    pq_server_receive P decaps tickets (si_MagicQuery s) ctx (er_encrypted r) = Some packet"
  using pq_receive_resumed[where tickets = tickets, OF assms seal_total[OF length_pq_keys(3)]]
  by (simp add: pq_resumed_query_def Let_def seal_total)

lemma pq_full_query_ok:
  assumes "length (si_MagicQuery s) = 8" "si_MagicQuery s \<noteq> PQResumeMagic" "length ct = 1120"
    and "length nonce = 12"
    and key: "key = pqDeriveSharedKey P (decaps ct) (si_MagicQuery s) ctx ct"
  shows "\<exists>r. pq_full_query P px s nonce ct key packet = Inr r \<and>
    pq_server_receive P decaps tickets (si_MagicQuery s) ctx (er_encrypted r) = Some packet"
  using pq_receive_full[OF assms(1-4) seal_total[OF length_pq_keys(1)]]
  by (simp add: pq_full_query_def key seal_total)

lemma session_get_agrees:
  assumes "session_agrees P d tk s" "pqSession_get now e (si_pqSession s) = (got, sess)"
  shows "session_agrees P d tk (s\<lparr>si_pqSession := sess\<rparr>)"
    and "got = Some (t, sec) \<Longrightarrow> length t \<le> max_ticket \<and> tk t = Some sec"
  using assms by (auto simp: session_agrees_def pqSession_get_def split: option.splits if_splits)

lemma session_encap_agrees:
  assumes "session_agrees P d tk (s\<lparr>si_pqSession := sess\<rparr>)"
    and "getCachedEncapsulation e sess = (got, sess')"
  shows "session_agrees P d tk (s\<lparr>si_pqSession := sess'\<rparr>)"
    and "got = Some (ct, key) \<Longrightarrow> length ct = 1120 \<and>
      key = pqDeriveSharedKey P (d ct) (si_MagicQuery s) (si_PqCertContext s) ct"
  using assms by (auto simp: session_agrees_def getCachedEncapsulation_def split: option.splits if_splits)

lemma session_store_agrees:
  assumes "session_agrees P d tk (s\<lparr>si_pqSession := sess\<rparr>)" "length ct = 1120"
    and "key = pqDeriveSharedKey P (d ct) (si_MagicQuery s) (si_PqCertContext s) ct"
  shows "session_agrees P d tk (s\<lparr>si_pqSession := storeEncapsulation ct key e sess\<rparr>)"
  using assms by (auto simp: session_agrees_def storeEncapsulation_def split: option.splits)

lemma encryptPQ_ok:
  assumes wf: "length (si_MagicQuery s) = 8" "si_MagicQuery s \<noteq> PQResumeMagic"
    and kem: "kem_correct P decaps (si_PqPublicKey s)"
    and agree: "session_agrees P decaps tickets s"
    and rnd: "en_nonce en = Some rn"
    and enc: "pqEncapsulate P (en_encap en) (si_PqPublicKey s) = Inr (ss, ct)"
  shows "\<exists>r s'. encryptPQ P px en now s packet proto = (Inr r, s') \<and>
    session_agrees P decaps tickets s' \<and>
    pq_server_receive P decaps tickets (si_MagicQuery s) (si_PqCertContext s) (er_encrypted r)
      = Some packet"
proof -
  let ?n = "arr HalfNonceSize rn"
  have n: "length ?n = 12" by (simp add: HalfNonceSize_def)
  obtain got sess where g: "pqSession_get now (networkEpoch px) (si_pqSession s) = (got, sess)"
    by fastforce
  note ag = session_get_agrees[OF agree g]
  obtain ce sess' where c: "getCachedEncapsulation (networkEpoch px) sess = (ce, sess')" by fastforce
  note ac = session_encap_agrees[OF ag(1) c]
  show ?thesis
  proof (cases got)
    case (Some ts)
    obtain t sec where ts: "ts = (t, sec)" by fastforce
    then have "length t < 65536" "tickets t = Some sec"
      using ag(2)[of t sec] Some by (auto simp: max_ticket_def)
    from pq_resumed_query_ok[where tickets = tickets, OF this n] show ?thesis
      using ag(1) rnd g Some ts by (auto simp: encryptPQ_def)
  next
    case None
    show ?thesis
    proof (cases ce)
      case (Some ck)
      obtain ct' key where ck: "ck = (ct', key)" by fastforce
      with ac(2)[of ct' key] Some have k: "length ct' = 1120"
        "key = pqDeriveSharedKey P (decaps ct') (si_MagicQuery s) (si_PqCertContext s) ct'" by auto
      from pq_full_query_ok[where decaps = decaps, OF wf k(1) n k(2)] show ?thesis
        using ac(1) rnd g None c Some ck by (auto simp: encryptPQ_def)
    next
      case n2: None
      have k: "length ct = 1120" "decaps ct = ss"
        using enc kem by (auto simp: pqEncapsulate_def kem_correct_def PQXWingCiphertextSize_def
            split: if_splits option.splits)
      define key where "key = pqDeriveSharedKey P (decaps ct) (si_MagicQuery s) (si_PqCertContext s) ct"
      from pq_full_query_ok[where decaps = decaps, OF wf k(1) n key_def] session_store_agrees[OF ac(1) k(1) key_def]
      show ?thesis using rnd g None c n2 enc k(2) by (auto simp: encryptPQ_def key_def Let_def)
    qed
  qed
qed

section \<open>Control blocks\<close>

definition pq_control_block :: "nat \<Rightarrow> bytes \<Rightarrow> bytes \<Rightarrow> bytes" where
  "pq_control_block lifetime ticket extra =
     PQControlMagic @ [PQControlVersion] @ put_u32 lifetime @ put_u16 (length ticket) @ ticket @ extra"

lemma pqProcessControl_block:
  assumes "lifetime < 2 ^ 32" "length ticket < 65536"
  shows "pqProcessControl P px now s key nonce (pq_control_block lifetime ticket extra) epoch =
    (if length ticket \<le> max_ticket \<and> epoch = networkEpoch px
     then s\<lparr>si_pqSession := pqSession_store ticket (pqResumeSecret P key (si_MagicQuery s) nonce)
            (time_add now (int lifetime * second)) epoch (si_pqSession s)\<rparr>
     else s)"
proof -
  define c where "c = pq_control_block lifetime ticket extra"
  note cd = c_def pq_control_block_def
  have magic: "go_slice c 0 4 = PQControlMagic" by (simp add: cd go_slice_def)
  have ver: "c ! 4 = PQControlVersion" by (simp add: cd nth_append)
  have life: "be_val (go_slice c 5 9) = lifetime"
    using go_slice_mid[of "PQControlMagic @ [PQControlVersion]" 5 9 "put_u32 lifetime"] assms(1)
    by (simp add: cd)
  have tl: "be_val (go_slice c 9 11) = length ticket"
    using go_slice_mid[of "PQControlMagic @ [PQControlVersion] @ put_u32 lifetime" 9 11
        "put_u16 (length ticket)"] assms(2) by (simp add: cd)
  have tk: "go_slice c 11 (11 + length ticket) = ticket"
    using go_slice_mid[of "PQControlMagic @ [PQControlVersion] @ put_u32 lifetime @
        put_u16 (length ticket)" 11 _ ticket extra] by (simp add: cd)
  have len: "length c = 11 + length ticket + length extra" by (simp add: cd)
  show ?thesis
    unfolding c_def[symmetric]
    by (auto simp: pqProcessControl_def magic ver life tl tk len Let_def pqResumedOverhead_def
        pq_sizes max_ticket_def)
qed

lemma pqStripControl_frame:
  assumes "lifetime < 2 ^ 32" "length (pq_control_block lifetime ticket extra) < 65536"
  shows "pqStripControl P px now s key nonce
      (put_u16 (length (pq_control_block lifetime ticket extra)) @
       pq_control_block lifetime ticket extra @ body) epoch =
    (Inr body,
     if length ticket \<le> max_ticket \<and> epoch = networkEpoch px
     then s\<lparr>si_pqSession := pqSession_store ticket (pqResumeSecret P key (si_MagicQuery s) nonce)
            (time_add now (int lifetime * second)) epoch (si_pqSession s)\<rparr>
     else s)"
proof -
  define c where "c = pq_control_block lifetime ticket extra"
  have len: "length c = 11 + length ticket + length extra"
    by (simp add: c_def pq_control_block_def)
  have hd: "be_val (go_slice (put_u16 (length c) @ c @ body) 0 2) = length c"
    using assms(2) by (simp add: c_def go_slice_def)
  have ct: "go_slice (put_u16 (length c) @ c @ body) 2 (2 + length c) = c"
    by (rule go_slice_mid) simp_all
  have "length ticket < 65536" using assms(2) len by (simp add: c_def)
  note pc = pqProcessControl_block[OF assms(1) this, where extra = extra, folded c_def]
  show ?thesis
    unfolding c_def[symmetric] pqStripControl_def
    using hd ct len pc by (simp add: Let_def max_ticket_def)
qed

section \<open>Properties\<close>

text \<open>
  C22. Post-quantum queries are readable. If the proxy's session agrees with the resolver's state, then
  \<open>encryptPQ\<close> builds, in every one of its three ways (ticket, cached encapsulation, new
  encapsulation), a query from which the resolver recovers exactly the packet, and leaves a session
  that still agrees with the resolver. The hypothesis \<open>kem_correct\<close> is the correctness of X-Wing.
\<close>

theorem encryptPQ_delivered:
  assumes "length (si_MagicQuery s) = 8" "si_MagicQuery s \<noteq> PQResumeMagic"
    and "kem_correct P decaps (si_PqPublicKey s)"
    and "session_agrees P decaps tickets s"
    and "en_nonce en \<noteq> None"
    and "pqEncapsulate P (en_encap en) (si_PqPublicKey s) = Inr kem"
  shows "\<exists>r s'. encryptPQ P px en now s packet proto = (Inr r, s') \<and>
    session_agrees P decaps tickets s' \<and>
    pq_server_receive P decaps tickets (si_MagicQuery s) (si_PqCertContext s) (er_encrypted r)
      = Some packet"
  using encryptPQ_ok[OF assms(1-4), of en] assms(5,6) by (cases kem) auto

definition example_pq_server :: ServerInfo where
  "example_pq_server = zero_ServerInfo\<lparr>si_CryptoConstruction := XWingPQ,
     si_PqPublicKey := replicate 1216 7, si_pqSession := newPqSessionState XWingPQ\<rparr>"

definition example_proxy :: Proxy where
  "example_proxy =
     \<lparr>px_proxySecretKey = replicate 32 5, px_proxyPublicKey = replicate 32 5,
      px_ephemeralKeys = False, px_questionSizeEstimator = NewQuestionSizeEstimator,
      px_netMonitor = Some 3, px_inner = []\<rparr>"

definition example_entropy :: entropy where
  "example_entropy =
     \<lparr>en_nonce = Some of_nat, en_encap = Some of_nat, en_pad = Some 9,
      en_sharedKey = Some of_nat, en_weakKey = Some of_nat\<rparr>"

lemmas example_defs = example_prims_def example_pq_server_def example_proxy_def
  example_entropy_def zero_ServerInfo_def newPqSessionState_def empty_pqSessionState_def

lemma example_kem: "kem_correct example_prims (\<lambda>ct. map (\<lambda>b. b + 1) (take 32 ct)) pk"
  by (auto simp: kem_correct_def example_prims_def arr_def take_map min_def)

lemma PQResumeMagic_nonzero: "replicate 8 0 \<noteq> PQResumeMagic"
proof
  assume "replicate 8 0 = PQResumeMagic"
  then have "replicate 8 0 ! 0 = PQResumeMagic ! 0" by (rule arg_cong)
  then show False by (simp add: PQResumeMagic_def str_bytes_def)
qed

theorem encryptPQ_delivered_witness:
  "\<exists>r s'. encryptPQ example_prims example_proxy example_entropy 0 example_pq_server [1, 2, 3] ''udp''
       = (Inr r, s') \<and>
    session_agrees example_prims (\<lambda>ct. map (\<lambda>b. b + 1) (take 32 ct)) (\<lambda>_. None) s' \<and>
    pq_server_receive example_prims (\<lambda>ct. map (\<lambda>b. b + 1) (take 32 ct)) (\<lambda>_. None)
      (si_MagicQuery example_pq_server) (si_PqCertContext example_pq_server) (er_encrypted r)
      = Some [1, 2, 3]"
proof (rule encryptPQ_delivered)
  show "length (si_MagicQuery example_pq_server) = 8"
    by (simp add: example_defs)
  show "si_MagicQuery example_pq_server \<noteq> PQResumeMagic"
    using PQResumeMagic_nonzero by (simp add: example_defs)
  show "session_agrees example_prims (\<lambda>ct. map (\<lambda>b. b + 1) (take 32 ct)) (\<lambda>_. None) example_pq_server"
    by (simp add: session_agrees_def example_defs)
  show "en_nonce example_entropy \<noteq> None" by (simp add: example_defs)
  show "pqEncapsulate example_prims (en_encap example_entropy) (si_PqPublicKey example_pq_server) =
      Inr (arr 32 (\<lambda>i. of_nat i + 1), arr 1120 of_nat)"
    by (simp add: example_defs pqEncapsulate_def pq_sizes)
qed (rule example_kem)

text \<open>
  UDP budget of resumed queries. If the ticket leaves room for the smallest padding, then a
  resumed query over UDP is within the limit exactly when the packet padded to the next multiple of 64
  is, and it is at least as large as the estimator asks for, or within 63 bytes of the limit: the
  response may be as large as that to a classic query.
\<close>

theorem pq_resumed_udp_budget:
  assumes q: "pq_resumed_query P px s nonce ticket secret packet ''udp'' = Inr r"
    and n: "length nonce = 12"
    and room: "pqResumedOverhead (length ticket) + 256 \<le> pqUDPPacketLimit s"
  shows "(length (er_encrypted r) \<le> pqUDPPacketLimit s \<longleftrightarrow>
      pqResumedOverhead (length ticket) + 64 * (length packet div 64 + 1) \<le> pqUDPPacketLimit s) \<and>
    min (MinQuestionSize (px_questionSizeEstimator px)) (int (pqUDPPacketLimit s) - 63)
      \<le> int (length (er_encrypted r))"
proof -
  define ov L m where "ov = int (pqResumedOverhead (length ticket))"
    and "L = int (pqUDPPacketLimit s)" and "m = MinQuestionSize (px_questionSizeEstimator px)"
  define f where "f = pqResumedPaddingFloor px s (length ticket) ''udp''"
  define p where "p = clear6 (int (length packet) + 64)"
  have f: "f = max 256 (min (clear6 (m - ov + 63)) (clear6 (L - ov)))"
    by (simp add: f_def pqResumedPaddingFloor_def Let_def ov_def L_def m_def PQResumedPaddingFloor_def)
  have "er_encrypted r = PQResumeMagic @ put_u16 (length ticket) @ ticket @ nonce @
      xchacha_seal P (copy_into NonceSize nonce)
        (pqResumedSharedKey P secret (si_MagicQuery s) nonce ticket) (pqPad packet f)"
    using q by (auto simp: pq_resumed_query_def Let_def seal_total f_def)
  then have len: "int (length (er_encrypted r)) = ov + max f p"
    using n pq_padding.length_pad[of packet f]
    by (simp add: xchacha.length_seal ov_def pqResumedOverhead_def crypto_sizes p_def)
  have p: "p = 64 * (int (length packet) div 64 + 1)"
    by (simp add: p_def clear6_eq minus_mod_eq_mult_div algebra_simps)
  have "256 \<le> L - ov" using room by (simp add: ov_def L_def)
  then have "f \<le> L - ov" using clear6_le[of "L - ov"] unfolding f by linarith
  then have "ov + max f p \<le> L \<longleftrightarrow> ov + p \<le> L" by auto
  moreover have "min m (L - 63) \<le> ov + f"
    using clear6_round_up(1)[of "m - ov"] clear6_gt[of "L - ov"] by (simp add: f)
  ultimately have "(ov + max f p \<le> L \<longleftrightarrow> ov + p \<le> L) \<and> min m (L - 63) \<le> ov + max f p" by linarith
  moreover have "ov + p = int (pqResumedOverhead (length ticket) + 64 * (length packet div 64 + 1))"
    by (simp add: p ov_def zdiv_int)
  ultimately show ?thesis
    unfolding len[symmetric] L_def m_def by (metis of_nat_le_iff)
qed

theorem pq_resumed_udp_budget_witness:
  "\<exists>r. pq_resumed_query example_prims example_proxy example_pq_server (replicate 12 1) [5, 6]
        (replicate 32 2) [1, 2, 3] ''udp'' = Inr r \<and>
    (length (er_encrypted r) \<le> pqUDPPacketLimit example_pq_server \<longleftrightarrow>
      pqResumedOverhead 2 + 64 * (3 div 64 + 1) \<le> pqUDPPacketLimit example_pq_server) \<and>
    min 512 (int (pqUDPPacketLimit example_pq_server) - 63) \<le> int (length (er_encrypted r))"
proof -
  obtain r where q: "pq_resumed_query example_prims example_proxy example_pq_server (replicate 12 1)
      [5, 6] (replicate 32 2) [1, 2, 3] ''udp'' = Inr r"
    by (simp add: pq_resumed_query_def Let_def seal_total)
  have room: "pqResumedOverhead (length [5, 6 :: byte]) + 256 \<le> pqUDPPacketLimit example_pq_server"
    by (simp add: pqResumedOverhead_def pqUDPPacketLimit_def pq_sizes)
  have "MinQuestionSize (px_questionSizeEstimator example_proxy) = 512"
    by (simp add: example_proxy_def MinQuestionSize_def NewQuestionSizeEstimator_def
        InitialMinQuestionSize_def)
  then show ?thesis using q pq_resumed_udp_budget[OF q _ room] by (simp add: numeral_2_eq_2)
qed

text \<open>
  C27. Control blocks. From a response that carries a control block with a ticket, \<open>pqStripControl\<close>
  returns the body, and stores the ticket, with the secret derived from the key and nonce of the query
  and with its lifetime in seconds from now, exactly if the ticket has at most 3802 bytes and the
  network has not changed since the query; otherwise the session is left alone.
\<close>

theorem pqStripControl_block:
  assumes "lifetime < 2 ^ 32" "length (pq_control_block lifetime ticket extra) < 65536"
  shows "pqStripControl P px now s key nonce
      (put_u16 (length (pq_control_block lifetime ticket extra)) @
       pq_control_block lifetime ticket extra @ body) epoch =
    (Inr body,
     if length ticket \<le> 3802 \<and> epoch = networkEpoch px
     then s\<lparr>si_pqSession := pqSession_store ticket (pqResumeSecret P key (si_MagicQuery s) nonce)
            (time_add now (int lifetime * second)) epoch (si_pqSession s)\<rparr>
     else s)"
  using pqStripControl_frame[OF assms] by (simp only: max_ticket_def)

theorem pqStripControl_block_witness:
  "snd (pqStripControl example_prims example_proxy 0 example_pq_server (replicate 32 1)
      (replicate 12 1) (put_u16 (length (pq_control_block 60 [8, 9] [])) @
        pq_control_block 60 [8, 9] [] @ [4]) 3)
   = example_pq_server\<lparr>si_pqSession := pqSession_store [8, 9]
       (pqResumeSecret example_prims (replicate 32 1) (si_MagicQuery example_pq_server) (replicate 12 1))
       (time_add 0 (60 * second)) 3 (si_pqSession example_pq_server)\<rparr>"
  by (subst pqStripControl_block)
    (simp_all add: pq_control_block_def networkEpoch_def example_proxy_def)

end
