(* ===== verification/Crypto.thy ===== *)
theory Crypto
  imports PQ_Wire
begin

text \<open>
  \<^verbatim>\<open>dnscrypt-proxy/crypto.go\<close>: shared keys, the client key pair and its rotation, encryption of a
  query and decryption of a response. The mutexes serialise the operations; each operation here is
  one critical section. An operation that may end the process (\<^verbatim>\<open>dlog.Fatal\<close>) returns \<open>FatalExit\<close>.
\<close>

section \<open>Keys\<close>

definition isClassicDNSCryptConstruction :: "CryptoConstruction \<Rightarrow> bool" where
  "isClassicDNSCryptConstruction c \<longleftrightarrow> c = XSalsa20Poly1305 \<or> c = XChacha20Poly1305"

text \<open>The fallback of both branches: random bytes, or the end of the process without them.\<close>

definition weak_key_fallback :: "entropy \<Rightarrow> crypto_error + bytes" where
  "weak_key_fallback en =
     (case en_weakKey en of None \<Rightarrow> Inl FatalExit | Some r \<Rightarrow> Inr (arr 32 r))"

definition ComputeSharedKey ::
  "crypto_prims \<Rightarrow> entropy \<Rightarrow> CryptoConstruction \<Rightarrow> bytes \<Rightarrow> bytes \<Rightarrow> crypto_error + bytes" where
  "ComputeSharedKey P en c secretKey serverPk =
     (if \<not> isClassicDNSCryptConstruction c then Inr zero_key
      else if c = XChacha20Poly1305
      then (case xsecretbox_SharedKey P (en_sharedKey en) secretKey serverPk of
              (sharedKey, err) \<Rightarrow> if err then weak_key_fallback en else Inr sharedKey)
      else let sharedKey = box_Precompute P serverPk secretKey;
               c = fold (\<lambda>i acc. acc OR sharedKey ! i) [0..<32] 0
           in if c = 0 then weak_key_fallback en else Inr sharedKey)"

definition setDNSCryptClientKeyLocked :: "crypto_prims \<Rightarrow> bytes \<Rightarrow> Proxy \<Rightarrow> Proxy" where
  "setDNSCryptClientKeyLocked P secretKey px =
     px\<lparr>px_proxySecretKey := secretKey, px_proxyPublicKey := ScalarBaseMult P secretKey\<rparr>"

definition recomputeServerSharedKeyLocked ::
  "crypto_prims \<Rightarrow> entropy \<Rightarrow> Proxy \<Rightarrow> ServerInfo \<Rightarrow> crypto_error + ServerInfo" where
  "recomputeServerSharedKeyLocked P en px s =
     (if \<not> isClassicDNSCryptConstruction (si_CryptoConstruction s) then Inr s
      else case ComputeSharedKey P en (si_CryptoConstruction s) (px_proxySecretKey px)
                  (si_ServerPk s) of
             Inl e \<Rightarrow> Inl e
           | Inr key \<Rightarrow> Inr (s\<lparr>si_SharedKey := key\<rparr>))"

definition initDNSCryptClientKey ::
  "crypto_prims \<Rightarrow> byte_fun option \<Rightarrow> Proxy \<Rightarrow> crypto_error + Proxy" where
  "initDNSCryptClientKey P rnd px =
     (case rnd of
        None \<Rightarrow> Inl RandError
      | Some r \<Rightarrow> Inr (setDNSCryptClientKeyLocked P (arr 32 r) px))"

text \<open>The loop of the rotation over the servers, with the random bytes of each key exchange.\<close>

primrec recompute_all ::
  "crypto_prims \<Rightarrow> (nat \<Rightarrow> entropy) \<Rightarrow> Proxy \<Rightarrow> ServerInfo list \<Rightarrow>
   crypto_error + ServerInfo list" where
  "recompute_all P ens px [] = Inr []"
| "recompute_all P ens px (s # ss) =
     (case recomputeServerSharedKeyLocked P (ens 0) px s of
        Inl e \<Rightarrow> Inl e
      | Inr s' \<Rightarrow>
          (case recompute_all P (\<lambda>i. ens (Suc i)) px ss of
             Inl e \<Rightarrow> Inl e
           | Inr ss' \<Rightarrow> Inr (s' # ss')))"

definition rotateDNSCryptClientKey ::
  "crypto_prims \<Rightarrow> byte_fun option \<Rightarrow> (nat \<Rightarrow> entropy) \<Rightarrow> Proxy \<Rightarrow> crypto_error + Proxy" where
  "rotateDNSCryptClientKey P rnd ens px =
     (case rnd of
        None \<Rightarrow> Inl RandError
      | Some r \<Rightarrow>
          (let px1 = setDNSCryptClientKeyLocked P (arr 32 r) px
           in case recompute_all P ens px1 (px_inner px1) of
                Inl e \<Rightarrow> Inl e
              | Inr inner \<Rightarrow> Inr (px1\<lparr>px_inner := inner\<rparr>)))"

definition computeSharedKey ::
  "crypto_prims \<Rightarrow> entropy \<Rightarrow> Proxy \<Rightarrow> CryptoConstruction \<Rightarrow> bytes \<Rightarrow> crypto_error + bytes" where
  "computeSharedKey P en px c serverPk = ComputeSharedKey P en c (px_proxySecretKey px) serverPk"

section \<open>Encryption\<close>

text \<open>The key pair of a query: derived from the nonce, or the proxy's own with the stored shared key.\<close>

definition query_keys ::
  "crypto_prims \<Rightarrow> Proxy \<Rightarrow> entropy \<Rightarrow> ServerInfo \<Rightarrow> bytes \<Rightarrow> crypto_error + (bytes \<times> bytes)" where
  "query_keys P px en s clientNonce =
     (if px_ephemeralKeys px
      then let ephSk = arr 32 (cp_sha512_256 P (clientNonce @ px_proxySecretKey px));
               publicKey = ScalarBaseMult P ephSk
           in case ComputeSharedKey P en (si_CryptoConstruction s) ephSk (si_ServerPk s) of
                Inl e \<Rightarrow> Inl e
              | Inr sharedKey \<Rightarrow> Inr (sharedKey, publicKey)
      else Inr (si_SharedKey s, px_proxyPublicKey px))"

text \<open>The size of the encrypted query; \<open>xpad\<close> is the random byte added to a query over TCP.\<close>

definition padded_length :: "Proxy \<Rightarrow> ServerInfo \<Rightarrow> nat \<Rightarrow> string \<Rightarrow> byte \<Rightarrow> int" where
  "padded_length px s packetLen proto xpad =
     (let minQuestionSize0 = int QueryOverhead + int packetLen;
          minQuestionSize =
            (if proto = ''udp''
             then max (MinQuestionSize (px_questionSizeEstimator px)) minQuestionSize0
             else minQuestionSize0 + uint xpad);
          paddedLength =
            min (int MaxDNSUDPPacketSize) (clear6 (max minQuestionSize (int QueryOverhead) + 1 + 63))
      in if si_fragmentsBlocked s \<and> proto = ''udp'' then int MaxDNSUDPSafePacketSize
         else if si_Relay s \<noteq> None \<and> proto = ''tcp'' then int MaxDNSPacketSize
         else paddedLength)"

definition query_xpad :: "entropy \<Rightarrow> byte" where
  "query_xpad en = (case en_pad en of None \<Rightarrow> 0 | Some b \<Rightarrow> b)"

definition classic_seal ::
  "crypto_prims \<Rightarrow> CryptoConstruction \<Rightarrow> bytes \<Rightarrow> bytes \<Rightarrow> bytes \<Rightarrow> bytes option" where
  "classic_seal P c nonce padded sharedKey =
     (if c = XChacha20Poly1305 then xsecretbox_Seal P nonce padded sharedKey
      else Some (secretbox_Seal P padded (copy_into 24 nonce) sharedKey))"

definition encrypt_classic ::
  "crypto_prims \<Rightarrow> Proxy \<Rightarrow> entropy \<Rightarrow> ServerInfo \<Rightarrow> bytes \<Rightarrow> string \<Rightarrow> crypto_error + enc_result" where
  "encrypt_classic P px en s packet proto =
     (case en_nonce en of
        None \<Rightarrow> Inl RandError
      | Some r \<Rightarrow>
          (let clientNonce = arr HalfNonceSize r;
               nonce = copy_into NonceSize clientNonce
           in case query_keys P px en s clientNonce of
                Inl e \<Rightarrow> Inl e
              | Inr (sharedKey, publicKey) \<Rightarrow>
                  (if proto \<noteq> ''udp'' \<and> en_pad en = None then Inl RandError
                   else let paddedLength = padded_length px s (length packet) proto (query_xpad en)
                        in if int QueryOverhead + int (length packet) + 1 > paddedLength
                           then Inl QuestionTooLarge
                           else (case classic_seal P (si_CryptoConstruction s) nonce
                                        (pad packet (paddedLength - int QueryOverhead)) sharedKey of
                                   None \<Rightarrow> Inl CryptoPanic
                                 | Some box \<Rightarrow>
                                     Inr \<lparr>er_sharedKey = sharedKey,
                                          er_encrypted = si_MagicQuery s @ publicKey @
                                            take HalfNonceSize nonce @ box,
                                          er_clientNonce = clientNonce, er_queryEpoch = 0\<rparr>))))"

definition Encrypt ::
  "crypto_prims \<Rightarrow> Proxy \<Rightarrow> entropy \<Rightarrow> go_time \<Rightarrow> ServerInfo \<Rightarrow> bytes \<Rightarrow> string \<Rightarrow>
   (crypto_error + enc_result) \<times> ServerInfo" where
  "Encrypt P px en now s packet proto =
     (if si_CryptoConstruction s = XWingPQ
      then case encryptPQ P px en now s packet proto of
             (Inl e, s') \<Rightarrow> (Inl e, s')
           | (Inr r, s') \<Rightarrow>
               (if proto = ''udp'' \<and> length (er_encrypted r) > pqUDPPacketLimit s'
                then Inl QuestionTooLarge else Inr r, s')
      else (encrypt_classic P px en s packet proto, s))"

section \<open>Decryption\<close>

definition response_open ::
  "crypto_prims \<Rightarrow> CryptoConstruction \<Rightarrow> bytes \<Rightarrow> bytes \<Rightarrow> bytes \<Rightarrow> crypto_error + bytes" where
  "response_open P c serverNonce box sharedKey =
     (if c = XChacha20Poly1305 \<or> c = XWingPQ
      then case xsecretbox_Open P serverNonce box sharedKey of
             None \<Rightarrow> Inl CryptoPanic
           | Some None \<Rightarrow> Inl IncorrectTag
           | Some (Some packet) \<Rightarrow> Inr packet
      else case secretbox_Open P box (copy_into 24 serverNonce) sharedKey of
             None \<Rightarrow> Inl IncorrectTag
           | Some packet \<Rightarrow> Inr packet)"

definition response_unpad :: "bytes \<Rightarrow> crypto_error + bytes" where
  "response_unpad padded =
     (case unpad padded of
        Inl _ \<Rightarrow> Inl IncorrectPadding
      | Inr packet \<Rightarrow> if length packet < MinDNSPacketSize then Inl IncorrectPadding else Inr packet)"

definition Decrypt ::
  "crypto_prims \<Rightarrow> Proxy \<Rightarrow> go_time \<Rightarrow> ServerInfo \<Rightarrow> bytes \<Rightarrow> bytes \<Rightarrow> bytes \<Rightarrow> nat \<Rightarrow>
   (crypto_error + bytes) \<times> ServerInfo" where
  "Decrypt P px now s sharedKey encrypted nonce queryEpoch =
     (let responseHeaderLen = length ServerMagic + NonceSize
      in if length encrypted < responseHeaderLen + TagSize + MinDNSPacketSize \<or>
            length encrypted > responseHeaderLen + TagSize + MaxDNSPacketSize \<or>
            take (length ServerMagic) encrypted \<noteq> ServerMagic
         then (Inl InvalidSizeOrPrefix, s)
         else let serverNonce = go_slice encrypted (length ServerMagic) responseHeaderLen
              in if take HalfNonceSize nonce \<noteq> take HalfNonceSize serverNonce
                 then (Inl UnexpectedNonce, s)
                 else case response_open P (si_CryptoConstruction s) serverNonce
                             (drop responseHeaderLen encrypted) sharedKey of
                        Inl e \<Rightarrow> (Inl e, s)
                      | Inr packet \<Rightarrow>
                          if si_CryptoConstruction s = XWingPQ
                          then case pqStripControl P px now s sharedKey nonce packet queryEpoch of
                                 (Inl e, s') \<Rightarrow> (Inl e, s')
                               | (Inr body, s') \<Rightarrow> (response_unpad body, s')
                          else (response_unpad packet, s))"

section \<open>Sizes of classic queries\<close>

lemma padded_length_plain:
  assumes "\<not> (si_fragmentsBlocked s \<and> proto = ''udp'')" "\<not> (si_Relay s \<noteq> None \<and> proto = ''tcp'')"
  shows "padded_length px s n proto x =
    min 4096 (clear6 ((if proto = ''udp'' then max (MinQuestionSize (px_questionSizeEstimator px))
       (68 + int n) else 68 + int n + uint x) + 64))"
proof -
  have "max (68 + int n + uint x) 68 = 68 + int n + uint x" by simp
  then show ?thesis
    using assms
    by (auto simp: padded_length_def Let_def QueryOverhead_eq MaxDNSUDPPacketSize_def ac_simps)
qed

lemma clear6_room: "m < clear6 (m + 64)"
  using clear6_gt[of "m + 64"] by simp

lemma fits_iff:
  "68 + int n + 1 \<le> padded_length px s n proto x \<longleftrightarrow>
     n \<le> (if si_fragmentsBlocked s \<and> proto = ''udp'' then 1183 else 4027)"
proof (cases "si_fragmentsBlocked s \<and> proto = ''udp''")
  case True
  then show ?thesis by (auto simp: padded_length_def Let_def MaxDNSUDPSafePacketSize_def)
next
  case frag: False
  show ?thesis
  proof (cases "si_Relay s \<noteq> None \<and> proto = ''tcp''")
    case True
    then show ?thesis by (auto simp: padded_length_def Let_def MaxDNSPacketSize_def)
  next
    case False
    define m where "m = (if proto = ''udp'' then max (MinQuestionSize (px_questionSizeEstimator px))
       (68 + int n) else 68 + int n + uint x)"
    have pl: "padded_length px s n proto x = min 4096 (clear6 (m + 64))"
      using padded_length_plain[OF frag False] by (simp add: m_def)
    have "68 + int n \<le> m" by (auto simp: m_def)
    then have "68 + int n + 1 \<le> clear6 (m + 64)" using clear6_room[of m] by linarith
    then show ?thesis unfolding pl using frag by auto
  qed
qed

lemma length_classic_seal:
  "classic_seal P c n m k = Some b \<Longrightarrow> length b = length m + 16"
  by (auto simp: classic_seal_def xsecretbox_Seal_def length_box_seal xsalsa.length_seal TagSize_def
      split: if_splits)

lemma encrypt_classic_Inr:
  assumes "encrypt_classic P px en s packet proto = Inr r"
  defines "L \<equiv> padded_length px s (length packet) proto (query_xpad en)"
  obtains rn sharedKey publicKey box where
    "en_nonce en = Some rn" "query_keys P px en s (arr 12 rn) = Inr (sharedKey, publicKey)"
    "int (length packet) + 69 \<le> L"
    "classic_seal P (si_CryptoConstruction s) (copy_into 24 (arr 12 rn)) (pad packet (L - 68)) sharedKey
       = Some box"
    "r = \<lparr>er_sharedKey = sharedKey,
       er_encrypted = si_MagicQuery s @ publicKey @ arr 12 rn @ box,
       er_clientNonce = arr 12 rn, er_queryEpoch = 0\<rparr>"
  using assms
  by (auto simp: encrypt_classic_def Let_def HalfNonceSize_def NonceSize_def QueryOverhead_eq
      take_copy_into split: option.splits sum.splits if_splits)

section \<open>The resolver's side\<close>

text \<open>
  How a resolver with the secret key \<open>ssk\<close> reads a query: it computes the shared key from the client's
  public key in the packet, opens the box and removes the padding.
\<close>

definition server_shared_key :: "crypto_prims \<Rightarrow> CryptoConstruction \<Rightarrow> bytes \<Rightarrow> bytes \<Rightarrow> bytes option" where
  "server_shared_key P c ssk clientPk =
     (if c = XChacha20Poly1305
      then case cp_x25519 P ssk clientPk of
             None \<Rightarrow> None
           | Some dh \<Rightarrow> map_option (arr 32) (cp_hchacha20 P (arr 32 dh) (replicate 16 0))
      else Some (box_Precompute P clientPk ssk))"

definition server_receive ::
  "crypto_prims \<Rightarrow> CryptoConstruction \<Rightarrow> bytes \<Rightarrow> bytes \<Rightarrow> bytes \<Rightarrow> bytes option" where
  "server_receive P c ssk magic query =
     (if take 8 query \<noteq> magic then None
      else case server_shared_key P c ssk (go_slice query 8 40) of
             None \<Rightarrow> None
           | Some key \<Rightarrow>
               (case response_open P c (copy_into 24 (go_slice query 40 52)) (drop 52 query) key of
                  Inl _ \<Rightarrow> None
                | Inr padded \<Rightarrow>
                    (case unpad padded of Inl _ \<Rightarrow> None | Inr packet \<Rightarrow> Some packet)))"

text \<open>Diffie--Hellman: both sides compute the same point.\<close>

definition dh_correct :: "crypto_prims \<Rightarrow> bool" where
  "dh_correct P \<longleftrightarrow> (\<forall>a b. length a = 32 \<longrightarrow> length b = 32 \<longrightarrow>
     map_option (arr 32) (cp_x25519 P a (ScalarBaseMult P b)) =
     map_option (arr 32) (cp_x25519 P b (ScalarBaseMult P a)))"

text \<open>The exchange of \<open>sk\<close> with the server key succeeds without a fallback key.\<close>

definition strong_exchange :: "crypto_prims \<Rightarrow> CryptoConstruction \<Rightarrow> bytes \<Rightarrow> bytes \<Rightarrow> bool" where
  "strong_exchange P c sk pk \<longleftrightarrow>
     (if c = XChacha20Poly1305
      then \<exists>dh. cp_x25519 P sk pk = Some dh \<and> cp_hchacha20 P (arr 32 dh) (replicate 16 0) \<noteq> None
      else \<exists>b \<in> set (box_Precompute P pk sk). b \<noteq> 0)"

lemma fold_or_eq_0: "fold (\<lambda>i acc. acc OR f i) xs (a :: byte) = 0 \<longleftrightarrow> a = 0 \<and> (\<forall>i \<in> set xs. f i = 0)"
proof (induction xs arbitrary: a)
  case Nil
  then show ?case by simp
next
  case (Cons i xs)
  then show ?case by (auto simp: or_eq_0_iff)
qed

lemma ScalarMult_dh:
  "dh_correct P \<Longrightarrow> length a = 32 \<Longrightarrow> length b = 32 \<Longrightarrow>
     ScalarMult P a (ScalarBaseMult P b) = ScalarMult P b (ScalarBaseMult P a)"
  by (fastforce simp: dh_correct_def ScalarMult_def split: option.splits)

lemma box_nonzero: "(\<forall>i \<in> set [0..<32]. box_Precompute P pk sk ! i = 0) \<longleftrightarrow>
    \<not> (\<exists>b \<in> set (box_Precompute P pk sk). b \<noteq> 0)"
  by (auto simp: in_set_conv_nth Ball_def)

lemma ComputeSharedKey_server:
  assumes dh: "dh_correct P" and len: "length sk = 32" "length ssk = 32"
    and c: "isClassicDNSCryptConstruction c"
    and strong: "strong_exchange P c sk (ScalarBaseMult P ssk)"
  shows "\<exists>key. ComputeSharedKey P en c sk (ScalarBaseMult P ssk) = Inr key \<and> length key = 32 \<and>
    server_shared_key P c ssk (ScalarBaseMult P sk) = Some key"
proof (cases "c = XChacha20Poly1305")
  case True
  with strong obtain d where d: "cp_x25519 P sk (ScalarBaseMult P ssk) = Some d"
    and h: "cp_hchacha20 P (arr 32 d) (replicate 16 0) \<noteq> None"
    by (auto simp: strong_exchange_def)
  have "map_option (arr 32) (cp_x25519 P ssk (ScalarBaseMult P sk)) = Some (arr 32 d)"
    using dh len d unfolding dh_correct_def by (metis option.simps(9))
  then obtain e where "cp_x25519 P ssk (ScalarBaseMult P sk) = Some e" "arr 32 e = arr 32 d" by auto
  then show ?thesis using True c d h
    by (auto simp: ComputeSharedKey_def xsecretbox_SharedKey_def server_shared_key_def)
next
  case False
  have pre: "box_Precompute P (ScalarBaseMult P ssk) sk = box_Precompute P (ScalarBaseMult P sk) ssk"
    using ScalarMult_dh[OF dh len] by (simp add: box_Precompute_def)
  have "\<not> (\<forall>i \<in> set [0..<32]. box_Precompute P (ScalarBaseMult P ssk) sk ! i = 0)"
    unfolding box_nonzero using strong False by (simp add: strong_exchange_def)
  then have "fold (\<lambda>i acc. acc OR box_Precompute P (ScalarBaseMult P ssk) sk ! i) [0..<32] 0 \<noteq> 0"
    by (simp only: fold_or_eq_0 simp_thms)
  then show ?thesis using False c pre
    by (simp add: ComputeSharedKey_def server_shared_key_def Let_def)
qed

section \<open>Queries reach the resolver\<close>

definition query_secret :: "crypto_prims \<Rightarrow> Proxy \<Rightarrow> bytes \<Rightarrow> bytes" where
  "query_secret P px clientNonce =
     (if px_ephemeralKeys px then arr 32 (cp_sha512_256 P (clientNonce @ px_proxySecretKey px))
      else px_proxySecretKey px)"

text \<open>The invariant the key rotation keeps: public key and shared keys belong to the secret key.\<close>

definition client_key_ok :: "crypto_prims \<Rightarrow> Proxy \<Rightarrow> bool" where
  "client_key_ok P px \<longleftrightarrow>
     length (px_proxySecretKey px) = 32 \<and>
     px_proxyPublicKey px = ScalarBaseMult P (px_proxySecretKey px)"

definition shared_key_ok :: "crypto_prims \<Rightarrow> Proxy \<Rightarrow> ServerInfo \<Rightarrow> bool" where
  "shared_key_ok P px s \<longleftrightarrow>
     (isClassicDNSCryptConstruction (si_CryptoConstruction s) \<longrightarrow>
        (\<exists>en. ComputeSharedKey P en (si_CryptoConstruction s) (px_proxySecretKey px) (si_ServerPk s)
                = Inr (si_SharedKey s)))"

lemma query_keys_server:
  assumes "dh_correct P" "length ssk = 32" "si_ServerPk s = ScalarBaseMult P ssk"
    and "isClassicDNSCryptConstruction (si_CryptoConstruction s)"
    and "client_key_ok P px" "shared_key_ok P px s"
    and "strong_exchange P (si_CryptoConstruction s) (query_secret P px n) (si_ServerPk s)"
    and keys: "query_keys P px en s n = Inr (key, pk)"
  shows "length pk = 32 \<and> length key = 32 \<and>
    server_shared_key P (si_CryptoConstruction s) ssk pk = Some key"
proof -
  define sk where "sk = query_secret P px n"
  have "length sk = 32" using assms(5) by (simp add: sk_def query_secret_def client_key_ok_def)
  note srv = ComputeSharedKey_server[OF assms(1) this assms(2,4) assms(7)[folded sk_def, unfolded assms(3)]]
  obtain en' where "ComputeSharedKey P en' (si_CryptoConstruction s) sk (ScalarBaseMult P ssk) = Inr key"
    "pk = ScalarBaseMult P sk"
    using keys assms(3-6)
    by (auto simp: query_keys_def query_secret_def sk_def Let_def client_key_ok_def shared_key_ok_def
        split: if_splits sum.splits)
  with srv[of en'] show ?thesis by auto
qed

lemma response_open_classic_seal:
  "classic_seal P c n m k = Some b \<Longrightarrow> length n = 24 \<Longrightarrow> isClassicDNSCryptConstruction c \<Longrightarrow>
     response_open P c n b k = Inr m"
  by (auto simp: classic_seal_def response_open_def isClassicDNSCryptConstruction_def
      xsecretbox_Seal_def xsecretbox_Open_def box_open_seal xsalsa.open_seal split: if_splits)

lemma server_receive_query:
  assumes "length magic = 8" "length pk = 32" "length n = 12"
    and "server_shared_key P c ssk pk = Some key" "isClassicDNSCryptConstruction c"
    and "classic_seal P c (copy_into 24 n) (pad packet L) key = Some box"
  shows "server_receive P c ssk magic (magic @ pk @ n @ box) = Some packet"
proof -
  define q where "q = magic @ pk @ n @ box"
  have "go_slice q 8 40 = pk" unfolding q_def using assms by (intro go_slice_mid) simp_all
  moreover have "go_slice q 40 52 = n"
    using go_slice_mid[of "magic @ pk" 40 52 n box] assms by (simp add: q_def)
  moreover have "drop 52 q = box" "take 8 q = magic" using assms by (simp_all add: q_def)
  moreover have "response_open P c (copy_into 24 n) box key = Inr (pad packet L)"
    using response_open_classic_seal[OF assms(6) _ assms(5)] by simp
  ultimately show ?thesis
    unfolding q_def[symmetric] using assms(4)
    by (simp add: server_receive_def classic_padding.unpad_pad)
qed

section \<open>Responses\<close>

definition response_seal ::
  "crypto_prims \<Rightarrow> CryptoConstruction \<Rightarrow> bytes \<Rightarrow> bytes \<Rightarrow> bytes \<Rightarrow> bytes" where
  "response_seal P c n key m =
     (if c = XChacha20Poly1305 \<or> c = XWingPQ then xchacha_seal P n key m
      else secretbox_Seal P m n key)"

definition response_ok ::
  "crypto_prims \<Rightarrow> CryptoConstruction \<Rightarrow> bytes \<Rightarrow> bytes \<Rightarrow> bytes \<Rightarrow> bytes \<Rightarrow> bool" where
  "response_ok P c key nonce encrypted padded \<longleftrightarrow>
     (\<exists>serverNonce. length serverNonce = 24 \<and> take 12 serverNonce = take 12 nonce \<and>
        65 \<le> length encrypted \<and> length encrypted \<le> 4144 \<and>
        encrypted = ServerMagic @ serverNonce @ response_seal P c serverNonce key padded)"

lemma response_open_iff:
  assumes "length n = 24" "length key = 32"
  shows "response_open P c n box key = Inr m \<longleftrightarrow> box = response_seal P c n key m"
proof (cases "c = XChacha20Poly1305 \<or> c = XWingPQ")
  case True
  then show ?thesis
    using assms xchacha.open_iff[of P n key box m]
    by (cases "xchacha_open P n key box")
      (simp_all add: response_open_def response_seal_def xsecretbox_Open_eq)
next
  case False
  then show ?thesis
    using assms xsalsa.open_iff[where P = P and n = n and k = key and b = box and m = m]
    by (cases "secretbox_Open P box n key")
      (simp_all add: response_open_def response_seal_def copy_into_id)
qed

lemma Decrypt_opened:
  assumes key: "length key = 32"
  shows "response_open P c (go_slice encrypted 8 32) (drop 32 encrypted) key = Inr padded \<and>
      take 12 nonce = take 12 (go_slice encrypted 8 32) \<and>
      65 \<le> length encrypted \<and> length encrypted \<le> 4144 \<and> take 8 encrypted = ServerMagic \<longleftrightarrow>
    response_ok P c key nonce encrypted padded" (is "?L = ?R")
proof
  assume L: ?L
  define n where "n = go_slice encrypted 8 32"
  have "65 \<le> length encrypted" using L by blast
  then have ln: "length n = 24" by (simp add: n_def)
  have "drop 32 encrypted = response_seal P c n key padded"
    using L response_open_iff[OF ln key] by (simp add: n_def)
  moreover have "encrypted = take 8 encrypted @ n @ drop 32 encrypted"
    unfolding n_def using go_slice_rejoin[of 8 32 encrypted] by simp
  ultimately have "encrypted = ServerMagic @ n @ response_seal P c n key padded" using L by metis
  then show ?R unfolding response_ok_def using L ln n_def by metis
next
  assume ?R
  then obtain n where n: "length n = 24" "take 12 n = take 12 nonce" "65 \<le> length encrypted"
    "length encrypted \<le> 4144" and e: "encrypted = ServerMagic @ n @ response_seal P c n key padded"
    unfolding response_ok_def by blast
  have "go_slice encrypted 8 32 = n" unfolding e using n(1) by (intro go_slice_mid) simp_all
  moreover have "drop 32 encrypted = response_seal P c n key padded" unfolding e using n(1) by simp
  moreover have "take 8 encrypted = ServerMagic" unfolding e by simp
  ultimately show ?L using n response_open_iff[OF n(1) key, of P c _ padded] by simp
qed

lemma response_unpad_iff:
  "response_unpad padded = Inr p \<longleftrightarrow> 17 \<le> length p \<and> (\<exists>k. padded = p @ 0x80 # replicate k 0)"
proof -
  have "response_unpad padded = Inr p \<longleftrightarrow> unpad padded = Inr p \<and> 17 \<le> length p"
    by (cases "unpad padded") (auto simp: response_unpad_def MinDNSPacketSize_def)
  then show ?thesis using unpad_sound unpad_delimited by blast
qed

lemma Decrypt_unfold:
  "Decrypt P px now s key encrypted nonce epoch =
     (if length encrypted < 65 \<or> length encrypted > 4144 \<or> take 8 encrypted \<noteq> ServerMagic
      then (Inl InvalidSizeOrPrefix, s)
      else if take 12 nonce \<noteq> take 12 (go_slice encrypted 8 32) then (Inl UnexpectedNonce, s)
      else case response_open P (si_CryptoConstruction s) (go_slice encrypted 8 32)
                  (drop 32 encrypted) key of
             Inl e \<Rightarrow> (Inl e, s)
           | Inr packet \<Rightarrow>
               if si_CryptoConstruction s = XWingPQ
               then case pqStripControl P px now s key nonce packet epoch of
                      (Inl e, s') \<Rightarrow> (Inl e, s')
                    | (Inr body, s') \<Rightarrow> (response_unpad body, s')
               else (response_unpad packet, s))"
  by (simp add: Decrypt_def Let_def NonceSize_def TagSize_def HalfNonceSize_def MinDNSPacketSize_def
      MaxDNSPacketSize_def)

lemma Decrypt_classic_iff:
  assumes "si_CryptoConstruction s \<noteq> XWingPQ" "length key = 32"
  shows "fst (Decrypt P px now s key encrypted nonce epoch) = Inr p \<longleftrightarrow>
    (\<exists>padded. response_ok P (si_CryptoConstruction s) key nonce encrypted padded \<and>
       response_unpad padded = Inr p)"
  unfolding Decrypt_opened[OF assms(2), symmetric] Decrypt_unfold
  using assms(1) by (auto split: sum.splits)

lemma recompute_all_ok:
  "recompute_all P ens px ss = Inr ss' \<Longrightarrow>
     length ss' = length ss \<and>
     (\<forall>i < length ss. shared_key_ok P px (ss' ! i) \<and>
        ss' ! i = (ss ! i)\<lparr>si_SharedKey := si_SharedKey (ss' ! i)\<rparr> \<and>
        (\<not> isClassicDNSCryptConstruction (si_CryptoConstruction (ss ! i)) \<longrightarrow> ss' ! i = ss ! i))"
proof (induction ss arbitrary: ens ss')
  case Nil
  then show ?case by simp
next
  case (Cons s ss)
  from Cons.prems obtain t ts where t: "recomputeServerSharedKeyLocked P (ens 0) px s = Inr t"
    and ts: "recompute_all P (\<lambda>i. ens (Suc i)) px ss = Inr ts" and eq: "ss' = t # ts"
    by (auto split: sum.splits)
  have hd: "shared_key_ok P px t \<and> t = s\<lparr>si_SharedKey := si_SharedKey t\<rparr> \<and>
      (\<not> isClassicDNSCryptConstruction (si_CryptoConstruction s) \<longrightarrow> t = s)"
    using t by (auto simp: recomputeServerSharedKeyLocked_def shared_key_ok_def
        split: if_splits sum.splits)
  show ?case
    unfolding eq using hd Cons.IH[OF ts] by (auto simp: nth_Cons split: nat.split)
qed

lemma encrypt_classic_total:
  assumes "en_nonce en = Some rn" "en_pad en = Some x"
    and "query_keys P px en s (arr 12 rn) = Inr (key, pk)" "length key = 32"
  shows "\<exists>r. encrypt_classic P px en s packet proto =
    (if length packet \<le> (if si_fragmentsBlocked s \<and> proto = ''udp'' then 1183 else 4027)
     then Inr r else Inl QuestionTooLarge) \<and> er_clientNonce r = arr 12 rn"
proof -
  define L where "L = padded_length px s (length packet) proto x"
  have "\<exists>box. classic_seal P (si_CryptoConstruction s) (copy_into 24 (arr 12 rn))
      (pad packet (L - 68)) key = Some box"
    using assms(4) by (simp add: classic_seal_def xsecretbox_Seal_def NonceSize_def)
  then obtain box where box: "classic_seal P (si_CryptoConstruction s) (copy_into 24 (arr 12 rn))
      (pad packet (L - 68)) key = Some box" ..
  have fit: "68 + int (length packet) + 1 > L \<longleftrightarrow>
      \<not> length packet \<le> (if si_fragmentsBlocked s \<and> proto = ''udp'' then 1183 else 4027)"
    using fits_iff[of "length packet" px s proto x] unfolding L_def by linarith
  have "encrypt_classic P px en s packet proto =
     (if 68 + int (length packet) + 1 > L then Inl QuestionTooLarge
      else Inr \<lparr>er_sharedKey = key, er_encrypted = si_MagicQuery s @ pk @ arr 12 rn @ box,
             er_clientNonce = arr 12 rn, er_queryEpoch = 0\<rparr>)"
    using assms box
    by (simp add: encrypt_classic_def Let_def HalfNonceSize_def NonceSize_def QueryOverhead_eq
        query_xpad_def L_def take_copy_into)
  then show ?thesis unfolding fit
    by (intro exI[of _ "\<lparr>er_sharedKey = key, er_encrypted = si_MagicQuery s @ pk @ arr 12 rn @ box,
             er_clientNonce = arr 12 rn, er_queryEpoch = 0\<rparr>"]) simp
qed

lemma Decrypt_classic_state:
  "si_CryptoConstruction s \<noteq> XWingPQ \<Longrightarrow> snd (Decrypt P px now s key encrypted nonce epoch) = s"
  by (simp add: Decrypt_unfold split: sum.split)

section \<open>A concrete server\<close>

definition example_classic_server :: ServerInfo where
  "example_classic_server = zero_ServerInfo\<lparr>si_CryptoConstruction := XChacha20Poly1305,
     si_ServerPk := ScalarBaseMult example_prims (replicate 32 3), si_SharedKey := replicate 32 15\<rparr>"

lemmas example_defs' = example_defs example_classic_server_def

lemma arr_replicate: "(\<And>i. i < n \<Longrightarrow> f i = b) \<Longrightarrow> arr n f = replicate n b"
  by (simp add: arr_def list_eq_iff_nth_eq)

lemma example_base: "ScalarBaseMult example_prims (replicate 32 b) = replicate 32 b"
  by (simp add: ScalarBaseMult_def example_prims_def arr_replicate)

lemma example_dh: "dh_correct example_prims"
  by (auto simp: dh_correct_def example_prims_def ScalarBaseMult_def arr_def)

lemma example_query_keys:
  "query_keys example_prims example_proxy example_entropy example_classic_server n =
     Inr (replicate 32 15, replicate 32 5)"
  by (simp add: query_keys_def example_defs')

lemma example_keys_ok: "client_key_ok example_prims example_proxy"
  "shared_key_ok example_prims example_proxy example_classic_server"
proof -
  show "client_key_ok example_prims example_proxy"
    by (simp add: client_key_ok_def example_proxy_def example_base)
  have "arr 32 (\<lambda>i. arr 32 (\<lambda>i. replicate 32 5 ! i * replicate 32 3 ! i) ! i) = replicate 32 (15 :: byte)"
    by (rule arr_replicate) (simp add: arr_replicate[of 32 _ 15])
  then show "shared_key_ok example_prims example_proxy example_classic_server"
    by (simp add: shared_key_ok_def ComputeSharedKey_def xsecretbox_SharedKey_def example_base
        isClassicDNSCryptConstruction_def example_classic_server_def example_proxy_def)
      (simp add: example_prims_def)
qed

section \<open>Properties\<close>

text \<open>
  C5. Classic queries reach the resolver. If the proxy's keys are consistent, then a query that
  \<open>Encrypt\<close> builds for a DNSCrypt server, with the proxy's own or with an ephemeral key pair, over any
  transport, is read by the resolver that has the matching secret key as exactly the packet. The
  hypotheses on the primitives are the commutativity of X25519 and that this exchange is not weak.
\<close>

theorem Encrypt_delivered:
  assumes "dh_correct P" "length ssk = 32" "si_ServerPk s = ScalarBaseMult P ssk"
    and "isClassicDNSCryptConstruction (si_CryptoConstruction s)" "length (si_MagicQuery s) = 8"
    and "client_key_ok P px" "shared_key_ok P px s"
    and "Encrypt P px en now s packet proto = (Inr r, s')"
    and "strong_exchange P (si_CryptoConstruction s) (query_secret P px (er_clientNonce r)) (si_ServerPk s)"
  shows "server_receive P (si_CryptoConstruction s) ssk (si_MagicQuery s) (er_encrypted r) = Some packet
    \<and> s' = s"
proof -
  have ns: "si_CryptoConstruction s \<noteq> XWingPQ"
    using assms(4) by (auto simp: isClassicDNSCryptConstruction_def)
  with assms(8) have e: "encrypt_classic P px en s packet proto = Inr r" "s' = s"
    by (auto simp: Encrypt_def)
  from encrypt_classic_Inr[OF e(1)] obtain rn key pk box where
    k: "query_keys P px en s (arr 12 rn) = Inr (key, pk)" and
    b: "classic_seal P (si_CryptoConstruction s) (copy_into 24 (arr 12 rn))
       (pad packet (padded_length px s (length packet) proto (query_xpad en) - 68)) key = Some box" and
    r: "r = \<lparr>er_sharedKey = key, er_encrypted = si_MagicQuery s @ pk @ arr 12 rn @ box,
       er_clientNonce = arr 12 rn, er_queryEpoch = 0\<rparr>"
    by metis
  have "length pk = 32 \<and> length key = 32 \<and>
      server_shared_key P (si_CryptoConstruction s) ssk pk = Some key"
    using query_keys_server[OF assms(1-4,6,7) _ k] assms(9) r by simp
  with server_receive_query[OF assms(5) _ _ _ assms(4) b] e(2) r show ?thesis by simp
qed

theorem Encrypt_delivered_witness:
  "\<exists>r s'. Encrypt example_prims example_proxy example_entropy 0 example_classic_server [1, 2, 3] ''udp''
      = (Inr r, s') \<and>
    server_receive example_prims XChacha20Poly1305 (replicate 32 3) (replicate 8 0) (er_encrypted r)
      = Some [1, 2, 3]"
proof -
  have en: "en_nonce example_entropy = Some of_nat" "en_pad example_entropy = Some 9"
    by (simp_all add: example_entropy_def)
  have c: "si_CryptoConstruction example_classic_server = XChacha20Poly1305"
    "si_MagicQuery example_classic_server = replicate 8 0"
    "si_ServerPk example_classic_server = ScalarBaseMult example_prims (replicate 32 3)"
    by (simp_all add: example_defs')
  obtain r where "encrypt_classic example_prims example_proxy example_entropy example_classic_server
      [1, 2, 3] ''udp'' = Inr r"
    using encrypt_classic_total[OF en example_query_keys, of "[1, 2, 3]" "''udp''"] by auto
  then have e: "Encrypt example_prims example_proxy example_entropy 0 example_classic_server [1, 2, 3]
      ''udp'' = (Inr r, example_classic_server)"
    by (simp add: Encrypt_def c)
  have st: "strong_exchange example_prims (si_CryptoConstruction example_classic_server)
      (query_secret example_prims example_proxy (er_clientNonce r)) (si_ServerPk example_classic_server)"
    by (simp add: strong_exchange_def c) (simp add: example_prims_def)
  have cl: "isClassicDNSCryptConstruction (si_CryptoConstruction example_classic_server)"
    "length (si_MagicQuery example_classic_server) = 8"
    by (simp_all add: c isClassicDNSCryptConstruction_def)
  show ?thesis
    using e Encrypt_delivered[OF example_dh _ c(3) cl example_keys_ok e st] by (auto simp: c)
qed

text \<open>
  C28. Sizes on the wire. An encrypted classic query has 1252 bytes over UDP when the server drops
  fragments, 4096 bytes over TCP through a relay, and otherwise a multiple of 64 that is at most 4096
  and, over UDP, at least what the estimator asks for or 4096. The size tells at most the 64-byte class.
\<close>

theorem Encrypt_size:
  assumes "encrypt_classic P px en s packet proto = Inr r"
    and "length (si_MagicQuery s) = 8" "length (px_proxyPublicKey px) = 32"
  shows "length (er_encrypted r) =
     (if si_fragmentsBlocked s \<and> proto = ''udp'' then 1252
      else if si_Relay s \<noteq> None \<and> proto = ''tcp'' then 4096
      else nat (min 4096 (clear6 ((if proto = ''udp''
         then max (MinQuestionSize (px_questionSizeEstimator px)) (68 + int (length packet))
         else 68 + int (length packet) + uint (query_xpad en)) + 64))))"
proof -
  define L where "L = padded_length px s (length packet) proto (query_xpad en)"
  from encrypt_classic_Inr[OF assms(1)] obtain rn key pk box where
    k: "query_keys P px en s (arr 12 rn) = Inr (key, pk)" and fit: "int (length packet) + 69 \<le> L" and
    b: "classic_seal P (si_CryptoConstruction s) (copy_into 24 (arr 12 rn)) (pad packet (L - 68)) key
       = Some box" and
    r: "r = \<lparr>er_sharedKey = key, er_encrypted = si_MagicQuery s @ pk @ arr 12 rn @ box,
       er_clientNonce = arr 12 rn, er_queryEpoch = 0\<rparr>"
    unfolding L_def by metis
  have "length pk = 32"
    using k assms(3) by (auto simp: query_keys_def Let_def split: if_splits sum.splits)
  then have "int (length (er_encrypted r)) = 68 + int (length (pad packet (L - 68)))"
    using length_classic_seal[OF b] assms(2) r by simp
  also have "\<dots> = L" using classic_padding.length_pad[of packet "L - 68"] fit by simp
  finally have "length (er_encrypted r) = nat L" by linarith
  then show ?thesis
    using padded_length_plain[of s proto px "length packet" "query_xpad en"]
    by (auto simp: L_def padded_length_def MaxDNSUDPSafePacketSize_def MaxDNSPacketSize_def Let_def)
qed

theorem Encrypt_size_witness:
  "\<exists>r. encrypt_classic example_prims example_proxy example_entropy example_classic_server
      [1, 2, 3] ''udp'' = Inr r \<and> length (er_encrypted r) = 576"
proof -
  have en: "en_nonce example_entropy = Some of_nat" "en_pad example_entropy = Some 9"
    by (simp_all add: example_entropy_def)
  obtain r where r: "encrypt_classic example_prims example_proxy example_entropy example_classic_server
      [1, 2, 3] ''udp'' = Inr r"
    using encrypt_classic_total[OF en example_query_keys, of "[1, 2, 3]" "''udp''"] by auto
  have "length (er_encrypted r) = 576"
    by (subst Encrypt_size[OF r])
      (simp_all add: example_defs' MinQuestionSize_def NewQuestionSizeEstimator_def
        InitialMinQuestionSize_def clear6_eq)
  then show ?thesis using r by blast
qed

text \<open>
  C29. The size limit is sharp. With randomness and keys available, \<open>Encrypt\<close> for a classic server
  fails exactly when the packet has more than 1183 bytes (UDP, server drops fragments) or more than
  4027 bytes (otherwise), and then with the error that makes the caller fall back to TCP.
\<close>

theorem Encrypt_limit:
  assumes "en_nonce en = Some rn" "en_pad en = Some x"
    and "query_keys P px en s (arr 12 rn) = Inr (key, pk)" "length key = 32"
    and limit: "limit = (if si_fragmentsBlocked s \<and> proto = ''udp'' then 1183 else 4027)"
  shows "case encrypt_classic P px en s packet proto of
      Inr r \<Rightarrow> length packet \<le> limit
    | Inl e \<Rightarrow> e = QuestionTooLarge \<and> limit < length packet"
  using encrypt_classic_total[OF assms(1-4), of packet proto] unfolding limit
  by (auto split: if_splits)

theorem Encrypt_limit_witness:
  "case encrypt_classic example_prims example_proxy example_entropy example_classic_server
      (replicate 4028 0) ''tcp'' of
      Inr r \<Rightarrow> length (replicate 4028 (0 :: byte)) \<le> 4027
    | Inl e \<Rightarrow> e = QuestionTooLarge \<and> 4027 < length (replicate 4028 (0 :: byte))"
proof -
  have "si_fragmentsBlocked example_classic_server = False" by (simp add: example_defs')
  then show ?thesis
    using Encrypt_limit[OF _ _ example_query_keys, of _ 9 4027 "''tcp''" "replicate 4028 0"]
    by (simp add: example_entropy_def)
qed

text \<open>
  C6. Decryption is exact. For a classic server, \<open>Decrypt\<close> returns a packet if and only if the response
  consists of the magic, a nonce that continues the client's nonce and a box made with the shared key
  around that packet and its padding, and both sizes are within the limits; the server record is
  unchanged.
\<close>

theorem Decrypt_exact:
  assumes "si_CryptoConstruction s \<noteq> XWingPQ" "length key = 32"
  shows "Decrypt P px now s key encrypted nonce epoch = (Inr p, s') \<longleftrightarrow>
    s' = s \<and> 17 \<le> length p \<and> 65 \<le> length encrypted \<and> length encrypted \<le> 4144 \<and>
    (\<exists>serverNonce k. length serverNonce = 24 \<and> take 12 serverNonce = take 12 nonce \<and>
       encrypted = ServerMagic @ serverNonce @
         response_seal P (si_CryptoConstruction s) serverNonce key (p @ 0x80 # replicate k 0))"
proof -
  have "Decrypt P px now s key encrypted nonce epoch = (Inr p, s') \<longleftrightarrow>
      s' = s \<and> fst (Decrypt P px now s key encrypted nonce epoch) = Inr p"
    using Decrypt_classic_state[OF assms(1)] by (metis prod.collapse fst_conv snd_conv)
  then show ?thesis
    unfolding Decrypt_classic_iff[OF assms] response_unpad_iff response_ok_def by blast
qed

theorem Decrypt_exact_witness:
  "Decrypt example_prims example_proxy 0 example_classic_server (replicate 32 15)
     (ServerMagic @ replicate 24 1 @ response_seal example_prims XChacha20Poly1305 (replicate 24 1)
        (replicate 32 15) (replicate 17 7 @ 0x80 # replicate 3 0)) (replicate 12 1) 0
   = (Inr (replicate 17 7), example_classic_server)"
proof -
  have c: "si_CryptoConstruction example_classic_server = XChacha20Poly1305"
    by (simp add: example_classic_server_def)
  have "take 12 (replicate 24 (1 :: byte)) = take 12 (replicate 12 1)" by simp
  moreover have "length (response_seal example_prims XChacha20Poly1305 (replicate 24 1)
      (replicate 32 15) (replicate 17 7 @ 0x80 # replicate 3 0)) = 37"
    by (simp add: response_seal_def xchacha.length_seal TagSize_def)
  ultimately show ?thesis
    by (subst Decrypt_exact) (auto simp: c intro!: exI[of _ "replicate 24 1"] exI[of _ 3])
qed

text \<open>
  C30. Post-quantum responses. If a response is made with the key of the query and carries a control
  block, \<open>Decrypt\<close> returns the packet and updates the session by what the control block says, and by
  nothing else; this holds although the control block is processed before the padding is checked.
\<close>

theorem Decrypt_pq:
  assumes c: "si_CryptoConstruction s = XWingPQ" and key: "length key = 32"
    and "length serverNonce = 24" "take 12 serverNonce = take 12 nonce"
    and "lifetime < 2 ^ 32" "length (pq_control_block lifetime ticket extra) < 65536"
    and p: "17 \<le> length p"
    and plain_def: "plain = put_u16 (length (pq_control_block lifetime ticket extra)) @
       pq_control_block lifetime ticket extra @ (p @ 0x80 # replicate k 0)"
    and size: "48 + length plain \<le> 4144"
  shows "Decrypt P px now s key (ServerMagic @ serverNonce @ response_seal P XWingPQ serverNonce key plain)
      nonce epoch =
    (Inr p,
     if length ticket \<le> max_ticket \<and> epoch = networkEpoch px
     then s\<lparr>si_pqSession := pqSession_store ticket (pqResumeSecret P key (si_MagicQuery s) nonce)
            (time_add now (int lifetime * second)) epoch (si_pqSession s)\<rparr>
     else s)"
proof -
  define e where "e = ServerMagic @ serverNonce @ response_seal P XWingPQ serverNonce key plain"
  have "length e = 48 + length plain"
    using assms(3) by (simp add: e_def response_seal_def xchacha.length_seal TagSize_def)
  moreover have "length plain \<ge> 17" using p by (simp add: plain_def)
  ultimately have "response_ok P XWingPQ key nonce e plain"
    unfolding response_ok_def using assms(3,4) size e_def by auto
  note op = this[folded Decrypt_opened[OF key]]
  have strip: "pqStripControl P px now s key nonce plain epoch = (Inr (p @ 0x80 # replicate k 0),
     if length ticket \<le> max_ticket \<and> epoch = networkEpoch px
     then s\<lparr>si_pqSession := pqSession_store ticket (pqResumeSecret P key (si_MagicQuery s) nonce)
            (time_add now (int lifetime * second)) epoch (si_pqSession s)\<rparr>
     else s)"
    unfolding plain_def by (rule pqStripControl_frame[OF assms(5,6)])
  have "response_unpad (p @ 0x80 # replicate k 0) = Inr p" using p by (auto simp: response_unpad_iff)
  with op strip c show ?thesis unfolding e_def[symmetric] Decrypt_unfold by auto
qed

theorem Decrypt_pq_witness:
  "fst (Decrypt example_prims example_proxy 0 example_pq_server (replicate 32 1)
      (ServerMagic @ replicate 24 1 @ response_seal example_prims XWingPQ (replicate 24 1) (replicate 32 1)
        (put_u16 (length (pq_control_block 60 [8, 9] [])) @ pq_control_block 60 [8, 9] [] @
         (replicate 17 7 @ 0x80 # replicate 3 0))) (replicate 12 1) 3)
   = Inr (replicate 17 7)"
  by (subst Decrypt_pq[OF _ _ _ _ _ _ _ refl])
    (simp_all add: example_pq_server_def pq_control_block_def)



end
