(* ===== verification/Dns_Msg.thy ===== *)
theory Dns_Msg
  imports Common
begin

text \<open>
  DNS messages as the proxy sees them through the \<^verbatim>\<open>miekg/dns\<close> package: header fields, questions,
  resource records and the EDNS0 options that the package keeps in the pseudo section. Only the record
  types that the proxy inspects or makes have a constructor of their own (the arguments of \<open>RD_SOA\<close> are the
  primary server, the mailbox, serial, refresh, retry, expire and minimum); the others keep their type
  code. Parsing and serialisation of messages and the comparison of names belong to the package and are
  parameters, collected in \<open>dns_lib\<close>.
\<close>

section \<open>Records\<close>

datatype rdata =
    RD_A bytes
  | RD_AAAA bytes
  | RD_CNAME string
  | RD_PTR string
  | RD_TXT "string list"
  | RD_HINFO string string
  | RD_SVCB nat string
  | RD_HTTPS nat string
  | RD_SOA string string "32 word" "32 word" "32 word" "32 word" "32 word"
  | RD_OPT
  | RD_Other nat bytes

record RR =
  rr_Name :: string
  rr_Class :: nat
  rr_TTL :: "32 word"
  rr_Data :: rdata

definition ClassINET :: nat where "ClassINET = 1"
definition TypeA :: nat where "TypeA = 1"
definition TypeCNAME :: nat where "TypeCNAME = 5"
definition TypeSOA :: nat where "TypeSOA = 6"
definition TypePTR :: nat where "TypePTR = 12"
definition TypeHINFO :: nat where "TypeHINFO = 13"
definition TypeTXT :: nat where "TypeTXT = 16"
definition TypeAAAA :: nat where "TypeAAAA = 28"
definition TypeOPT :: nat where "TypeOPT = 41"
definition TypeSVCB :: nat where "TypeSVCB = 64"
definition TypeHTTPS :: nat where "TypeHTTPS = 65"

definition RcodeSuccess :: nat where "RcodeSuccess = 0"
definition RcodeServerFailure :: nat where "RcodeServerFailure = 2"
definition RcodeNameError :: nat where "RcodeNameError = 3"
definition RcodeRefused :: nat where "RcodeRefused = 5"
definition RcodeNotAuth :: nat where "RcodeNotAuth = 9"

lemmas type_codes = TypeA_def TypeCNAME_def TypeSOA_def TypePTR_def TypeHINFO_def TypeTXT_def
  TypeAAAA_def TypeOPT_def TypeSVCB_def TypeHTTPS_def
lemmas rcodes = RcodeSuccess_def RcodeServerFailure_def RcodeNameError_def RcodeRefused_def
  RcodeNotAuth_def

fun rdata_type :: "rdata \<Rightarrow> nat" where
  "rdata_type (RD_A _) = TypeA"
| "rdata_type (RD_AAAA _) = TypeAAAA"
| "rdata_type (RD_CNAME _) = TypeCNAME"
| "rdata_type (RD_PTR _) = TypePTR"
| "rdata_type (RD_TXT _) = TypeTXT"
| "rdata_type (RD_HINFO _ _) = TypeHINFO"
| "rdata_type (RD_SVCB _ _) = TypeSVCB"
| "rdata_type (RD_HTTPS _ _) = TypeHTTPS"
| "rdata_type (RD_SOA _ _ _ _ _ _ _) = TypeSOA"
| "rdata_type RD_OPT = TypeOPT"
| "rdata_type (RD_Other t _) = t"

definition RRToType :: "RR \<Rightarrow> nat" where
  "RRToType rr = rdata_type (rr_Data rr)"

section \<open>Messages\<close>

text \<open>A question: the package represents it by a record of which only these parts count.\<close>

record Question =
  q_Name :: string
  q_Type :: nat
  q_Class :: nat

datatype edns0 =
    EDE nat string
  | PADDING string
  | SUBNET nat nat nat bytes
  | TXT_option string "string list"
  | OtherOption nat bytes

record Msg =
  m_ID :: "16 word"
  m_Opcode :: nat
  m_Rcode :: nat
  m_UDPSize :: "16 word"
  m_Response :: bool
  m_Authoritative :: bool
  m_Truncated :: bool
  m_RecursionDesired :: bool
  m_RecursionAvailable :: bool
  m_AuthenticatedData :: bool
  m_CheckingDisabled :: bool
  m_Security :: bool
  m_Question :: "Question list"
  m_Answer :: "RR list"
  m_Ns :: "RR list"
  m_Extra :: "RR list"
  m_Pseudo :: "edns0 list"

definition zero_Msg :: Msg where
  "zero_Msg =
     \<lparr>m_ID = 0, m_Opcode = 0, m_Rcode = 0, m_UDPSize = 0, m_Response = False,
      m_Authoritative = False, m_Truncated = False, m_RecursionDesired = False,
      m_RecursionAvailable = False, m_AuthenticatedData = False, m_CheckingDisabled = False,
      m_Security = False, m_Question = [], m_Answer = [], m_Ns = [], m_Extra = [], m_Pseudo = []\<rparr>"

record dns_lib =
  dl_Unpack :: "bytes \<Rightarrow> Msg option"
  dl_Pack :: "Msg \<Rightarrow> bytes option"
  dl_EqualName :: "string \<Rightarrow> string \<Rightarrow> bool"

end
