(* ===== verification/Dns_Utils.thy ===== *)
theory Dns_Utils
  imports Dns_Msg
begin

text \<open>
  The helpers of \<^verbatim>\<open>dnscrypt-proxy/dnsutils.go\<close> on packets and messages: validation of a response
  against its query, synthetic responses, access to the header of a raw packet, normalisation of query
  names, cache lifetimes, EDNS0 padding, decoding of TXT data and the certificate exchange.
\<close>

section \<open>Validation of responses\<close>

datatype response_error =
    UnexpectedNumberOfQuestions | QuestionMismatch | MissingMessage | NotAResponse | IDMismatch

text \<open>A nil message is \<open>None\<close>; \<open>None\<close> as a result is the nil error.\<close>

definition validateResponseQuestion ::
  "dns_lib \<Rightarrow> Msg option \<Rightarrow> Msg option \<Rightarrow> response_error option" where
  "validateResponseQuestion L query response =
     (case (query, response) of
        (Some q, Some r) \<Rightarrow>
          (case (m_Question q, m_Question r) of
             ([qQ], [rQ]) \<Rightarrow>
               if q_Type qQ \<noteq> q_Type rQ \<or> q_Class qQ \<noteq> q_Class rQ \<or>
                  \<not> dl_EqualName L (q_Name qQ) (q_Name rQ)
               then Some QuestionMismatch else None
           | _ \<Rightarrow> Some UnexpectedNumberOfQuestions)
      | _ \<Rightarrow> Some UnexpectedNumberOfQuestions)"

definition validateResponseForQuery ::
  "dns_lib \<Rightarrow> Msg option \<Rightarrow> Msg option \<Rightarrow> response_error option" where
  "validateResponseForQuery L query response =
     (case (query, response) of
        (Some q, Some r) \<Rightarrow>
          if \<not> m_Response r then Some NotAResponse
          else if m_ID r \<noteq> m_ID q then Some IDMismatch
          else validateResponseQuestion L query response
      | _ \<Rightarrow> Some MissingMessage)"

section \<open>Synthetic responses\<close>

definition EmptyResponseFromMessage :: "Msg \<Rightarrow> Msg" where
  "EmptyResponseFromMessage srcMsg =
     (let dstMsg = zero_Msg\<lparr>m_ID := m_ID srcMsg, m_Opcode := m_Opcode srcMsg,
            m_Question := m_Question srcMsg, m_Response := True, m_RecursionAvailable := True,
            m_RecursionDesired := m_RecursionDesired srcMsg, m_CheckingDisabled := False,
            m_AuthenticatedData := False\<rparr>
      in if m_UDPSize srcMsg > 0
         then dstMsg\<lparr>m_UDPSize := m_UDPSize srcMsg, m_Security := m_Security srcMsg\<rparr>
         else dstMsg)"

definition TruncatedResponse :: "dns_lib \<Rightarrow> bytes \<Rightarrow> bytes option" where
  "TruncatedResponse L packet =
     (case dl_Unpack L packet of
        None \<Rightarrow> None
      | Some srcMsg \<Rightarrow> dl_Pack L ((EmptyResponseFromMessage srcMsg)\<lparr>m_Truncated := True\<rparr>))"

definition ExtendedErrorForgedAnswer :: nat where "ExtendedErrorForgedAnswer = 4"
definition ExtendedErrorFiltered :: nat where "ExtendedErrorFiltered = 17"

text \<open>
  \<^verbatim>\<open>net.IP.To4\<close> and \<^verbatim>\<open>To16\<close> on the byte sequence of an address.
\<close>

definition v4_prefix :: bytes where
  "v4_prefix = replicate 10 0 @ [0xff, 0xff]"

definition To4 :: "bytes \<Rightarrow> bytes option" where
  "To4 ip =
     (if length ip = 4 then Some ip
      else if length ip = 16 \<and> take 12 ip = v4_prefix then Some (drop 12 ip)
      else None)"

definition To16 :: "bytes \<Rightarrow> bytes option" where
  "To16 ip =
     (if length ip = 4 then Some (v4_prefix @ ip) else if length ip = 16 then Some ip else None)"

definition blocked_hinfo :: "string \<Rightarrow> 32 word \<Rightarrow> RR" where
  "blocked_hinfo qname ttl =
     \<lparr>rr_Name = qname, rr_Class = ClassINET, rr_TTL = ttl,
      rr_Data = RD_HINFO ''This query has been locally blocked'' ''by dnscrypt-proxy''\<rparr>"

text \<open>The synthetic address record of a blocked query, if the type asks for one and it is configured.\<close>

definition forged_answer ::
  "Question \<Rightarrow> bytes option \<Rightarrow> bytes option \<Rightarrow> 32 word \<Rightarrow> RR option" where
  "forged_answer question ipv4 ipv6 ttl =
     (if ipv4 \<noteq> None \<and> q_Type question = TypeA
      then case To4 (the ipv4) of
             None \<Rightarrow> None
           | Some ip4 \<Rightarrow> Some \<lparr>rr_Name = q_Name question, rr_Class = ClassINET, rr_TTL = ttl,
                             rr_Data = RD_A ip4\<rparr>
      else if ipv6 \<noteq> None \<and> q_Type question = TypeAAAA
      then case To16 (the ipv6) of
             None \<Rightarrow> None
           | Some ip6 \<Rightarrow> Some \<lparr>rr_Name = q_Name question, rr_Class = ClassINET, rr_TTL = ttl,
                             rr_Data = RD_AAAA ip6\<rparr>
      else None)"

text \<open>
  The extended error goes into the pseudo section if the query used EDNS0; the source appends a
  pointer first and completes what it points to afterwards.
\<close>

definition add_ede :: "nat \<Rightarrow> string \<Rightarrow> Msg \<Rightarrow> Msg" where
  "add_ede infoCode extraText msg =
     (if m_UDPSize msg > 0 then msg\<lparr>m_Pseudo := m_Pseudo msg @ [EDE infoCode extraText]\<rparr> else msg)"

definition RefusedResponseFromMessage ::
  "Msg \<Rightarrow> bool \<Rightarrow> bytes option \<Rightarrow> bytes option \<Rightarrow> 32 word \<Rightarrow> Msg" where
  "RefusedResponseFromMessage srcMsg refusedCode ipv4 ipv6 ttl =
     (let dstMsg = EmptyResponseFromMessage srcMsg
      in if refusedCode
         then add_ede ExtendedErrorFiltered [] (dstMsg\<lparr>m_Rcode := RcodeRefused\<rparr>)
         else case m_Question srcMsg of
                [] \<Rightarrow> add_ede ExtendedErrorFiltered [] (dstMsg\<lparr>m_Rcode := RcodeSuccess\<rparr>)
              | question # _ \<Rightarrow>
                  (case forged_answer question ipv4 ipv6 ttl of
                     Some rr \<Rightarrow>
                       add_ede ExtendedErrorForgedAnswer
                         ''This query has been locally blocked by dnscrypt-proxy''
                         (dstMsg\<lparr>m_Rcode := RcodeSuccess, m_Answer := [rr]\<rparr>)
                   | None \<Rightarrow>
                       add_ede ExtendedErrorFiltered []
                         (dstMsg\<lparr>m_Rcode := RcodeSuccess,
                                m_Answer := [blocked_hinfo (q_Name question) ttl]\<rparr>)))"

section \<open>Raw packets\<close>

text \<open>The callers have checked that the packet has at least the 17 bytes these functions index.\<close>

definition HasTCFlag :: "bytes \<Rightarrow> bool" where
  "HasTCFlag packet \<longleftrightarrow> packet ! 2 AND 2 = 2"

definition TransactionID :: "bytes \<Rightarrow> nat" where
  "TransactionID packet = be_val (go_slice packet 0 2)"

definition SetTransactionID :: "bytes \<Rightarrow> nat \<Rightarrow> bytes" where
  "SetTransactionID packet tid = put_u16 tid @ drop 2 packet"

definition Rcode :: "bytes \<Rightarrow> byte" where
  "Rcode packet = packet ! 3 AND 0xf"

definition NormalizeRawQName :: "bytes \<Rightarrow> bytes" where
  "NormalizeRawQName name = map (\<lambda>c. if c \<ge> 65 \<and> c \<le> 90 then c + 32 else c) name"

section \<open>Query names\<close>

definition is_upper :: "char \<Rightarrow> bool" where
  "is_upper c \<longleftrightarrow> 65 \<le> (of_char c :: nat) \<and> (of_char c :: nat) \<le> 90"

definition lower_char :: "char \<Rightarrow> char" where
  "lower_char c = (if is_upper c then char_of (of_char c + (32 :: nat)) else c)"

definition trim_dot :: "string \<Rightarrow> string" where
  "trim_dot s = (if s \<noteq> [] \<and> last s = CHR ''.'' then butlast s else s)"

text \<open>The first loop: \<open>None\<close> on a byte outside ASCII, otherwise whether a capital letter occurs.\<close>

primrec scan_qname :: "string \<Rightarrow> bool \<Rightarrow> bool option" where
  "scan_qname [] hasUpper = Some hasUpper"
| "scan_qname (c # cs) hasUpper =
     (if (of_char c :: nat) \<ge> 0x80 then None else scan_qname cs (hasUpper \<or> is_upper c))"

definition NormalizeQName :: "string \<Rightarrow> string option" where
  "NormalizeQName str0 =
     (if str0 = [] \<or> str0 = ''.'' then Some ''.''
      else let str = trim_dot str0
           in case scan_qname str False of
                None \<Rightarrow> None
              | Some False \<Rightarrow> Some str
              | Some True \<Rightarrow> Some (map lower_char str))"

section \<open>Cache lifetimes\<close>

primrec min_ttl_loop :: "RR list \<Rightarrow> 32 word \<Rightarrow> 32 word" where
  "min_ttl_loop [] ttl = ttl"
| "min_ttl_loop (rr # rrs) ttl = min_ttl_loop rrs (if rr_TTL rr < ttl then rr_TTL rr else ttl)"

definition seconds :: "32 word \<Rightarrow> duration" where
  "seconds ttl = uint ttl * second"

definition getMinTTL :: "Msg \<Rightarrow> 32 word \<Rightarrow> 32 word \<Rightarrow> 32 word \<Rightarrow> 32 word \<Rightarrow> duration" where
  "getMinTTL msg minTTL maxTTL cacheNegMinTTL cacheNegMaxTTL =
     (if (m_Rcode msg \<noteq> RcodeSuccess \<and> m_Rcode msg \<noteq> RcodeNameError) \<or>
         (m_Answer msg = [] \<and> m_Ns msg = [])
      then seconds cacheNegMinTTL
      else let ttl0 = (if m_Rcode msg = RcodeSuccess then maxTTL else cacheNegMaxTTL);
               ttl = min_ttl_loop (if m_Answer msg \<noteq> [] then m_Answer msg else m_Ns msg) ttl0;
               floor_ttl = (if m_Rcode msg = RcodeSuccess then minTTL else cacheNegMinTTL)
           in seconds (if ttl < floor_ttl then floor_ttl else ttl))"

definition remaining_ttl :: "duration \<Rightarrow> 32 word" where
  "remaining_ttl until =
     (if until > 0
      then let ttl = word_of_int (until div second)
           in if until - uint ttl * second \<ge> second div 2 then ttl + 1 else ttl
      else 0)"

definition set_ttl :: "32 word \<Rightarrow> RR \<Rightarrow> RR" where
  "set_ttl ttl rr = rr\<lparr>rr_TTL := ttl\<rparr>"

definition updateTTL :: "go_time \<Rightarrow> Msg \<Rightarrow> go_time \<Rightarrow> Msg" where
  "updateTTL now msg expiration =
     (let ttl = remaining_ttl (time_sub expiration now)
      in msg\<lparr>m_Answer := map (set_ttl ttl) (m_Answer msg),
             m_Ns := map (set_ttl ttl) (m_Ns msg),
             m_Extra := map (\<lambda>rr. if RRToType rr \<noteq> TypeOPT then set_ttl ttl rr else rr) (m_Extra msg)\<rparr>)"

section \<open>EDNS0\<close>

definition is_padding :: "edns0 \<Rightarrow> bool" where
  "is_padding o1 = (case o1 of PADDING _ \<Rightarrow> True | _ \<Rightarrow> False)"

definition hasEDNS0Padding :: "dns_lib \<Rightarrow> bytes \<Rightarrow> bool option" where
  "hasEDNS0Padding L packet =
     (case dl_Unpack L packet of
        None \<Rightarrow> None
      | Some msg \<Rightarrow> Some (\<exists>o1 \<in> set (m_Pseudo msg). is_padding o1))"

definition repeat_str :: "string \<Rightarrow> nat \<Rightarrow> string" where
  "repeat_str s n = concat (replicate n s)"

text \<open>The result is the packet (\<open>None\<close> if packing fails) and the changed message.\<close>

definition addEDNS0PaddingIfNoneFound ::
  "dns_lib \<Rightarrow> Msg \<Rightarrow> bytes \<Rightarrow> nat \<Rightarrow> bytes option \<times> Msg" where
  "addEDNS0PaddingIfNoneFound L msg0 unpaddedPacket paddingLen =
     (let msg = (if m_UDPSize msg0 = 0 then msg0\<lparr>m_UDPSize := of_nat MaxDNSPacketSize\<rparr> else msg0)
      in if \<exists>o1 \<in> set (m_Pseudo msg). is_padding o1 then (Some unpaddedPacket, msg)
         else let msg' = msg\<lparr>m_Pseudo := m_Pseudo msg @ [PADDING (repeat_str ''58'' paddingLen)]\<rparr>
              in (dl_Pack L msg', msg'))"

definition removeEDNS0Options :: "Msg \<Rightarrow> bool \<times> Msg" where
  "removeEDNS0Options msg =
     (if m_Pseudo msg = [] then (False, msg) else (True, msg\<lparr>m_Pseudo := []\<rparr>))"

section \<open>TXT data\<close>

definition isDigit :: "byte \<Rightarrow> bool" where
  "isDigit b \<longleftrightarrow> b \<ge> 48 \<and> b \<le> 57"

definition dddToByte :: "bytes \<Rightarrow> byte option" where
  "dddToByte s =
     (let n = uint (s ! 0 - 48) * 100 + uint (s ! 1 - 48) * 10 + uint (s ! 2 - 48)
      in if n > 255 then None else Some (word_of_int n))"

text \<open>The loop of \<^verbatim>\<open>PackTXTRR\<close> on what is left of the input.\<close>

fun pack_txt_loop :: "bytes \<Rightarrow> bytes" where
  "pack_txt_loop [] = []"
| "pack_txt_loop (b # bs) =
     (if b = 92
      then (case bs of
              [] \<Rightarrow> []
            | c # cs \<Rightarrow>
                if length bs > 2 \<and> isDigit (bs ! 0) \<and> isDigit (bs ! 1) \<and> isDigit (bs ! 2)
                then (case dddToByte bs of None \<Rightarrow> [] | Some v \<Rightarrow> [v]) @ pack_txt_loop (drop 3 bs)
                else if c = 116 then 9 # pack_txt_loop cs
                else if c = 114 then 13 # pack_txt_loop cs
                else if c = 110 then 10 # pack_txt_loop cs
                else c # pack_txt_loop cs)
      else b # pack_txt_loop bs)"

definition PackTXTRR :: "string \<Rightarrow> bytes" where
  "PackTXTRR s = pack_txt_loop (str_bytes s)"

section \<open>The certificate exchange\<close>

text \<open>
  A response as it arrives on the channel. Every probe has priority 0, so the first successful one is
  taken and the others are cancelled.
\<close>

record DNSExchangeResponse =
  ex_response :: Msg
  ex_rtt :: duration
  ex_priority :: int
  ex_fragmentsBlocked :: bool

primrec collect_responses ::
  "('e + DNSExchangeResponse) list \<Rightarrow> DNSExchangeResponse option \<Rightarrow> 'e option \<Rightarrow>
   DNSExchangeResponse option \<times> 'e option" where
  "collect_responses [] best err = (best, err)"
| "collect_responses (r # rs) best err =
     (case r of
        Inl e \<Rightarrow> collect_responses rs best (Some e)
      | Inr o1 \<Rightarrow>
          if (case best of
                None \<Rightarrow> True
              | Some b \<Rightarrow> ex_priority o1 < ex_priority b \<or>
                         (ex_priority o1 = ex_priority b \<and> ex_rtt o1 < ex_rtt b))
          then (if ex_priority o1 = 0 then (Some o1, err) else collect_responses rs (Some o1) err)
          else collect_responses rs best err)"

text \<open>
  One round of probes: for each of three tries a large probe (if fragments are worth trying) and a
  small one, each with its own message identifier. The probes that a round sends are the list of
  identifier offset, delay in milliseconds and padded length.
\<close>

definition certProbePaddedLen :: int where "certProbePaddedLen = 3200"
definition certProbeFragmentsBlockedLen :: int where "certProbeFragmentsBlockedLen = 480"

primrec probes_from :: "nat list \<Rightarrow> bool \<Rightarrow> nat \<Rightarrow> (nat \<times> nat \<times> int \<times> bool) list" where
  "probes_from [] frag options = []"
| "probes_from (t # ts) frag options =
     (let big = (if frag then [(options, 200 * t, certProbePaddedLen, False)] else []);
          options1 = (if frag then options + 1 else options);
          small = [(options1, 250 * t + (if frag then 250 else 0), certProbeFragmentsBlockedLen, True)]
      in big @ small @ probes_from ts frag (options1 + 1))"

definition exchange_probes :: "bool \<Rightarrow> (nat \<times> nat \<times> int \<times> bool) list" where
  "exchange_probes tryFragmentsSupport = probes_from [0, 1, 2] tryFragmentsSupport 0"

text \<open>
  \<^verbatim>\<open>DNSExchange\<close>: the arrivals of the round through the relay and, if that fails and the fallback is
  enabled, of the direct round. The arrivals of a round depend on whether the relay is used; \<open>None\<close> as
  the error is the one made up when no probe reported any.
\<close>

definition DNSExchange ::
  "bool \<Rightarrow> bool \<Rightarrow> (bool \<Rightarrow> ('e + DNSExchangeResponse) list) \<Rightarrow>
   'e option + Msg \<times> duration \<times> bool" where
  "DNSExchange anonDirectCertFallback viaRelay arrivals =
     (case collect_responses (arrivals viaRelay) None None of
        (Some best, _) \<Rightarrow> Inr (ex_response best, ex_rtt best, ex_fragmentsBlocked best)
      | (None, err) \<Rightarrow>
          if \<not> viaRelay \<or> \<not> anonDirectCertFallback then Inl err
          else (case collect_responses (arrivals False) None None of
                  (Some best, _) \<Rightarrow> Inr (ex_response best, ex_rtt best, ex_fragmentsBlocked best)
                | (None, err') \<Rightarrow> Inl err'))"

datatype pack_error = PackFailed | PaddedLengthTooSmall

definition anonymizedDNSHeaderSize :: int where "anonymizedDNSHeaderSize = 8 + 2 + 16 + 2"

definition pack_msg :: "dns_lib \<Rightarrow> Msg \<Rightarrow> pack_error + bytes" where
  "pack_msg L msg = (case dl_Pack L msg of None \<Rightarrow> Inl PackFailed | Some b \<Rightarrow> Inr b)"

definition with_padding :: "Msg \<Rightarrow> string \<Rightarrow> Msg" where
  "with_padding query p =
     query\<lparr>m_Pseudo := m_Pseudo query @ [PADDING p],
           m_UDPSize := (if m_UDPSize query = 0 then of_nat MaxDNSPacketSize else m_UDPSize query)\<rparr>"

definition packDNSExchangeQuery ::
  "dns_lib \<Rightarrow> Msg \<Rightarrow> int \<Rightarrow> bool \<Rightarrow> pack_error + bytes" where
  "packDNSExchangeQuery L query paddedLen0 viaRelay =
     (if paddedLen0 \<le> 0 then pack_msg L query
      else let paddedLen = (if viaRelay then paddedLen0 - anonymizedDNSHeaderSize else paddedLen0)
           in if paddedLen \<le> 0 then Inl PaddedLengthTooSmall
              else case pack_msg L (with_padding query []) of
                     Inl e \<Rightarrow> Inl e
                   | Inr bin \<Rightarrow>
                       (let padding = paddedLen - int (length bin)
                        in if padding > 0
                           then pack_msg L (with_padding query (repeat_str ''00'' (nat padding)))
                           else Inr bin))"

section \<open>Lemmas\<close>

lemma scan_qname_eq:
  "scan_qname s b =
     (if \<forall>c \<in> set s. (of_char c :: nat) < 128 then Some (b \<or> (\<exists>c \<in> set s. is_upper c)) else None)"
  by (induction s arbitrary: b) auto

lemma lower_char_id: "\<not> is_upper c \<Longrightarrow> lower_char c = c"
  by (simp add: lower_char_def)

lemma map_lower_id: "\<not> (\<exists>c \<in> set s. is_upper c) \<Longrightarrow> map lower_char s = s"
  by (simp add: lower_char_id map_idI)

lemma min_ttl_loop_le: "min_ttl_loop rrs t \<le> t"
proof (induction rrs arbitrary: t)
  case Nil
  then show ?case by simp
next
  case (Cons rr rrs)
  show ?case
    using Cons[of "rr_TTL rr"] Cons[of t] by (auto intro: order_trans less_imp_le)
qed

lemma min_ttl_loop_mem: "rr \<in> set rrs \<Longrightarrow> min_ttl_loop rrs t \<le> rr_TTL rr"
proof (induction rrs arbitrary: t)
  case Nil
  then show ?case by simp
next
  case (Cons x rrs)
  show ?case
  proof (cases "rr = x")
    case True
    have "min_ttl_loop rrs (if rr_TTL x < t then rr_TTL x else t) \<le> (if rr_TTL x < t then rr_TTL x else t)"
      by (rule min_ttl_loop_le)
    then show ?thesis using True by (auto intro: order_trans split: if_splits)
  next
    case False
    then show ?thesis using Cons by simp
  qed
qed

lemma min_ttl_loop_cases: "min_ttl_loop rrs t = t \<or> (\<exists>rr \<in> set rrs. min_ttl_loop rrs t = rr_TTL rr)"
proof (induction rrs arbitrary: t)
  case Nil
  then show ?case by simp
next
  case (Cons x rrs)
  then show ?case using Cons[of "rr_TTL x"] Cons[of t] by auto
qed

lemma seconds_mono: "a \<le> b \<Longrightarrow> seconds a \<le> seconds b"
  by (simp add: seconds_def second_def word_le_def)

text \<open>The pieces of an escaped text: a plain byte, three decimal digits, or a quoted character.\<close>

datatype txt_item = Plain byte | Ddd byte | Quoted byte

fun txt_render :: "txt_item \<Rightarrow> bytes" where
  "txt_render (Plain b) = [b]"
| "txt_render (Ddd b) =
     [92, 48 + word_of_nat (unat b div 100), 48 + word_of_nat (unat b div 10 mod 10),
      48 + word_of_nat (unat b mod 10)]"
| "txt_render (Quoted b) = [92, b]"

fun txt_value :: "txt_item \<Rightarrow> byte" where
  "txt_value (Plain b) = b"
| "txt_value (Ddd b) = b"
| "txt_value (Quoted b) = b"

fun txt_ok :: "txt_item \<Rightarrow> bool" where
  "txt_ok (Plain b) = (b \<noteq> 92)"
| "txt_ok (Ddd b) = True"
| "txt_ok (Quoted b) = (\<not> isDigit b \<and> b \<notin> {116, 114, 110})"

lemma unat_digit: "n < 10 \<Longrightarrow> unat ((48 :: byte) + word_of_nat n) = 48 + n"
  by (simp add: unat_word_ariths unat_of_nat take_bit_nat_eq_self)

lemma isDigit_digit: "n < 10 \<Longrightarrow> isDigit (48 + word_of_nat n)"
  by (simp add: isDigit_def word_le_nat_alt unat_digit)

lemma digit_value: "n < 256 \<Longrightarrow> uint (word_of_nat n :: byte) = int n"
  by (simp add: unsigned_of_nat take_bit_nat_eq_self)

lemma decimal_digits: "(n :: nat) div 100 * 100 + n div 10 mod 10 * 10 + n mod 10 = n"
proof -
  obtain a d where a: "a = n div 10" and d: "d = n mod 10" by blast
  obtain h t where h: "h = a div 10" and t: "t = a mod 10" by blast
  have "n = a * 10 + d" "a = h * 10 + t" by (simp_all add: a d h t)
  moreover have "n div 100 = h" using div_mult2_eq[of n 10 10] by (simp add: h a)
  ultimately show ?thesis unfolding a[symmetric] d[symmetric] t[symmetric] by simp
qed

lemma dddToByte_digits:
  assumes "bs = [48 + word_of_nat (unat b div 100), 48 + word_of_nat (unat b div 10 mod 10),
      48 + word_of_nat (unat b mod 10)] @ rest"
  shows "dddToByte bs = Some b"
proof -
  obtain n where n: "n = unat b" by blast
  have b: "n < 256" using unsigned_less[of b] by (simp add: n)
  have "int (n div 100) * 100 + int (n div 10 mod 10) * 10 + int (n mod 10) = int n"
    using arg_cong[OF decimal_digits[of n], of int] by (simp only: of_nat_add of_nat_mult of_nat_numeral)
  then have "uint (word_of_nat (n div 100) :: byte) * 100 + uint (word_of_nat (n div 10 mod 10) :: byte) * 10
      + uint (word_of_nat (n mod 10) :: byte) = int n"
    using b by (subst (1 2 3) digit_value) simp_all
  then have "dddToByte bs = (if int n > 255 then None else Some (word_of_int (int n)))"
    unfolding assms n[symmetric] dddToByte_def Let_def by simp
  then have "dddToByte bs = Some (word_of_nat n)" using b by simp
  then show ?thesis by (simp add: n)
qed

lemma pack_txt_render: "txt_ok i \<Longrightarrow> pack_txt_loop (txt_render i @ rest) = txt_value i # pack_txt_loop rest"
proof (cases i)
  case (Ddd b)
  have "unat b < 256" using unsigned_less[of b] by simp
  then show ?thesis using Ddd by (simp add: isDigit_digit dddToByte_digits)
qed (auto split: list.splits)

lemma pack_txt_items:
  "\<forall>i \<in> set items. txt_ok i \<Longrightarrow> pack_txt_loop (concat (map txt_render items)) = map txt_value items"
  by (induction items) (auto simp: pack_txt_render)

lemma EmptyResponse_valid:
  assumes "\<And>n. dl_EqualName L n n" "length (m_Question q) = 1"
    and "m_Response r" "m_ID r = m_ID q" "m_Question r = m_Question q"
  shows "validateResponseForQuery L (Some q) (Some r) = None"
proof -
  obtain x where "m_Question q = [x]" using assms(2) by (cases "m_Question q") auto
  then show ?thesis using assms by (simp add: validateResponseForQuery_def validateResponseQuestion_def)
qed

lemma EmptyResponse_fields:
  "m_Response (EmptyResponseFromMessage q)" "m_ID (EmptyResponseFromMessage q) = m_ID q"
  "m_Question (EmptyResponseFromMessage q) = m_Question q"
  "m_Answer (EmptyResponseFromMessage q) = []" "m_Ns (EmptyResponseFromMessage q) = []"
  by (simp_all add: EmptyResponseFromMessage_def Let_def zero_Msg_def)

lemma Refused_fields:
  "m_Response (RefusedResponseFromMessage q rc v4 v6 ttl)"
  "m_ID (RefusedResponseFromMessage q rc v4 v6 ttl) = m_ID q"
  "m_Question (RefusedResponseFromMessage q rc v4 v6 ttl) = m_Question q"
  by (cases "m_Question q"; cases "forged_answer (hd (m_Question q)) v4 v6 ttl";
      simp add: RefusedResponseFromMessage_def Let_def EmptyResponse_fields add_ede_def)+

lemma packDNSExchangeQuery_pos:
  assumes "paddedLen > 28"
  shows "packDNSExchangeQuery L query paddedLen viaRelay =
    (case pack_msg L (with_padding query []) of
       Inl e \<Rightarrow> Inl e
     | Inr bin \<Rightarrow>
         if (if viaRelay then paddedLen - 28 else paddedLen) - int (length bin) > 0
         then pack_msg L (with_padding query (repeat_str ''00''
                (nat ((if viaRelay then paddedLen - 28 else paddedLen) - int (length bin)))))
         else Inr bin)"
  using assms
  by (cases "pack_msg L (with_padding query [])")
    (simp_all add: packDNSExchangeQuery_def anonymizedDNSHeaderSize_def Let_def)

fun first_success :: "('e + 'a) list \<Rightarrow> 'a option" where
  "first_success [] = None"
| "first_success (Inl e # rs) = first_success rs"
| "first_success (Inr x # rs) = Some x"

lemma collect_first_success:
  "(\<And>x. Inr x \<in> set rs \<Longrightarrow> ex_priority x = 0) \<Longrightarrow>
     fst (collect_responses rs None err) = first_success rs"
  by (induction rs arbitrary: err rule: first_success.induct) auto

section \<open>Properties\<close>

text \<open>
  C32. Query names. \<open>NormalizeQName\<close>, with its separate path for names without capitals, computes the
  lower-case form of the name without the trailing dot; it fails exactly on names with a byte outside
  ASCII, and maps the root in both spellings to a single dot.
\<close>

theorem NormalizeQName_spec:
  "NormalizeQName s =
     (if s = [] \<or> s = ''.'' then Some ''.''
      else if \<forall>c \<in> set (trim_dot s). (of_char c :: nat) < 128 then Some (map lower_char (trim_dot s))
      else None)"
  by (auto simp: NormalizeQName_def scan_qname_eq Let_def map_lower_id split: bool.split)

theorem NormalizeQName_spec_witness: "NormalizeQName ''Example.COM.'' = Some ''example.com''"
  by (subst NormalizeQName_spec) code_simp

text \<open>
  C33. TXT decoding. \<open>PackTXTRR\<close> recovers the bytes of a TXT string from any mixture of plain bytes,
  decimal escapes and quoted characters, as name servers and the DNS package write them.
\<close>

theorem PackTXTRR_decodes:
  assumes "\<forall>i \<in> set items. txt_ok i" "str_bytes s = concat (map txt_render items)"
  shows "PackTXTRR s = map txt_value items"
  using assms by (simp add: PackTXTRR_def pack_txt_items)

theorem PackTXTRR_decodes_witness:
  "PackTXTRR [CHR ''D'', CHR 0x5C, CHR ''0'', CHR ''0'', CHR ''7'', CHR 0x5C, CHR ''.'', CHR ''x'']
     = [68, 7, 46, 120]"
proof -
  have "PackTXTRR [CHR ''D'', CHR 0x5C, CHR ''0'', CHR ''0'', CHR ''7'', CHR 0x5C, CHR ''.'', CHR ''x'']
      = map txt_value [Plain 68, Ddd 7, Quoted 46, Plain 120]"
    by (rule PackTXTRR_decodes) (simp_all add: isDigit_def str_bytes_def)
  then show ?thesis by simp
qed

text \<open>
  Cache lifetimes. For a successful response with answers, the lifetime is between the configured
  bounds, is never longer than the TTL of an answer unless the lower bound asks for it, and is one of
  the bounds or the TTL of an answer.
\<close>

theorem getMinTTL_bounds:
  assumes "m_Rcode msg = RcodeSuccess" "m_Answer msg \<noteq> []" "minTTL \<le> maxTTL"
    and d_def: "d = getMinTTL msg minTTL maxTTL negMin negMax"
  shows "seconds minTTL \<le> d \<and> d \<le> seconds maxTTL \<and>
    (\<forall>rr \<in> set (m_Answer msg). d \<le> max (seconds minTTL) (seconds (rr_TTL rr))) \<and>
    (d \<in> {seconds minTTL, seconds maxTTL} \<or> (\<exists>rr \<in> set (m_Answer msg). d = seconds (rr_TTL rr)))"
proof -
  define t where "t = min_ttl_loop (m_Answer msg) maxTTL"
  have d: "d = (if t < minTTL then seconds minTTL else seconds t)"
    using assms(1,2) by (simp add: d_def getMinTTL_def Let_def t_def rcodes)
  have "t \<le> maxTTL" unfolding t_def by (rule min_ttl_loop_le)
  moreover have "\<forall>rr \<in> set (m_Answer msg). t \<le> rr_TTL rr" unfolding t_def by (simp add: min_ttl_loop_mem)
  moreover have "t = maxTTL \<or> (\<exists>rr \<in> set (m_Answer msg). t = rr_TTL rr)"
    unfolding t_def by (rule min_ttl_loop_cases)
  ultimately show ?thesis
    using assms(3) unfolding d by (auto simp: not_less intro: seconds_mono le_max_iff_disj[THEN iffD2])
qed

theorem getMinTTL_bounds_witness:
  "seconds 60 \<le> getMinTTL (zero_Msg\<lparr>m_Answer := [blocked_hinfo ''x'' 300]\<rparr>) 60 86400 60 600"
  using getMinTTL_bounds[of "zero_Msg\<lparr>m_Answer := [blocked_hinfo ''x'' 300]\<rparr>" 60 86400 _ 60 600]
  by (simp add: zero_Msg_def rcodes)

text \<open>
  TTLs of cached answers. The TTL that \<open>updateTTL\<close> writes into every record but OPT is the time left
  rounded to the nearest second (half a second up), and 0 for an entry that has expired.
\<close>

theorem updateTTL_rounds:
  assumes left: "left = time_sub expiration now" "left < (2 ^ 32 - 1) * second"
  defines "ttl \<equiv> word_of_int (if left \<le> 0 then 0 else (left + second div 2) div second)"
  shows "updateTTL now msg expiration =
      msg\<lparr>m_Answer := map (set_ttl ttl) (m_Answer msg), m_Ns := map (set_ttl ttl) (m_Ns msg),
          m_Extra := map (\<lambda>rr. if RRToType rr \<noteq> TypeOPT then set_ttl ttl rr else rr) (m_Extra msg)\<rparr> \<and>
    uint ttl = (if left \<le> 0 then 0 else (left + second div 2) div second)"
proof -
  have "remaining_ttl left = ttl \<and>
      uint ttl = (if left \<le> 0 then 0 else (left + second div 2) div second)"
  proof (cases "left \<le> 0")
    case True
    then show ?thesis by (simp add: remaining_ttl_def ttl_def)
  next
    case False
    define q r where "q = left div second" and "r = left mod second"
    have qr: "left = q * second + r" "0 \<le> r" "r < second"
      by (simp_all add: q_def r_def second_def)
    have q: "0 \<le> q" "q < 2 ^ 32 - 1" using False left(2) qr by (auto simp: second_def)
    have u: "uint (word_of_int q :: 32 word) = q"
      using q by (simp add: unsigned_of_int take_bit_int_eq_self)
    have n: "(left + second div 2) div second = (if r \<ge> second div 2 then q + 1 else q)"
    proof (cases "r \<ge> second div 2")
      case True
      then show ?thesis
        using qr by (simp add: second_def int_div_pos_eq[of _ _ "q + 1" "r - 500000000"])
    next
      case False
      then show ?thesis
        using qr by (simp add: second_def int_div_pos_eq[of _ _ q "r + 500000000"])
    qed
    have "left - q * second = r" using qr(1) by simp
    then have "remaining_ttl left = (if r \<ge> second div 2 then word_of_int q + 1 else word_of_int q)"
      unfolding remaining_ttl_def Let_def q_def[symmetric] u using False by simp
    moreover have "uint (word_of_int (if r \<ge> second div 2 then q + 1 else q) :: 32 word) =
        (if r \<ge> second div 2 then q + 1 else q)"
      using q by (simp add: unsigned_of_int take_bit_int_eq_self)
    ultimately show ?thesis using False n by (simp add: ttl_def)
  qed
  then show ?thesis using left(1) by (simp add: updateTTL_def Let_def)
qed

theorem updateTTL_rounds_witness:
  "map rr_TTL (m_Answer (updateTTL 0 (zero_Msg\<lparr>m_Answer := [blocked_hinfo ''x'' 300]\<rparr>) 7600000000))
     = [8]"
  using updateTTL_rounds[of 7600000000 7600000000 0 "zero_Msg\<lparr>m_Answer := [blocked_hinfo ''x'' 300]\<rparr>"]
  by (simp add: second_def time_sub_def set_ttl_def)

text \<open>
  Synthetic responses answer their query. The response to a blocked query, refused or forged,
  passes the validation that the proxy applies to responses from servers, for every query with one
  question; so do the empty and the truncated response it is built from.
\<close>

theorem synthetic_responses_valid:
  assumes "\<And>n. dl_EqualName L n n" "length (m_Question q) = 1"
  shows "validateResponseForQuery L (Some q) (Some (RefusedResponseFromMessage q rc v4 v6 ttl)) = None \<and>
    validateResponseForQuery L (Some q) (Some ((EmptyResponseFromMessage q)\<lparr>m_Truncated := t\<rparr>)) = None"
  using EmptyResponse_valid[OF assms] by (simp add: Refused_fields EmptyResponse_fields)

definition example_lib :: dns_lib where
  "example_lib = \<lparr>dl_Unpack = (\<lambda>b. Some zero_Msg),
     dl_Pack = (\<lambda>m. Some (replicate (32 + (case m_Pseudo m of [PADDING p] \<Rightarrow> length p div 2 | _ \<Rightarrow> 0)) 0)),
     dl_EqualName = (=)\<rparr>"

theorem synthetic_responses_valid_witness:
  "validateResponseForQuery example_lib
     (Some (zero_Msg\<lparr>m_Question := [\<lparr>q_Name = ''a.'', q_Type = 1, q_Class = 1\<rparr>]\<rparr>))
     (Some (RefusedResponseFromMessage
        (zero_Msg\<lparr>m_Question := [\<lparr>q_Name = ''a.'', q_Type = 1, q_Class = 1\<rparr>]\<rparr>) False
        (Some [1, 2, 3, 4]) None 10)) = None"
  using synthetic_responses_valid[of example_lib
      "zero_Msg\<lparr>m_Question := [\<lparr>q_Name = ''a.'', q_Type = 1, q_Class = 1\<rparr>]\<rparr>"]
  by (simp add: example_lib_def)

text \<open>
  Size of certificate queries. If the package encodes a padding option byte for byte, then a
  certificate query, plain or behind the anonymizing header of a relay, is padded to exactly the length
  asked for, or sent unpadded if it is already longer.
\<close>

theorem packDNSExchangeQuery_length:
  assumes pack: "\<And>p. \<exists>b. dl_Pack L (with_padding query p) = Some b \<and> length b = n + length p div 2"
    and len: "paddedLen > 28"
  shows "\<exists>b. packDNSExchangeQuery L query paddedLen viaRelay = Inr b \<and>
    int (length b) + (if viaRelay then 28 else 0) =
      max paddedLen (int n + (if viaRelay then 28 else 0))"
proof -
  define l where "l = (if viaRelay then paddedLen - 28 else paddedLen)"
  have rep: "length (repeat_str ''00'' k) div 2 = k" for k
    by (simp add: repeat_str_def length_concat sum_list_replicate)
  obtain b0 where b0: "dl_Pack L (with_padding query []) = Some b0" "length b0 = n"
    using pack[of "[]"] by auto
  obtain b1 where b1: "dl_Pack L (with_padding query (repeat_str ''00'' (nat (l - int n)))) = Some b1"
    "length b1 = n + nat (l - int n)"
    using pack[of "repeat_str ''00'' (nat (l - int n))"] unfolding rep by auto
  have "packDNSExchangeQuery L query paddedLen viaRelay = (if l - int n > 0 then Inr b1 else Inr b0)"
    unfolding packDNSExchangeQuery_pos[OF len] l_def[symmetric]
    by (simp add: pack_msg_def b0 b1(1))
  moreover have "paddedLen = l + (if viaRelay then 28 else 0)" by (simp add: l_def)
  ultimately show ?thesis using b0(2) b1(2) by (cases "l - int n > 0") simp_all
qed

theorem packDNSExchangeQuery_length_witness:
  "\<exists>b. packDNSExchangeQuery example_lib zero_Msg 480 True = Inr b \<and>
     int (length b) + 28 = max 480 (int 32 + 28)"
proof -
  have "\<exists>b. dl_Pack example_lib (with_padding zero_Msg p) = Some b \<and> length b = 32 + length p div 2" for p
    by (simp add: example_lib_def zero_Msg_def with_padding_def)
  from packDNSExchangeQuery_length[OF this, of 480 True] show ?thesis by simp
qed

end
