(* ===== verification/Certs.thy ===== *)
theory Certs
  imports Crypto Dns_Utils
begin

text \<open>
  Retrieval of the certificate of a DNSCrypt server (\<^verbatim>\<open>dnscrypt-proxy/dnscrypt_certs.go\<close>): the checks
  a certificate has to pass and the choice among several. The verification of Ed25519 signatures is a
  parameter, as is the exchange of the certificate query; the current time is an argument in seconds.
\<close>

section \<open>Certificates\<close>

record CertInfo =
  ci_ServerPk :: bytes
  ci_SharedKey :: bytes
  ci_MagicQuery :: bytes
  ci_CryptoConstruction :: CryptoConstruction
  ci_ForwardSecurity :: bool
  ci_PqPublicKey :: bytes
  ci_PqCertContext :: bytes

definition zero_CertInfo :: CertInfo where
  "zero_CertInfo =
     \<lparr>ci_ServerPk = zero_key, ci_SharedKey = zero_key, ci_MagicQuery = replicate 8 0,
      ci_CryptoConstruction = UndefinedConstruction, ci_ForwardSecurity = False,
      ci_PqPublicKey = [], ci_PqCertContext = []\<rparr>"

text \<open>What the configuration and the caller fix during one retrieval.\<close>

record cert_env =
  ce_verify :: "bytes \<Rightarrow> bytes \<Rightarrow> bytes \<Rightarrow> bool"
  ce_pk :: bytes
  ce_pqDNSCrypt :: bool
  ce_certIgnoreTimestamp :: bool
  ce_now :: "32 word"

text \<open>A certificate that has passed the checks of its format and of its signature.\<close>

record parsed_cert =
  pc_bin :: bytes
  pc_construction :: CryptoConstruction
  pc_serial :: "32 word"
  pc_tsBegin :: "32 word"
  pc_tsEnd :: "32 word"

definition es_construction :: "nat \<Rightarrow> CryptoConstruction option" where
  "es_construction esVersion =
     (if esVersion = 1 then Some XSalsa20Poly1305
      else if esVersion = 2 then Some XChacha20Poly1305
      else if esVersion = 3 then Some XWingPQ
      else None)"

definition read_u32 :: "bytes \<Rightarrow> nat \<Rightarrow> 32 word" where
  "read_u32 b off = word_of_nat (be_val (go_slice b off (off + 4)))"

definition parse_cert :: "cert_env \<Rightarrow> bytes \<Rightarrow> parsed_cert option" where
  "parse_cert E binCert =
     (if length binCert < 124 then None
      else if take 4 binCert \<noteq> take 4 CertMagic then None
      else case es_construction (be_val (go_slice binCert 4 6)) of
             None \<Rightarrow> None
           | Some c \<Rightarrow>
               (let isPQ = (c = XWingPQ)
                in if isPQ \<and> \<not> ce_pqDNSCrypt E then None
                   else if isPQ \<and> length binCert < 1320 then None
                   else if \<not> ce_verify E (ce_pk E) (drop 72 binCert) (go_slice binCert 8 72) then None
                   else if isPQ \<and> (go_slice binCert 1308 1320 \<noteq> pqProfileExtension \<or>
                                  go_slice binCert 4 6 \<noteq> go_slice (go_slice binCert 1308 1320) 4 6)
                   then None
                   else let off = (if isPQ then 1296 else 112)
                        in Some \<lparr>pc_bin = binCert, pc_construction = c,
                                 pc_serial = read_u32 binCert off,
                                 pc_tsBegin = read_u32 binCert (off + 4),
                                 pc_tsEnd = read_u32 binCert (off + 8)\<rparr>))"

definition cert_dates_ok :: "cert_env \<Rightarrow> parsed_cert \<Rightarrow> bool" where
  "cert_dates_ok E c \<longleftrightarrow>
     \<not> pc_tsBegin c \<ge> pc_tsEnd c \<and>
     (ce_certIgnoreTimestamp E \<or> \<not> (ce_now E > pc_tsEnd c \<or> ce_now E < pc_tsBegin c))"

text \<open>What the loop stores when it accepts a certificate; every field is overwritten.\<close>

definition cert_info ::
  "crypto_prims \<Rightarrow> entropy \<Rightarrow> Proxy \<Rightarrow> parsed_cert \<Rightarrow> crypto_error + CertInfo" where
  "cert_info P en px c =
     (let b = pc_bin c;
          forwardSecurity = (pc_tsEnd c - pc_tsBegin c \<le> 86400 * 7)
      in if pc_construction c = XWingPQ
         then Inr \<lparr>ci_ServerPk = zero_key, ci_SharedKey = zero_key,
                   ci_MagicQuery = go_slice b 1288 1296, ci_CryptoConstruction = XWingPQ,
                   ci_ForwardSecurity = forwardSecurity, ci_PqPublicKey = go_slice b 72 1288,
                   ci_PqCertContext = (case pqCertContext b of None \<Rightarrow> [] | Some ctx \<Rightarrow> ctx)\<rparr>
         else case computeSharedKey P en px (pc_construction c) (go_slice b 72 104) of
                Inl e \<Rightarrow> Inl e
              | Inr key \<Rightarrow>
                  Inr \<lparr>ci_ServerPk = go_slice b 72 104, ci_SharedKey = key,
                       ci_MagicQuery = go_slice b 104 112,
                       ci_CryptoConstruction = pc_construction c,
                       ci_ForwardSecurity = forwardSecurity, ci_PqPublicKey = [],
                       ci_PqCertContext = []\<rparr>)"

section \<open>The loop over the answers\<close>

type_synonym cert_state = "CertInfo \<times> 32 word"

definition superseded :: "parsed_cert \<Rightarrow> cert_state \<Rightarrow> bool" where
  "superseded c st \<longleftrightarrow>
     pc_serial c < snd st \<or>
     pc_serial c = snd st \<and> pc_construction c < ci_CryptoConstruction (fst st)"

definition cert_step ::
  "crypto_prims \<Rightarrow> entropy \<Rightarrow> Proxy \<Rightarrow> cert_env \<Rightarrow> bytes \<Rightarrow> cert_state \<Rightarrow> crypto_error + cert_state" where
  "cert_step P en px E binCert st =
     (case parse_cert E binCert of
        None \<Rightarrow> Inr st
      | Some c \<Rightarrow>
          if \<not> cert_dates_ok E c then Inr st
          else if superseded c st then Inr st
          else (case cert_info P en px c of
                  Inl e \<Rightarrow> Inl e
                | Inr info \<Rightarrow> Inr (info, pc_serial c)))"

definition answer_cert :: "RR \<Rightarrow> bytes option" where
  "answer_cert rr = (case rr_Data rr of RD_TXT txts \<Rightarrow> Some (PackTXTRR (concat txts)) | _ \<Rightarrow> None)"

primrec cert_loop ::
  "crypto_prims \<Rightarrow> (nat \<Rightarrow> entropy) \<Rightarrow> Proxy \<Rightarrow> cert_env \<Rightarrow> RR list \<Rightarrow> cert_state \<Rightarrow>
   crypto_error + cert_state" where
  "cert_loop P ens px E [] st = Inr st"
| "cert_loop P ens px E (rr # rrs) st =
     (case answer_cert rr of
        None \<Rightarrow> cert_loop P (\<lambda>i. ens (Suc i)) px E rrs st
      | Some binCert \<Rightarrow>
          (case cert_step P (ens 0) px E binCert st of
             Inl e \<Rightarrow> Inl e
           | Inr st' \<Rightarrow> cert_loop P (\<lambda>i. ens (Suc i)) px E rrs st'))"

datatype fetch_error =
    InvalidPublicKeyLength | ExchangeFailed bool | NoUsableCertificate bool | CryptoFailure crypto_error

definition has_suffix :: "string \<Rightarrow> string \<Rightarrow> bool" where
  "has_suffix s suf \<longleftrightarrow> length suf \<le> length s \<and> drop (length s - length suf) s = suf"

definition has_prefix :: "string \<Rightarrow> string \<Rightarrow> bool" where
  "has_prefix s pre \<longleftrightarrow> take (length pre) s = pre"

text \<open>
  The retrieval of the answers. \<open>exchange\<close> answers a certificate query for a provider name over a
  transport, through a relay or directly, with or without the large probes: a response with its
  round-trip time, or an error, each with the verdict on fragments. A truncated response is completed
  over TCP if that works.
\<close>

type_synonym cert_exchange =
  "string \<Rightarrow> string \<Rightarrow> DNSCryptRelay option \<Rightarrow> bool \<Rightarrow> bool + Msg \<times> duration \<times> bool"

definition fetch_cert_message ::
  "bool \<Rightarrow> cert_exchange \<Rightarrow> string \<Rightarrow> string \<Rightarrow> DNSCryptRelay option \<Rightarrow> bool \<Rightarrow>
   bool + Msg \<times> duration \<times> bool" where
  "fetch_cert_message anonDirectCertFallback exchange proto providerName0 relay0 fragmentsBlocked0 =
     (let providerName =
            (if has_suffix providerName0 ''.'' then providerName0 else providerName0 @ ''.'');
          relay = (if \<not> has_prefix providerName ''2.dnscrypt-cert.'' \<and>
                      \<not> (relay0 \<noteq> None \<and> \<not> anonDirectCertFallback)
                   then None else relay0)
      in case exchange providerName proto relay (\<not> fragmentsBlocked0) of
           Inl fragmentsBlocked \<Rightarrow> Inl fragmentsBlocked
         | Inr (in1, rtt, fragmentsBlocked) \<Rightarrow>
             (if m_Truncated in1 \<and> proto \<noteq> ''tcp''
              then case exchange providerName ''tcp'' relay False of
                     Inr (inTCP, _, _) \<Rightarrow> Inr (inTCP, rtt, fragmentsBlocked)
                   | Inl _ \<Rightarrow> Inr (in1, rtt, fragmentsBlocked)
              else Inr (in1, rtt, fragmentsBlocked)))"

definition FetchCurrentDNSCryptCert ::
  "crypto_prims \<Rightarrow> (nat \<Rightarrow> entropy) \<Rightarrow> Proxy \<Rightarrow> cert_env \<Rightarrow> bool \<Rightarrow> cert_exchange \<Rightarrow>
   string \<Rightarrow> string \<Rightarrow> DNSCryptRelay option \<Rightarrow> bool \<Rightarrow> fetch_error + CertInfo \<times> int \<times> bool" where
  "FetchCurrentDNSCryptCert P ens px E anonDirectCertFallback exchange proto providerName relay
     fragmentsBlocked0 =
     (if length (ce_pk E) \<noteq> 32 then Inl InvalidPublicKeyLength
      else case fetch_cert_message anonDirectCertFallback exchange proto providerName relay
                  fragmentsBlocked0 of
             Inl fragmentsBlocked \<Rightarrow> Inl (ExchangeFailed fragmentsBlocked)
           | Inr (msg, rtt, fragmentsBlocked) \<Rightarrow>
               (case cert_loop P ens px E (m_Answer msg) (zero_CertInfo, 0) of
                  Inl e \<Rightarrow> Inl (CryptoFailure e)
                | Inr (certInfo, _) \<Rightarrow>
                    if ci_CryptoConstruction certInfo = UndefinedConstruction
                    then Inl (NoUsableCertificate fragmentsBlocked)
                    else Inr (certInfo, go_div rtt 1000000, fragmentsBlocked)))"

section \<open>The choice among certificates\<close>

text \<open>
  The certificates that count, in the order of the answers, and their rank: the serial number first,
  then the construction.
\<close>

definition acceptable :: "cert_env \<Rightarrow> RR list \<Rightarrow> parsed_cert list" where
  "acceptable E rrs =
     filter (cert_dates_ok E) (List.map_filter (parse_cert E) (List.map_filter answer_cert rrs))"

definition cert_rank :: "parsed_cert \<Rightarrow> nat \<times> nat" where
  "cert_rank c = (unat (pc_serial c), construction_code (pc_construction c))"

definition rank_le :: "nat \<times> nat \<Rightarrow> nat \<times> nat \<Rightarrow> bool" where
  "rank_le a b \<longleftrightarrow> fst a < fst b \<or> fst a = fst b \<and> snd a \<le> snd b"

lemma rank_le_trans: "rank_le a b \<Longrightarrow> rank_le b c \<Longrightarrow> rank_le a c"
  by (auto simp: rank_le_def)

lemma rank_le_total: "\<not> rank_le a b \<Longrightarrow> rank_le b a"
  by (auto simp: rank_le_def)

lemma rank_le_refl: "rank_le a a"
  by (simp add: rank_le_def)

definition selects ::
  "crypto_prims \<Rightarrow> Proxy \<Rightarrow> parsed_cert list \<Rightarrow> cert_state \<Rightarrow> bool" where
  "selects P px cs st \<longleftrightarrow>
     (if cs = [] then st = (zero_CertInfo, 0)
      else \<exists>pre c post en. cs = pre @ c # post \<and> cert_info P en px c = Inr (fst st) \<and>
             snd st = pc_serial c \<and>
             (\<forall>c' \<in> set pre. rank_le (cert_rank c') (cert_rank c)) \<and>
             (\<forall>c' \<in> set post. \<not> rank_le (cert_rank c) (cert_rank c')))"

lemma cert_info_construction:
  "cert_info P en px c = Inr info \<Longrightarrow> ci_CryptoConstruction info = pc_construction c"
  by (auto simp: cert_info_def Let_def split: if_splits sum.splits)

lemma parse_cert_construction: "parse_cert E b = Some c \<Longrightarrow> pc_construction c \<noteq> UndefinedConstruction"
  by (auto simp: parse_cert_def es_construction_def Let_def split: if_splits option.splits)

lemma superseded_rank:
  assumes "cert_info P en px c = Inr (fst st)" "snd st = pc_serial c"
  shows "superseded d st \<longleftrightarrow> \<not> rank_le (cert_rank c) (cert_rank d)"
  unfolding superseded_def rank_le_def cert_rank_def fst_conv snd_conv assms(2)
    cert_info_construction[OF assms(1)] less_CryptoConstruction_def word_less_nat_alt
    word_unat_eq_iff[of "pc_serial d"] by linarith

lemma not_superseded_initially: "\<not> superseded d (zero_CertInfo, 0)"
  by (cases "pc_construction d")
    (simp_all add: superseded_def zero_CertInfo_def less_CryptoConstruction_def)

lemma selects_cons:
  assumes "selects P px cs st" "cs \<noteq> []"
  obtains pre c post en where "cs = pre @ c # post" "cert_info P en px c = Inr (fst st)"
    "snd st = pc_serial c" "\<forall>c' \<in> set pre. rank_le (cert_rank c') (cert_rank c)"
    "\<forall>c' \<in> set post. \<not> rank_le (cert_rank c) (cert_rank c')"
  using assms by (auto simp: selects_def)

lemma selects_reject:
  assumes sel: "selects P px cs st" and rej: "superseded d st"
  shows "selects P px (cs @ [d]) st"
proof (cases "cs = []")
  case True
  then show ?thesis using sel rej not_superseded_initially by (simp add: selects_def)
next
  case False
  from selects_cons[OF sel False] obtain pre c post en where s: "cs = pre @ c # post"
    "cert_info P en px c = Inr (fst st)" "snd st = pc_serial c"
    "\<forall>c' \<in> set pre. rank_le (cert_rank c') (cert_rank c)"
    "\<forall>c' \<in> set post. \<not> rank_le (cert_rank c) (cert_rank c')" .
  have "cs @ [d] = pre @ c # (post @ [d])" using s(1) by simp
  moreover have "\<forall>c' \<in> set (post @ [d]). \<not> rank_le (cert_rank c) (cert_rank c')"
    using s(5) rej superseded_rank[OF s(2,3)] by simp
  ultimately show ?thesis unfolding selects_def using s(2,3,4) by fastforce
qed

lemma selects_accept:
  assumes sel: "selects P px cs st" and acc: "\<not> superseded d st"
    and info: "cert_info P en px d = Inr info"
  shows "selects P px (cs @ [d]) (info, pc_serial d)"
proof -
  have "rank_le (cert_rank c') (cert_rank d)" if c': "c' \<in> set cs" for c'
  proof -
    have "cs \<noteq> []" using c' by auto
    from selects_cons[OF sel this] obtain pre c post en where s: "cs = pre @ c # post"
      "cert_info P en px c = Inr (fst st)" "snd st = pc_serial c"
      "\<forall>c' \<in> set pre. rank_le (cert_rank c') (cert_rank c)"
      "\<forall>c' \<in> set post. \<not> rank_le (cert_rank c) (cert_rank c')" .
    consider "c' \<in> set pre" | "c' = c" | "c' \<in> set post" using c' s(1) by auto
    then have "rank_le (cert_rank c') (cert_rank c)"
      using s(4,5) rank_le_refl rank_le_total by cases blast+
    moreover have "rank_le (cert_rank c) (cert_rank d)" using acc superseded_rank[OF s(2,3)] by simp
    ultimately show ?thesis by (rule rank_le_trans)
  qed
  then have "\<exists>pre c post en. cs @ [d] = pre @ c # post \<and> cert_info P en px c = Inr info \<and>
      pc_serial d = pc_serial c \<and> (\<forall>c' \<in> set pre. rank_le (cert_rank c') (cert_rank c)) \<and>
      (\<forall>c' \<in> set post. \<not> rank_le (cert_rank c) (cert_rank c'))"
    using info by (intro exI[of _ cs] exI[of _ d] exI[of _ "[]"] exI[of _ en]) simp
  then show ?thesis unfolding selects_def by simp
qed

lemma cert_step_selects:
  assumes "selects P px cs st" "cert_step P en px E b st = Inr st'"
  shows "selects P px
    (cs @ filter (cert_dates_ok E) (case parse_cert E b of None \<Rightarrow> [] | Some c \<Rightarrow> [c])) st'"
proof (cases "parse_cert E b")
  case None
  then show ?thesis using assms by (simp add: cert_step_def)
next
  case (Some d)
  then show ?thesis
    using assms selects_reject[OF assms(1), of d] selects_accept[OF assms(1), of d]
    by (cases "cert_dates_ok E d"; cases "superseded d st"; cases "cert_info P en px d")
      (auto simp: cert_step_def)
qed

lemma cert_loop_selects:
  "selects P px cs st \<Longrightarrow> cert_loop P ens px E rrs st = Inr st' \<Longrightarrow>
     selects P px (cs @ acceptable E rrs) st'"
proof (induction rrs arbitrary: cs st ens)
  case Nil
  then show ?case by (simp add: acceptable_def)
next
  case (Cons rr rrs)
  show ?case
  proof (cases "answer_cert rr")
    case None
    then show ?thesis using Cons by (simp add: acceptable_def List.map_filter_simps)
  next
    case (Some b)
    with Cons.prems(2) obtain st1 where st1: "cert_step P (ens 0) px E b st = Inr st1"
      "cert_loop P (\<lambda>i. ens (Suc i)) px E rrs st1 = Inr st'"
      by (auto split: sum.splits)
    from Cons.IH[OF cert_step_selects[OF Cons.prems(1) st1(1)] st1(2)] Some
    show ?thesis
      by (cases "parse_cert E b") (auto simp: acceptable_def List.map_filter_simps split: if_splits)
  qed
qed

lemma acceptable_construction:
  "c \<in> set (acceptable E rrs) \<Longrightarrow> pc_construction c \<noteq> UndefinedConstruction"
  by (auto simp: acceptable_def List.map_filter_def dest: parse_cert_construction)

lemma ComputeSharedKey_total: "en_weakKey en \<noteq> None \<Longrightarrow> ComputeSharedKey P en c sk pk \<noteq> Inl e"
  by (cases "xsecretbox_SharedKey P (en_sharedKey en) sk pk")
    (auto simp: ComputeSharedKey_def weak_key_fallback_def Let_def)

lemma cert_step_total: "en_weakKey en \<noteq> None \<Longrightarrow> \<exists>st'. cert_step P en px E b st = Inr st'"
  by (auto simp: cert_step_def cert_info_def computeSharedKey_def Let_def ComputeSharedKey_total
      split: option.splits sum.splits)

lemma cert_loop_total:
  "(\<And>i. en_weakKey (ens i) \<noteq> None) \<Longrightarrow> \<exists>st'. cert_loop P ens px E rrs st = Inr st'"
proof (induction rrs arbitrary: ens st)
  case Nil
  then show ?case by simp
next
  case (Cons rr rrs)
  show ?case
  proof (cases "answer_cert rr")
    case None
    then show ?thesis using Cons by simp
  next
    case (Some b)
    obtain st1 where "cert_step P (ens 0) px E b st = Inr st1"
      using cert_step_total[OF Cons.prems[of 0]] by blast
    then show ?thesis using Some Cons.IH[OF Cons.prems, of Suc st1] by simp
  qed
qed

section \<open>Properties\<close>

text \<open>
  C15. Choice of the certificate. Whatever answers the server sends, in whatever order, if none of them
  holds a certificate that is well-formed, enabled, signed by the provider and valid now, the retrieval
  fails; otherwise it returns the information of one that has the highest rank (serial number, then
  construction), the last one if there are several of that rank.
\<close>

theorem cert_selection:
  assumes "length (ce_pk E) = 32"
    and msg: "fetch_cert_message fb exchange proto name relay frag = Inr (msg, rtt, fr)"
    and run: "cert_loop P ens px E (m_Answer msg) (zero_CertInfo, 0) = Inr st"
  defines "result \<equiv> FetchCurrentDNSCryptCert P ens px E fb exchange proto name relay frag"
  shows "if acceptable E (m_Answer msg) = [] then result = Inl (NoUsableCertificate fr)
    else \<exists>info pre c post en. result = Inr (info, go_div rtt 1000000, fr) \<and>
      acceptable E (m_Answer msg) = pre @ c # post \<and> cert_info P en px c = Inr info \<and>
      (\<forall>c' \<in> set pre. rank_le (cert_rank c') (cert_rank c)) \<and>
      (\<forall>c' \<in> set post. \<not> rank_le (cert_rank c) (cert_rank c'))"
proof -
  obtain info serial where st: "st = (info, serial)" by fastforce
  have "selects P px [] (zero_CertInfo, 0)" by (simp add: selects_def)
  from cert_loop_selects[OF this run] have sel: "selects P px (acceptable E (m_Answer msg)) st" by simp
  have res: "result = (if ci_CryptoConstruction info = UndefinedConstruction
      then Inl (NoUsableCertificate fr) else Inr (info, go_div rtt 1000000, fr))"
    using assms(1) msg run st by (simp add: result_def FetchCurrentDNSCryptCert_def)
  show ?thesis
  proof (cases "acceptable E (m_Answer msg) = []")
    case True
    then have "info = zero_CertInfo" using sel st by (simp add: selects_def)
    then show ?thesis using True res by (simp add: zero_CertInfo_def)
  next
    case False
    from selects_cons[OF sel this] obtain pre c post en where s:
      "acceptable E (m_Answer msg) = pre @ c # post" "cert_info P en px c = Inr (fst st)"
      "\<forall>c' \<in> set pre. rank_le (cert_rank c') (cert_rank c)"
      "\<forall>c' \<in> set post. \<not> rank_le (cert_rank c) (cert_rank c')" by metis
    have "ci_CryptoConstruction info \<noteq> UndefinedConstruction"
      using cert_info_construction[OF s(2)] acceptable_construction[of c E "m_Answer msg"] s(1) st by simp
    then show ?thesis using False res s st by auto
  qed
qed

definition example_cert_env :: cert_env where
  "example_cert_env =
     \<lparr>ce_verify = (\<lambda>pk signed signature. True), ce_pk = replicate 32 1, ce_pqDNSCrypt = True,
      ce_certIgnoreTimestamp = False, ce_now = 3\<rparr>"

definition example_cert_msg :: Msg where
  "example_cert_msg = zero_Msg\<lparr>m_Answer := [\<lparr>rr_Name = ''a'', rr_Class = 1, rr_TTL = 1,
     rr_Data = RD_TXT [map (\<lambda>n. char_of (n :: nat)) ([68, 78, 83, 67, 0, 2, 0, 0] @ replicate 64 1 @
       replicate 32 3 @ replicate 8 5 @ [0, 0, 0, 9, 0, 0, 0, 1, 0, 0, 0, 7])]\<rparr>]\<rparr>"

definition example_exchange :: cert_exchange where
  "example_exchange = (\<lambda>name proto relay big. Inr (example_cert_msg, 5000000, False))"

lemma example_acceptable: "acceptable example_cert_env (m_Answer example_cert_msg) \<noteq> []"
  by code_simp

theorem cert_selection_witness:
  "\<exists>info pre c post en. FetchCurrentDNSCryptCert example_prims (\<lambda>_. example_entropy) example_proxy
        example_cert_env False example_exchange ''udp'' ''2.dnscrypt-cert.x.'' None False
      = Inr (info, go_div 5000000 1000000, False) \<and>
    acceptable example_cert_env (m_Answer example_cert_msg) = pre @ c # post \<and>
    cert_info example_prims en example_proxy c = Inr info"
proof -
  have pk: "length (ce_pk example_cert_env) = 32" by (simp add: example_cert_env_def)
  have msg: "fetch_cert_message False example_exchange ''udp'' ''2.dnscrypt-cert.x.'' None False
      = Inr (example_cert_msg, 5000000, False)"
    by (simp add: fetch_cert_message_def example_exchange_def Let_def example_cert_msg_def zero_Msg_def)
  have weak: "en_weakKey example_entropy \<noteq> None" by (simp add: example_entropy_def)
  obtain st where run: "cert_loop example_prims (\<lambda>_. example_entropy) example_proxy example_cert_env
      (m_Answer example_cert_msg) (zero_CertInfo, 0) = Inr st"
    using cert_loop_total[of "\<lambda>_. example_entropy", OF weak] by blast
  show ?thesis using cert_selection[OF pk msg run] example_acceptable by auto
qed

end
