(* ===== verification/Metrics.thy ===== *)
theory Metrics
  imports Ewma
begin

text \<open>
  The per-resolver metrics of \<^verbatim>\<open>dnscrypt-proxy/scheduler_metrics.go\<close>: counters and a latency histogram
  kept in ten rotating epochs, moving averages of latency and jitter, and the quantiles read from the
  histogram. Times are in nanoseconds; \<^verbatim>\<open>float64\<close> values are reals. The 64-bit counters grow by one
  per exchange and are natural numbers.
\<close>

section \<open>Data\<close>

datatype ExchangeTransport =
    TransportUnknown | TransportDNSCryptUDP | TransportDNSCryptTCP | TransportDoHH2
  | TransportDoHH3 | TransportODoH

record ExchangeOutcome =
  eo_Duration :: duration
  eo_Transport :: ExchangeTransport
  eo_Timeout :: bool
  eo_Error :: bool
  eo_Servfail :: bool
  eo_DNSSECBogus :: bool
  eo_UpstreamTruncated :: bool
  eo_LocalTruncated :: bool
  eo_TCPFallback :: bool
  eo_QUICFallback :: bool
  eo_ConnReused :: bool
  eo_ECSReturned :: bool

record metricsEpoch =
  me_latencyBuckets :: "nat list"
  me_total :: nat
  me_success :: nat
  me_timeout :: nat
  me_errors :: nat
  me_servfail :: nat
  me_dnssecBogus :: nat
  me_upstreamTruncated :: nat
  me_localTruncated :: nat
  me_tcpFallback :: nat
  me_quicFallback :: nat
  me_connNew :: nat
  me_connReused :: nat
  me_ecsReturned :: nat

definition newMetricsEpoch :: "nat \<Rightarrow> metricsEpoch" where
  "newMetricsEpoch bucketCount =
     \<lparr>me_latencyBuckets = replicate bucketCount 0, me_total = 0, me_success = 0, me_timeout = 0,
      me_errors = 0, me_servfail = 0, me_dnssecBogus = 0, me_upstreamTruncated = 0,
      me_localTruncated = 0, me_tcpFallback = 0, me_quicFallback = 0, me_connNew = 0,
      me_connReused = 0, me_ecsReturned = 0\<rparr>"

definition epoch_reset :: "metricsEpoch \<Rightarrow> metricsEpoch" where
  "epoch_reset e = newMetricsEpoch (length (me_latencyBuckets e))"

record MetricsWindow =
  mw_Samples :: nat
  mw_TotalSamples :: nat
  mw_Success :: nat
  mw_Timeout :: nat
  mw_Errors :: nat
  mw_Servfail :: nat
  mw_DNSSECBogus :: nat
  mw_UpstreamTruncated :: nat
  mw_LocalTruncated :: nat
  mw_TCPFallback :: nat
  mw_QUICFallback :: nat
  mw_ConnNew :: nat
  mw_ConnReused :: nat
  mw_ECSReturned :: nat
  mw_LatencyEwmaMs :: real
  mw_JitterEwmaMs :: real
  mw_FirstSeen :: go_time
  mw_LastSeen :: go_time

definition window_Truncated :: "MetricsWindow \<Rightarrow> nat" where
  "window_Truncated w = mw_UpstreamTruncated w + mw_LocalTruncated w"

record ResolverMetrics =
  rm_epochs :: "metricsEpoch list"
  rm_curEpoch :: nat
  rm_epochStart :: go_time
  rm_totalSamples :: nat
  rm_firstSeen :: go_time
  rm_lastSeen :: go_time
  rm_latencyEwmaMs :: real
  rm_jitterEwmaMs :: real
  rm_hasLatency :: bool
  rm_prevLatencyMs :: real
  rm_window :: duration
  rm_epochDur :: duration

section \<open>Latency buckets\<close>

definition metricsWindow :: duration where "metricsWindow = 5 * minute"
definition metricsEpochCount :: nat where "metricsEpochCount = 10"
definition latencyBucketFirstMs :: real where "latencyBucketFirstMs = 1"
definition latencyBucketGrowth :: real where "latencyBucketGrowth = 1.25"
definition latencyBucketMaxMs :: real where "latencyBucketMaxMs = 10000"
definition latencyEwmaSpan :: real where "latencyEwmaSpan = 10"

text \<open>
  The loop that builds the edges, with fuel for the 48 elements the source reserves; it needs 43
  rounds.
\<close>

primrec bucket_edges_loop :: "nat \<Rightarrow> real \<Rightarrow> real list" where
  "bucket_edges_loop 0 v = []"
| "bucket_edges_loop (Suc fuel) v =
     (if v < latencyBucketMaxMs then v # bucket_edges_loop fuel (v * latencyBucketGrowth) else [])"

definition buildLatencyBucketEdges :: "real list" where
  "buildLatencyBucketEdges = bucket_edges_loop 48 latencyBucketFirstMs @ [latencyBucketMaxMs]"

definition latencyBucketEdges :: "real list" where
  "latencyBucketEdges = buildLatencyBucketEdges"

text \<open>\<^verbatim>\<open>sort.SearchFloat64s\<close>: the first index whose element is at least \<open>x\<close>, or the length.\<close>

primrec SearchFloat64s :: "real list \<Rightarrow> real \<Rightarrow> nat" where
  "SearchFloat64s [] x = 0"
| "SearchFloat64s (a # as) x = (if a \<ge> x then 0 else Suc (SearchFloat64s as x))"

definition latencyBucketIndex :: "real \<Rightarrow> nat" where
  "latencyBucketIndex latencyMs =
     (if latencyMs \<le> latencyBucketEdges ! 0 then 0
      else if latencyMs \<ge> latencyBucketMaxMs then length latencyBucketEdges - 1
      else SearchFloat64s latencyBucketEdges latencyMs)"

section \<open>Operations\<close>

definition NewResolverMetricsWithWindow :: "duration \<Rightarrow> ResolverMetrics" where
  "NewResolverMetricsWithWindow window0 =
     (let window = (if window0 \<le> 0 then metricsWindow else window0)
      in \<lparr>rm_epochs = replicate metricsEpochCount (newMetricsEpoch (length latencyBucketEdges)),
          rm_curEpoch = 0, rm_epochStart = 0, rm_totalSamples = 0, rm_firstSeen = 0, rm_lastSeen = 0,
          rm_latencyEwmaMs = 0, rm_jitterEwmaMs = 0, rm_hasLatency = False, rm_prevLatencyMs = 0,
          rm_window = window, rm_epochDur = go_div window (int metricsEpochCount)\<rparr>)"

definition NewResolverMetrics :: ResolverMetrics where
  "NewResolverMetrics = NewResolverMetricsWithWindow metricsWindow"

text \<open>One round of the rotation loop, and the loop.\<close>

definition rotate_once :: "nat \<times> metricsEpoch list \<Rightarrow> nat \<times> metricsEpoch list" where
  "rotate_once ce =
     (let cur = (fst ce + 1) mod metricsEpochCount
      in (cur, (snd ce)[cur := epoch_reset (snd ce ! cur)]))"

definition advanceLocked :: "go_time \<Rightarrow> ResolverMetrics \<Rightarrow> ResolverMetrics" where
  "advanceLocked now m =
     (if time_is_zero (rm_epochStart m) then m\<lparr>rm_epochStart := now\<rparr>
      else let steps = go_div (time_sub now (rm_epochStart m)) (rm_epochDur m)
           in if steps \<le> 0 then m
              else let (cur, epochs) =
                     (if steps \<ge> int metricsEpochCount
                      then ((rm_curEpoch m + nat steps) mod metricsEpochCount,
                            map epoch_reset (rm_epochs m))
                      else (rotate_once ^^ nat steps) (rm_curEpoch m, rm_epochs m))
                   in m\<lparr>rm_curEpoch := cur, rm_epochs := epochs,
                        rm_epochStart := time_add (rm_epochStart m) (steps * rm_epochDur m)\<rparr>)"

definition bump :: "bool \<Rightarrow> nat \<Rightarrow> nat" where
  "bump b n = (if b then n + 1 else n)"

definition outcome_latency :: "ExchangeOutcome \<Rightarrow> real" where
  "outcome_latency o1 = max 0 (of_int (eo_Duration o1) / of_int millisecond)"

definition epoch_observe :: "ExchangeOutcome \<Rightarrow> metricsEpoch \<Rightarrow> metricsEpoch" where
  "epoch_observe o1 e =
     (let b = latencyBucketIndex (outcome_latency o1)
      in \<lparr>me_latencyBuckets = (me_latencyBuckets e)[b := me_latencyBuckets e ! b + 1],
          me_total = me_total e + 1,
          me_success = bump (\<not> eo_Timeout o1 \<and> \<not> eo_Error o1 \<and> \<not> eo_Servfail o1 \<and> \<not> eo_DNSSECBogus o1)
                         (me_success e),
          me_timeout = bump (eo_Timeout o1) (me_timeout e),
          me_errors = bump (eo_Error o1) (me_errors e),
          me_servfail = bump (eo_Servfail o1) (me_servfail e),
          me_dnssecBogus = bump (eo_DNSSECBogus o1) (me_dnssecBogus e),
          me_upstreamTruncated = bump (eo_UpstreamTruncated o1) (me_upstreamTruncated e),
          me_localTruncated = bump (eo_LocalTruncated o1) (me_localTruncated e),
          me_tcpFallback = bump (eo_TCPFallback o1) (me_tcpFallback e),
          me_quicFallback = bump (eo_QUICFallback o1) (me_quicFallback e),
          me_connNew = bump (\<not> eo_ConnReused o1) (me_connNew e),
          me_connReused = bump (eo_ConnReused o1) (me_connReused e),
          me_ecsReturned = bump (eo_ECSReturned o1) (me_ecsReturned e)\<rparr>)"

definition latency_observe :: "real \<Rightarrow> ResolverMetrics \<Rightarrow> ResolverMetrics" where
  "latency_observe latencyMs m =
     (let alpha = 2 / (latencyEwmaSpan + 1)
      in if \<not> rm_hasLatency m
         then m\<lparr>rm_latencyEwmaMs := latencyMs, rm_hasLatency := True, rm_prevLatencyMs := latencyMs\<rparr>
         else m\<lparr>rm_jitterEwmaMs := alpha * \<bar>latencyMs - rm_prevLatencyMs m\<bar> +
                                   (1 - alpha) * rm_jitterEwmaMs m,
                rm_latencyEwmaMs := alpha * latencyMs + (1 - alpha) * rm_latencyEwmaMs m,
                rm_prevLatencyMs := latencyMs\<rparr>)"

definition Observe :: "go_time \<Rightarrow> ExchangeOutcome \<Rightarrow> ResolverMetrics \<Rightarrow> ResolverMetrics" where
  "Observe now o1 m0 =
     (let m1 = advanceLocked now m0;
          m2 = m1\<lparr>rm_firstSeen := (if time_is_zero (rm_firstSeen m1) then now else rm_firstSeen m1),
                  rm_lastSeen := now, rm_totalSamples := rm_totalSamples m1 + 1\<rparr>;
          m3 = latency_observe (outcome_latency o1) m2;
          cur = rm_curEpoch m3
      in m3\<lparr>rm_epochs := (rm_epochs m3)[cur := epoch_observe o1 (rm_epochs m3 ! cur)]\<rparr>)"

definition sum_epochs :: "(metricsEpoch \<Rightarrow> nat) \<Rightarrow> ResolverMetrics \<Rightarrow> nat" where
  "sum_epochs f m = sum_list (map f (rm_epochs m))"

definition aggregateLocked :: "ResolverMetrics \<Rightarrow> MetricsWindow" where
  "aggregateLocked m =
     \<lparr>mw_Samples = sum_epochs me_total m, mw_TotalSamples = rm_totalSamples m,
      mw_Success = sum_epochs me_success m, mw_Timeout = sum_epochs me_timeout m,
      mw_Errors = sum_epochs me_errors m, mw_Servfail = sum_epochs me_servfail m,
      mw_DNSSECBogus = sum_epochs me_dnssecBogus m,
      mw_UpstreamTruncated = sum_epochs me_upstreamTruncated m,
      mw_LocalTruncated = sum_epochs me_localTruncated m,
      mw_TCPFallback = sum_epochs me_tcpFallback m, mw_QUICFallback = sum_epochs me_quicFallback m,
      mw_ConnNew = sum_epochs me_connNew m, mw_ConnReused = sum_epochs me_connReused m,
      mw_ECSReturned = sum_epochs me_ecsReturned m, mw_LatencyEwmaMs = rm_latencyEwmaMs m,
      mw_JitterEwmaMs = rm_jitterEwmaMs m, mw_FirstSeen = rm_firstSeen m,
      mw_LastSeen = rm_lastSeen m\<rparr>"

definition Snapshot :: "go_time \<Rightarrow> ResolverMetrics \<Rightarrow> MetricsWindow \<times> ResolverMetrics" where
  "Snapshot now m = (let m' = advanceLocked now m in (aggregateLocked m', m'))"

text \<open>The search of \<^verbatim>\<open>PercentileBuf\<close>: the first bucket at which the cumulative count reaches the rank.\<close>

primrec bucket_of_rank :: "nat list \<Rightarrow> nat \<Rightarrow> nat \<Rightarrow> nat option" where
  "bucket_of_rank [] cumulative rank = None"
| "bucket_of_rank (c # cs) cumulative rank =
     (if cumulative + c \<ge> rank then Some 0
      else map_option Suc (bucket_of_rank cs (cumulative + c) rank))"

definition add_buckets :: "nat list \<Rightarrow> nat list \<Rightarrow> nat list" where
  "add_buckets xs ys = map (\<lambda>(a, b). a + b) (zip xs ys)"

definition aggregated_buckets :: "ResolverMetrics \<Rightarrow> nat list" where
  "aggregated_buckets m =
     fold (\<lambda>e acc. add_buckets acc (me_latencyBuckets e)) (rm_epochs m)
       (replicate (length latencyBucketEdges) 0)"

definition edge_duration :: "nat \<Rightarrow> duration" where
  "edge_duration b = go_trunc (latencyBucketEdges ! b * of_int millisecond)"

definition PercentileBuf :: "go_time \<Rightarrow> real \<Rightarrow> ResolverMetrics \<Rightarrow> duration option \<times> ResolverMetrics" where
  "PercentileBuf now p0 m0 =
     (let p = (if p0 < 0 then 0 else if p0 > 1 then 1 else p0);
          m = advanceLocked now m0;
          total = sum_epochs me_total m
      in if total = 0 then (None, m)
         else let rank0 = nat \<lceil>real total * p\<rceil>;
                  rank = (if rank0 = 0 then 1 else rank0)
              in case bucket_of_rank (aggregated_buckets m) 0 rank of
                   Some b \<Rightarrow> (Some (edge_duration b), m)
                 | None \<Rightarrow> (Some (edge_duration (length latencyBucketEdges - 1)), m))"

definition Warm :: "nat \<Rightarrow> ResolverMetrics \<Rightarrow> bool" where
  "Warm warmupSamples m \<longleftrightarrow> rm_totalSamples m < warmupSamples"


section \<open>The invariant\<close>

text \<open>
  Every counter of an epoch is bounded by its total, the histogram adds up to the total, and the ring
  has ten epochs. This holds whatever times the clock gives.
\<close>

definition epoch_inv :: "metricsEpoch \<Rightarrow> bool" where
  "epoch_inv e \<longleftrightarrow>
     length (me_latencyBuckets e) = length latencyBucketEdges \<and>
     sum_list (me_latencyBuckets e) = me_total e \<and>
     me_connNew e + me_connReused e = me_total e \<and>
     me_success e + me_timeout e \<le> me_total e \<and> me_success e + me_errors e \<le> me_total e \<and>
     me_success e + me_servfail e \<le> me_total e \<and> me_success e + me_dnssecBogus e \<le> me_total e \<and>
     me_upstreamTruncated e \<le> me_total e \<and> me_localTruncated e \<le> me_total e \<and>
     me_tcpFallback e \<le> me_total e \<and> me_quicFallback e \<le> me_total e \<and>
     me_ecsReturned e \<le> me_total e"

definition metrics_inv :: "ResolverMetrics \<Rightarrow> bool" where
  "metrics_inv m \<longleftrightarrow>
     length (rm_epochs m) = metricsEpochCount \<and> rm_curEpoch m < metricsEpochCount \<and>
     (\<forall>e \<in> set (rm_epochs m). epoch_inv e)"

lemma edges_length: "length latencyBucketEdges = 43"
  by (simp add: latencyBucketEdges_def buildLatencyBucketEdges_def latencyBucketFirstMs_def
      latencyBucketMaxMs_def latencyBucketGrowth_def numeral_eq_Suc)

lemma edges_first: "latencyBucketEdges ! 0 = 1"
  by (simp add: latencyBucketEdges_def buildLatencyBucketEdges_def latencyBucketFirstMs_def
      latencyBucketMaxMs_def latencyBucketGrowth_def numeral_eq_Suc)

lemma SearchFloat64s_le: "SearchFloat64s as x \<le> length as"
  by (induction as) auto

lemma SearchFloat64s_less: "as \<noteq> [] \<Longrightarrow> x \<le> last as \<Longrightarrow> SearchFloat64s as x < length as"
  by (induction as) (auto split: if_splits)

lemma edges_last: "latencyBucketEdges \<noteq> []" "last latencyBucketEdges = 10000"
  by (simp_all add: latencyBucketEdges_def buildLatencyBucketEdges_def latencyBucketMaxMs_def)

lemma latencyBucketIndex_less: "latencyBucketIndex x < length latencyBucketEdges"
  using SearchFloat64s_less[of latencyBucketEdges x]
  by (auto simp: latencyBucketIndex_def edges_last latencyBucketMaxMs_def edges_length)

lemma sum_list_bump: "b < length xs \<Longrightarrow> sum_list (xs[b := xs ! b + 1]) = sum_list xs + (1::nat)"
  by (simp add: sum_list_update)

lemma epoch_inv_observe: "epoch_inv e \<Longrightarrow> epoch_inv (epoch_observe o1 e)"
  using latencyBucketIndex_less[of "outcome_latency o1"]
  by (auto simp: epoch_inv_def epoch_observe_def Let_def sum_list_update bump_def)

lemma epoch_inv_new: "epoch_inv (newMetricsEpoch (length latencyBucketEdges))"
  by (simp add: epoch_inv_def newMetricsEpoch_def sum_list_replicate)

lemma epoch_inv_reset: "epoch_inv e \<Longrightarrow> epoch_inv (epoch_reset e)"
  using epoch_inv_new by (simp add: epoch_reset_def epoch_inv_def)

definition ring_inv :: "nat \<times> metricsEpoch list \<Rightarrow> bool" where
  "ring_inv ce \<longleftrightarrow> length (snd ce) = metricsEpochCount \<and> fst ce < metricsEpochCount \<and>
     (\<forall>e \<in> set (snd ce). epoch_inv e)"

lemma ring_inv_rotate: "ring_inv ce \<Longrightarrow> ring_inv (rotate_once ce)"
  by (auto simp: ring_inv_def rotate_once_def Let_def metricsEpochCount_def epoch_inv_reset
      dest!: set_update_subset_insert[THEN subsetD])

lemma ring_inv_rotates: "ring_inv ce \<Longrightarrow> ring_inv ((rotate_once ^^ n) ce)"
  by (induction n) (auto simp: ring_inv_rotate)

lemma advanceLocked_inv: "metrics_inv m \<Longrightarrow> metrics_inv (advanceLocked now m)"
proof -
  assume "metrics_inv m"
  then have r: "ring_inv (rm_curEpoch m, rm_epochs m)" by (simp add: metrics_inv_def ring_inv_def)
  define steps where "steps = go_div (time_sub now (rm_epochStart m)) (rm_epochDur m)"
  define ce where "ce = (if steps \<ge> int metricsEpochCount
      then ((rm_curEpoch m + nat steps) mod metricsEpochCount, map epoch_reset (rm_epochs m))
      else (rotate_once ^^ nat steps) (rm_curEpoch m, rm_epochs m))"
  have "ring_inv ce" using r ring_inv_rotates[OF r]
    by (auto simp: ce_def ring_inv_def epoch_inv_reset metricsEpochCount_def)
  then show ?thesis using \<open>metrics_inv m\<close>
    by (auto simp: advanceLocked_def Let_def ce_def[symmetric] steps_def[symmetric] metrics_inv_def
        ring_inv_def split: prod.splits)
qed

lemma latency_observe_fields [simp]:
  "rm_epochs (latency_observe x m) = rm_epochs m"
  "rm_curEpoch (latency_observe x m) = rm_curEpoch m"
  "rm_epochStart (latency_observe x m) = rm_epochStart m"
  "rm_epochDur (latency_observe x m) = rm_epochDur m"
  "rm_totalSamples (latency_observe x m) = rm_totalSamples m"
  by (simp_all add: latency_observe_def Let_def)

lemma Observe_inv: "metrics_inv m \<Longrightarrow> metrics_inv (Observe now o1 m)"
  using advanceLocked_inv[of m now]
  by (auto simp: Observe_def Let_def metrics_inv_def epoch_inv_observe
      dest!: set_update_subset_insert[THEN subsetD])

lemma NewResolverMetricsWithWindow_inv: "metrics_inv (NewResolverMetricsWithWindow w)"
  by (simp add: NewResolverMetricsWithWindow_def metrics_inv_def metricsEpochCount_def
      epoch_inv_new)

section \<open>The ring as a sliding window\<close>

text \<open>
  Abstractly the store is a history of outcomes, each with the number of the epoch it fell into, and
  the number of the current epoch. Slot \<open>k\<close> of the ring holds the outcomes of the last epoch before
  the current one (inclusive) whose number is \<open>k\<close> modulo ten.
\<close>

type_synonym history = "(int \<times> ExchangeOutcome) list"

definition epoch_of :: "ExchangeOutcome list \<Rightarrow> metricsEpoch" where
  "epoch_of os = fold epoch_observe os (newMetricsEpoch (length latencyBucketEdges))"

definition slot_number :: "int \<Rightarrow> nat \<Rightarrow> int" where
  "slot_number N k = N - (N - int k) mod 10"

definition slot_outcomes :: "int \<Rightarrow> history \<Rightarrow> nat \<Rightarrow> ExchangeOutcome list" where
  "slot_outcomes N H k = map snd (filter (\<lambda>(e, o1). e = slot_number N k) H)"

definition live :: "int \<Rightarrow> history \<Rightarrow> ExchangeOutcome list" where
  "live N H = map snd (filter (\<lambda>(e, o1). N - e < 10) H)"

definition ring_rel :: "int \<Rightarrow> history \<Rightarrow> nat \<times> metricsEpoch list \<Rightarrow> bool" where
  "ring_rel N H ce \<longleftrightarrow>
     int (fst ce) = N mod 10 \<and> snd ce = map (\<lambda>k. epoch_of (slot_outcomes N H k)) [0..<10] \<and>
     (\<forall>x \<in> set H. fst x \<le> N)"

lemma epoch_of_Nil [simp]: "epoch_of [] = newMetricsEpoch (length latencyBucketEdges)"
  by (simp add: epoch_of_def)

lemma epoch_of_snoc [simp]: "epoch_of (os @ [o1]) = epoch_observe o1 (epoch_of os)"
  by (simp add: epoch_of_def)

lemma epoch_inv_epoch_of: "epoch_inv (epoch_of os)"
  by (induction os rule: rev_induct) (simp_all add: epoch_inv_new epoch_inv_observe)

lemma epoch_reset_epoch_of: "epoch_reset (epoch_of os) = epoch_of []"
  using epoch_inv_epoch_of[of os] by (simp add: epoch_reset_def epoch_inv_def)

lemma slot_number_bounds: "slot_number N k \<le> N" "N - slot_number N k < 10"
  by (simp_all add: slot_number_def)

lemma slot_number_mod: "k < 10 \<Longrightarrow> slot_number N k mod 10 = int k"
  by (simp add: slot_number_def mod_simps)

lemma slot_number_unique:
  assumes "n \<le> N" and "N - n < 10" and "n mod 10 = int k"
  shows "slot_number N k = n"
proof -
  have "(N - int k) mod 10 = (N - n) mod 10" using assms(3) by (metis mod_diff_right_eq)
  then show ?thesis using assms by (simp add: slot_number_def)
qed

lemma slot_number_iff:
  "k < 10 \<Longrightarrow> n \<le> N \<Longrightarrow> n = slot_number N k \<longleftrightarrow> N - n < 10 \<and> int k = n mod 10"
  using slot_number_unique slot_number_mod slot_number_bounds by metis

lemma slot_number_succ:
  assumes "k < 10"
  shows "slot_number (N + 1) k = (if int k = (N + 1) mod 10 then N + 1 else slot_number N k)"
proof (cases "int k = (N + 1) mod 10")
  case True
  then show ?thesis by (simp add: slot_number_unique)
next
  case False
  define n where "n = slot_number N k"
  have n: "n \<le> N" "N - n < 10" "n mod 10 = int k"
    using assms slot_number_bounds[of N k] slot_number_mod[of k N] by (simp_all add: n_def)
  have "N - n \<noteq> 9"
  proof
    assume "N - n = 9"
    then have "(N + 1) mod 10 = (n + 10) mod 10" by (simp add: algebra_simps)
    then show False using False n(3) by simp
  qed
  then have "slot_number (N + 1) k = n" using n by (intro slot_number_unique) auto
  then show ?thesis using False n_def by simp
qed

lemma slot_outcomes_fresh:
  "\<forall>x \<in> set H. fst x \<le> N \<Longrightarrow> N < slot_number M k \<Longrightarrow> slot_outcomes M H k = []"
  by (auto simp: slot_outcomes_def filter_empty_conv)

lemma rotate_once_rel:
  assumes "ring_rel N H ce"
  shows "ring_rel (N + 1) H (rotate_once ce)"
proof -
  have c: "int (fst ce) = N mod 10" and e: "snd ce = map (\<lambda>k. epoch_of (slot_outcomes N H k)) [0..<10]"
    and H: "\<forall>x \<in> set H. fst x \<le> N" using assms by (auto simp: ring_rel_def)
  define cur where "cur = (fst ce + 1) mod 10"
  have cur: "int cur = (N + 1) mod 10" "cur < 10"
    using c by (auto simp: cur_def zmod_int mod_simps add.commute)
  have slot: "epoch_of (slot_outcomes (N + 1) H k) =
      (if k = cur then epoch_reset (epoch_of (slot_outcomes N H cur))
       else epoch_of (slot_outcomes N H k))" if "k < 10" for k
  proof (cases "k = cur")
    case True
    then have "slot_number (N + 1) k = N + 1" using slot_number_succ[OF that] cur by simp
    then show ?thesis using True slot_outcomes_fresh[OF H, of "N + 1" k]
      by (simp add: epoch_reset_epoch_of)
  next
    case False
    then have "slot_number (N + 1) k = slot_number N k" using slot_number_succ[OF that] cur
      by (metis of_nat_eq_iff)
    then show ?thesis using False by (simp add: slot_outcomes_def)
  qed
  have "(snd ce)[cur := epoch_reset (snd ce ! cur)] =
      map (\<lambda>k. epoch_of (slot_outcomes (N + 1) H k)) [0..<10]"
    by (rule nth_equalityI) (use cur in \<open>auto simp: e slot nth_list_update\<close>)
  moreover have "rotate_once ce = (cur, (snd ce)[cur := epoch_reset (snd ce ! cur)])"
    by (simp add: rotate_once_def Let_def metricsEpochCount_def cur_def)
  ultimately show ?thesis using cur H by (auto simp: ring_rel_def)
qed

lemma rotates_rel: "ring_rel N H ce \<Longrightarrow> ring_rel (N + int s) H ((rotate_once ^^ s) ce)"
proof (induction s)
  case (Suc s)
  then have "ring_rel (N + int s + 1) H (rotate_once ((rotate_once ^^ s) ce))"
    by (intro rotate_once_rel) simp
  then show ?case by (simp add: algebra_simps)
qed simp

lemma reset_all_rel:
  assumes "ring_rel N H ce" and "10 \<le> s"
  shows "ring_rel (N + int s) H ((fst ce + s) mod 10, map epoch_reset (snd ce))"
proof -
  have c: "int (fst ce) = N mod 10" and e: "snd ce = map (\<lambda>k. epoch_of (slot_outcomes N H k)) [0..<10]"
    and H: "\<forall>x \<in> set H. fst x \<le> N" using assms by (auto simp: ring_rel_def)
  have "N < slot_number (N + int s) k" for k
    using assms(2) pos_mod_bound[of 10 "N + int s - int k"] by (simp add: slot_number_def)
  then have "slot_outcomes (N + int s) H k = []" for k by (rule slot_outcomes_fresh[OF H])
  moreover have "int ((fst ce + s) mod 10) = (N + int s) mod 10" using c by (simp add: zmod_int mod_simps)
  ultimately show ?thesis using H by (auto simp: ring_rel_def e epoch_reset_epoch_of)
qed

lemma observe_rel:
  assumes "ring_rel N H (cur, es)"
  shows "ring_rel N (H @ [(N, o1)]) (cur, es[cur := epoch_observe o1 (es ! cur)])"
proof -
  have c: "int cur = N mod 10" and e: "es = map (\<lambda>k. epoch_of (slot_outcomes N H k)) [0..<10]"
    and H: "\<forall>x \<in> set H. fst x \<le> N" using assms by (auto simp: ring_rel_def)
  have cur: "cur < 10" using c pos_mod_bound[of 10 N] by linarith
  have num: "N = slot_number N k \<longleftrightarrow> k = cur" if "k < 10" for k
    using slot_number_iff[OF that, of N N] c by (metis diff_self of_nat_eq_iff order_refl zero_less_numeral)
  have "es[cur := epoch_observe o1 (es ! cur)] =
      map (\<lambda>k. epoch_of (slot_outcomes N (H @ [(N, o1)]) k)) [0..<10]"
    by (rule nth_equalityI) (use cur num in \<open>auto simp: e nth_list_update slot_outcomes_def\<close>)
  then show ?thesis using c H by (auto simp: ring_rel_def)
qed

lemma slot_live:
  assumes "e \<le> N"
  shows "(\<Sum>k<10. if e = slot_number N k then g else (0::nat)) = (if N - e < 10 then g else 0)"
proof -
  have eq: "e = slot_number N k \<longleftrightarrow> N - e < 10 \<and> k = nat (e mod 10)" if "k < 10" for k
    using slot_number_iff[OF that assms] by auto
  have "(\<Sum>k<10. if e = slot_number N k then g else 0) =
      (\<Sum>k<10. if k = nat (e mod 10) then (if N - e < 10 then g else 0) else (0::nat))"
    by (rule sum.cong) (use eq in auto)
  moreover have "nat (e mod 10) < 10" using pos_mod_bound[of 10 e] by linarith
  ultimately show ?thesis by (simp add: sum.delta)
qed

lemma sum_slots:
  "\<forall>x \<in> set H. fst x \<le> N \<Longrightarrow>
   (\<Sum>k<10. sum_list (map g (slot_outcomes N H k))) = (sum_list (map g (live N H)) :: nat)"
proof (induction H)
  case Nil
  then show ?case by (simp add: slot_outcomes_def live_def)
next
  case (Cons x H)
  obtain e o1 where x: "x = (e, o1)" by force
  have "(\<Sum>k<10. sum_list (map g (slot_outcomes N (x # H) k))) =
      (\<Sum>k<10. (if e = slot_number N k then g o1 else 0) + sum_list (map g (slot_outcomes N H k)))"
    by (rule sum.cong) (auto simp: slot_outcomes_def x)
  also have "\<dots> = (if N - e < 10 then g o1 else 0) + sum_list (map g (live N H))"
    using Cons slot_live[of e N "g o1"] by (simp add: sum.distrib x)
  finally show ?case by (simp add: live_def x)
qed

lemma counter_live:
  assumes "ring_rel N H (cur, es)" and "f (epoch_of []) = 0"
    and "\<And>os o1. f (epoch_of (os @ [o1])) = f (epoch_of os) + g o1"
  shows "sum_list (map f es) = (sum_list (map g (live N H)) :: nat)"
proof -
  have f: "f (epoch_of os) = sum_list (map g os)" for os
    by (induction os rule: rev_induct) (use assms(2,3) in auto)
  have "sum_list (map f es) = (\<Sum>k<10. sum_list (map g (slot_outcomes N H k)))"
    using assms(1) by (simp add: ring_rel_def f o_def interv_sum_list_conv_sum_set_nat atLeast0LessThan)
  then show ?thesis using assms(1) sum_slots by (auto simp: ring_rel_def)
qed

lemma sum_list_of_filter: "sum_list (map (\<lambda>x. bump (P x) 0) xs) = length (filter P xs)"
  by (induction xs) (auto simp: bump_def)

lemma count_live:
  assumes "ring_rel N H (rm_curEpoch m, rm_epochs m)" and "f (epoch_of []) = 0"
    and "\<And>os o1. f (epoch_of (os @ [o1])) = bump (P o1) (f (epoch_of os))"
  shows "sum_epochs f m = length (filter P (live N H))"
  unfolding sum_epochs_def sum_list_of_filter[symmetric]
  by (rule counter_live[where f = f, OF assms(1,2)]) (simp only: assms(3), simp add: bump_def)

subsection \<open>Epoch numbers from times\<close>

text \<open>
  With the first outcome at time \<open>t0\<close> and epochs of length \<open>d\<close>, the epoch of time \<open>t\<close> has the number
  \<open>(t - t0) div d\<close>.
\<close>

definition epoch_number :: "go_time \<Rightarrow> duration \<Rightarrow> go_time \<Rightarrow> int" where
  "epoch_number t0 d t = (t - t0) div d"

definition history_of :: "go_time \<Rightarrow> duration \<Rightarrow> (go_time \<times> ExchangeOutcome) list \<Rightarrow> history" where
  "history_of t0 d hs = map (\<lambda>(t, o1). (epoch_number t0 d t, o1)) hs"

definition metrics_rel :: "go_time \<Rightarrow> duration \<Rightarrow> int \<Rightarrow> history \<Rightarrow> ResolverMetrics \<Rightarrow> bool" where
  "metrics_rel t0 d N H m \<longleftrightarrow>
     rm_epochStart m = t0 + N * d \<and> rm_epochDur m = d \<and> ring_rel N H (rm_curEpoch m, rm_epochs m)"

definition observed :: "duration \<Rightarrow> (go_time \<times> ExchangeOutcome) list \<Rightarrow> ResolverMetrics" where
  "observed w hs = fold (\<lambda>(t, o1). Observe t o1) hs (NewResolverMetricsWithWindow w)"

lemma epoch_number_mono: "0 < d \<Longrightarrow> t \<le> u \<Longrightarrow> epoch_number t0 d t \<le> epoch_number t0 d u"
  by (simp add: epoch_number_def zdiv_mono1)

lemma epoch_number_nonneg: "0 < d \<Longrightarrow> t0 \<le> t \<Longrightarrow> 0 \<le> epoch_number t0 d t"
  by (simp add: epoch_number_def pos_imp_zdiv_nonneg_iff)

lemma advanceLocked_steps:
  assumes "\<not> time_is_zero (rm_epochStart m)"
    and "go_div (time_sub now (rm_epochStart m)) (rm_epochDur m) = int s"
  shows "advanceLocked now m =
    (let ce = (if 10 \<le> s then ((rm_curEpoch m + s) mod 10, map epoch_reset (rm_epochs m))
               else (rotate_once ^^ s) (rm_curEpoch m, rm_epochs m))
     in if s = 0 then m
        else m\<lparr>rm_curEpoch := fst ce, rm_epochs := snd ce,
               rm_epochStart := rm_epochStart m + int s * rm_epochDur m\<rparr>)"
  using assms by (simp add: advanceLocked_def Let_def metricsEpochCount_def time_add_def
      split_beta)

lemma advanceLocked_rel:
  assumes rel: "metrics_rel t0 d N H m" and pos: "0 < d" "0 < t0" "0 \<le> N"
    and now: "N \<le> epoch_number t0 d now" "now - t0 < 2 ^ 63"
  shows "metrics_rel t0 d (epoch_number t0 d now) H (advanceLocked now m)"
proof -
  have st: "rm_epochStart m = t0 + N * d" "rm_epochDur m = d"
    and ring: "ring_rel N H (rm_curEpoch m, rm_epochs m)" using rel by (auto simp: metrics_rel_def)
  have Nd: "0 \<le> N * d" using pos by simp
  have "N * d \<le> epoch_number t0 d now * d" using now pos by simp
  also have "\<dots> \<le> now - t0" using pos by (simp add: epoch_number_def minus_mod_eq_div_mult[symmetric])
  finally have ge: "t0 + N * d \<le> now" by simp
  have "time_sub now (t0 + N * d) = now - t0 - N * d"
    using ge now(2) Nd by (subst time_sub_small) auto
  moreover have "(now - t0 - N * d) div d = epoch_number t0 d now - N"
    using pos div_mult_self1[of d "now - t0" "- N"] by (simp add: epoch_number_def algebra_simps)
  ultimately have steps: "go_div (time_sub now (rm_epochStart m)) (rm_epochDur m) =
      epoch_number t0 d now - N" using pos ge by (simp add: st)
  define s where "s = nat (epoch_number t0 d now - N)"
  have s: "epoch_number t0 d now = N + int s" using now by (simp add: s_def)
  have nz: "\<not> time_is_zero (rm_epochStart m)"
    using add_pos_nonneg[OF pos(2) Nd] by (simp add: st time_is_zero_def)
  define ce where "ce = (if 10 \<le> s then ((rm_curEpoch m + s) mod 10, map epoch_reset (rm_epochs m))
      else (rotate_once ^^ s) (rm_curEpoch m, rm_epochs m))"
  have "ring_rel (N + int s) H ce"
    using reset_all_rel[OF ring, of s] rotates_rel[OF ring, of s] by (simp add: ce_def)
  moreover have "advanceLocked now m = (if s = 0 then m else m\<lparr>rm_curEpoch := fst ce,
      rm_epochs := snd ce, rm_epochStart := rm_epochStart m + int s * rm_epochDur m\<rparr>)"
    using advanceLocked_steps[OF nz, of now s] steps s by (simp add: ce_def Let_def)
  ultimately show ?thesis using rel by (simp add: metrics_rel_def s algebra_simps)
qed

lemma Observe_rel:
  assumes "metrics_rel t0 d N H (advanceLocked now m)"
  shows "metrics_rel t0 d N (H @ [(N, o1)]) (Observe now o1 m)"
  using assms by (auto simp: metrics_rel_def Observe_def Let_def intro!: observe_rel)

lemma new_metrics_rel:
  assumes "0 < t" and "10 \<le> w"
  shows "metrics_rel t (w div 10) 0 [] (advanceLocked t (NewResolverMetricsWithWindow w))"
proof -
  have "replicate 10 e = map (\<lambda>k. e) [0..<10]" for e :: metricsEpoch
    by (simp add: map_replicate_const)
  then show ?thesis using assms
    by (simp add: metrics_rel_def advanceLocked_def NewResolverMetricsWithWindow_def Let_def
        time_is_zero_def ring_rel_def slot_outcomes_def metricsEpochCount_def)
qed

lemma observed_rel:
  assumes "hs \<noteq> []" and "t0 = fst (hd hs)" and "0 < t0" and "sorted (map fst hs)"
    and "fst (last hs) - t0 < 2 ^ 63" and "10 \<le> w"
  shows "metrics_rel t0 (w div 10) (epoch_number t0 (w div 10) (fst (last hs)))
     (history_of t0 (w div 10) hs) (observed w hs)"
  using assms
proof (induction hs rule: rev_induct)
  case (snoc x hs)
  obtain t o1 where x: "x = (t, o1)" by force
  have d: "0 < w div 10" using snoc.prems by simp
  show ?case
  proof (cases "hs = []")
    case True
    then show ?thesis using Observe_rel[OF new_metrics_rel, of t w o1] snoc.prems
      by (simp add: x observed_def history_of_def epoch_number_def)
  next
    case False
    let ?n = "epoch_number t0 (w div 10) (fst (last hs))"
    have le: "fst (last hs) \<le> t" using snoc.prems False by (auto simp: x sorted_append)
    have hd: "t0 = fst (hd hs)" using snoc.prems False by simp
    have rng: "fst (last hs) - t0 < 2 ^ 63" using snoc.prems le by (simp add: x)
    have t0: "t0 \<le> fst (last hs)" using False snoc.prems(4) hd
      by (cases hs) (auto simp: sorted_append)
    have "metrics_rel t0 (w div 10) ?n (history_of t0 (w div 10) hs) (observed w hs)"
      by (rule snoc.IH) (use snoc.prems False hd rng in \<open>auto simp: x sorted_append\<close>)
    moreover have "0 \<le> ?n" using epoch_number_nonneg[OF d t0] .
    ultimately have "metrics_rel t0 (w div 10) (epoch_number t0 (w div 10) t)
        (history_of t0 (w div 10) hs) (advanceLocked t (observed w hs))"
      using snoc.prems d epoch_number_mono[OF d le] by (intro advanceLocked_rel) (auto simp: x)
    from Observe_rel[OF this] show ?thesis by (simp add: observed_def history_of_def x)
  qed
qed simp

lemma sorted_snoc_last: "sorted (map fst hs @ [now]) \<Longrightarrow> hs \<noteq> [] \<Longrightarrow>
    fst (hd hs) \<le> fst (last hs) \<and> fst (last hs) \<le> now"
  by (cases hs) (auto simp: sorted_append)

text \<open>The outcomes that are less than ten epochs old at time \<open>now\<close>.\<close>

definition recent ::
  "duration \<Rightarrow> go_time \<Rightarrow> (go_time \<times> ExchangeOutcome) list \<Rightarrow> ExchangeOutcome list" where
  "recent d now hs =
     map snd (filter (\<lambda>(t, o1). epoch_number (fst (hd hs)) d now - epoch_number (fst (hd hs)) d t < 10) hs)"

lemma live_history_of:
  "live (epoch_number t0 d now) (history_of t0 d hs) =
   map snd (filter (\<lambda>(t, o1). epoch_number t0 d now - epoch_number t0 d t < 10) hs)"
  by (induction hs) (auto simp: live_def history_of_def)

lemma observed_advanced:
  assumes "hs \<noteq> []" and "0 < fst (hd hs)" and "sorted (map fst hs @ [now])"
    and "now - fst (hd hs) < 2 ^ 63" and "10 \<le> w"
  shows "\<exists>N H. ring_rel N H (rm_curEpoch (advanceLocked now (observed w hs)),
      rm_epochs (advanceLocked now (observed w hs))) \<and> live N H = recent (w div 10) now hs"
proof -
  define t0 where "t0 = fst (hd hs)"
  define d where "d = w div 10"
  have d: "0 < d" using assms(5) by (simp add: d_def)
  have le: "t0 \<le> fst (last hs)" "fst (last hs) \<le> now"
    using sorted_snoc_last[OF assms(3,1)] by (simp_all add: t0_def)
  have "metrics_rel t0 d (epoch_number t0 d (fst (last hs))) (history_of t0 d hs) (observed w hs)"
    unfolding d_def
  proof (rule observed_rel)
    show "fst (last hs) - t0 < 2 ^ 63" using assms(4) le by (simp add: t0_def)
  qed (use assms in \<open>simp_all add: t0_def sorted_append\<close>)
  moreover have "0 \<le> epoch_number t0 d (fst (last hs))" using epoch_number_nonneg[OF d le(1)] .
  ultimately have "metrics_rel t0 d (epoch_number t0 d now) (history_of t0 d hs)
      (advanceLocked now (observed w hs))"
    using assms d le epoch_number_mono[OF d le(2)] by (intro advanceLocked_rel) (auto simp: t0_def)
  then show ?thesis
    by (intro exI[of _ "epoch_number t0 d now"] exI[of _ "history_of t0 d hs"])
      (simp add: metrics_rel_def live_history_of recent_def t0_def d_def)
qed

lemma totalSamples_advance [simp]: "rm_totalSamples (advanceLocked now m) = rm_totalSamples m"
  by (simp add: advanceLocked_def Let_def split_beta)

lemma totalSamples_observed: "rm_totalSamples (observed w hs) = length hs"
  by (induction hs rule: rev_induct)
    (auto simp: observed_def NewResolverMetricsWithWindow_def Observe_def Let_def)

definition outcome_success :: "ExchangeOutcome \<Rightarrow> bool" where
  "outcome_success o1 \<longleftrightarrow>
     \<not> eo_Timeout o1 \<and> \<not> eo_Error o1 \<and> \<not> eo_Servfail o1 \<and> \<not> eo_DNSSECBogus o1"

text \<open>
  C16. The ring of epochs is a sliding window. After any exchanges at non-decreasing times, a snapshot
  reports for every counter the number of exchanges of that kind among those of the last ten epochs,
  the current one included: older ones are forgotten, later ones are counted once. The total keeps all
  of them.
\<close>

theorem window_counts:
  assumes "hs \<noteq> []" and "0 < fst (hd hs)" and "sorted (map fst hs @ [now])"
    and "now - fst (hd hs) < 2 ^ 63" and "10 \<le> w"
    and "win = fst (Snapshot now (observed w hs))" and "rs = recent (w div 10) now hs"
  shows "mw_TotalSamples win = length hs \<and> mw_Samples win = length rs \<and>
    mw_Success win = length (filter outcome_success rs) \<and>
    mw_Timeout win = length (filter eo_Timeout rs) \<and> mw_Errors win = length (filter eo_Error rs) \<and>
    mw_Servfail win = length (filter eo_Servfail rs) \<and>
    mw_DNSSECBogus win = length (filter eo_DNSSECBogus rs) \<and>
    mw_UpstreamTruncated win = length (filter eo_UpstreamTruncated rs) \<and>
    mw_LocalTruncated win = length (filter eo_LocalTruncated rs) \<and>
    mw_TCPFallback win = length (filter eo_TCPFallback rs) \<and>
    mw_QUICFallback win = length (filter eo_QUICFallback rs) \<and>
    mw_ConnNew win = length (filter (\<lambda>o1. \<not> eo_ConnReused o1) rs) \<and>
    mw_ConnReused win = length (filter eo_ConnReused rs) \<and>
    mw_ECSReturned win = length (filter eo_ECSReturned rs)"
proof -
  obtain N H where ring: "ring_rel N H (rm_curEpoch (advanceLocked now (observed w hs)),
      rm_epochs (advanceLocked now (observed w hs)))" and rs: "live N H = rs"
    using observed_advanced[OF assms(1-5)] assms(7) by blast
  note count = count_live[OF ring, unfolded rs]
  have "sum_epochs me_total (advanceLocked now (observed w hs)) = length (filter (\<lambda>_. True) rs)"
    by (rule count) (simp_all add: newMetricsEpoch_def epoch_observe_def Let_def bump_def)
  moreover have
    "sum_epochs me_success (advanceLocked now (observed w hs)) = length (filter outcome_success rs)"
    "sum_epochs me_timeout (advanceLocked now (observed w hs)) = length (filter eo_Timeout rs)"
    "sum_epochs me_errors (advanceLocked now (observed w hs)) = length (filter eo_Error rs)"
    "sum_epochs me_servfail (advanceLocked now (observed w hs)) = length (filter eo_Servfail rs)"
    "sum_epochs me_dnssecBogus (advanceLocked now (observed w hs)) = length (filter eo_DNSSECBogus rs)"
    "sum_epochs me_upstreamTruncated (advanceLocked now (observed w hs)) =
       length (filter eo_UpstreamTruncated rs)"
    "sum_epochs me_localTruncated (advanceLocked now (observed w hs)) =
       length (filter eo_LocalTruncated rs)"
    "sum_epochs me_tcpFallback (advanceLocked now (observed w hs)) = length (filter eo_TCPFallback rs)"
    "sum_epochs me_quicFallback (advanceLocked now (observed w hs)) = length (filter eo_QUICFallback rs)"
    "sum_epochs me_connNew (advanceLocked now (observed w hs)) =
       length (filter (\<lambda>o1. \<not> eo_ConnReused o1) rs)"
    "sum_epochs me_connReused (advanceLocked now (observed w hs)) = length (filter eo_ConnReused rs)"
    "sum_epochs me_ecsReturned (advanceLocked now (observed w hs)) = length (filter eo_ECSReturned rs)"
    by (rule count; simp add: newMetricsEpoch_def epoch_observe_def Let_def outcome_success_def)+
  ultimately show ?thesis
    by (simp add: assms(6) Snapshot_def Let_def aggregateLocked_def totalSamples_observed)
qed

definition example_outcome :: ExchangeOutcome where
  "example_outcome =
     \<lparr>eo_Duration = 20 * millisecond, eo_Transport = TransportDNSCryptUDP, eo_Timeout = False,
      eo_Error = False, eo_Servfail = False, eo_DNSSECBogus = False, eo_UpstreamTruncated = False,
      eo_LocalTruncated = False, eo_TCPFallback = False, eo_QUICFallback = False, eo_ConnReused = False,
      eo_ECSReturned = False\<rparr>"

definition example_history :: "(go_time \<times> ExchangeOutcome) list" where
  "example_history =
     [(5, example_outcome\<lparr>eo_Timeout := True\<rparr>), (40, example_outcome), (120, example_outcome)]"

theorem window_counts_witness:
  "mw_TotalSamples (fst (Snapshot 122 (observed 100 example_history))) = 3 \<and>
   mw_Timeout (fst (Snapshot 122 (observed 100 example_history))) = 0 \<and>
   mw_Success (fst (Snapshot 122 (observed 100 example_history))) = 2"
  using window_counts[OF _ _ _ _ _ refl refl, of example_history 122 100]
  by (simp add: example_history_def example_outcome_def recent_def epoch_number_def
      outcome_success_def)

section \<open>Quantiles\<close>

lemma bucket_edges_loop_bounds:
  "0 < v \<Longrightarrow> \<forall>x \<in> set (bucket_edges_loop n v). v \<le> x \<and> x < latencyBucketMaxMs"
proof (induction n arbitrary: v)
  case (Suc n)
  have "0 < v * latencyBucketGrowth" "v \<le> v * latencyBucketGrowth"
    using Suc.prems by (simp_all add: latencyBucketGrowth_def)
  then show ?case using Suc.IH[of "v * latencyBucketGrowth"] by fastforce
qed simp

lemma bucket_edges_loop_sorted: "0 < v \<Longrightarrow> sorted (bucket_edges_loop n v)"
proof (induction n arbitrary: v)
  case (Suc n)
  have "0 < v * latencyBucketGrowth" "v \<le> v * latencyBucketGrowth"
    using Suc.prems by (simp_all add: latencyBucketGrowth_def)
  then show ?case
    using Suc.IH[of "v * latencyBucketGrowth"] bucket_edges_loop_bounds[of "v * latencyBucketGrowth" n]
    by fastforce
qed simp

lemma edges_sorted: "sorted latencyBucketEdges"
  using bucket_edges_loop_sorted[of 1 48] bucket_edges_loop_bounds[of 1 48]
  by (auto simp: latencyBucketEdges_def buildLatencyBucketEdges_def latencyBucketFirstMs_def
      sorted_append less_imp_le)

lemma edges_below_max: "n < 42 \<Longrightarrow> latencyBucketEdges ! n < latencyBucketMaxMs"
proof -
  assume n: "n < 42"
  have "length (bucket_edges_loop 48 1) = 42"
    using edges_length by (simp add: latencyBucketEdges_def buildLatencyBucketEdges_def
        latencyBucketFirstMs_def)
  with n have "latencyBucketEdges ! n \<in> set (bucket_edges_loop 48 1)"
    by (simp add: latencyBucketEdges_def buildLatencyBucketEdges_def latencyBucketFirstMs_def nth_append)
  then show ?thesis using bucket_edges_loop_bounds[of 1 48] by auto
qed

lemma SearchFloat64s_le_iff:
  "sorted as \<Longrightarrow> n < length as \<Longrightarrow> SearchFloat64s as x \<le> n \<longleftrightarrow> x \<le> as ! n"
proof (induction as arbitrary: n)
  case (Cons a as)
  show ?case
  proof (cases n)
    case (Suc k)
    then have "as ! k \<in> set as" using Cons.prems by simp
    then have le: "a \<le> as ! k" using Cons.prems by auto
    have "SearchFloat64s as x \<le> k \<longleftrightarrow> x \<le> as ! k" using Cons Suc by simp
    then show ?thesis using le Suc by (auto intro: order_trans)
  qed simp
qed simp

text \<open>A latency is in one of the first \<open>n + 1\<close> buckets iff it is at most the edge \<open>n\<close>; the last bucket
  takes the rest.\<close>

lemma latencyBucketIndex_le_iff:
  assumes "n < 42"
  shows "latencyBucketIndex x \<le> n \<longleftrightarrow> x \<le> latencyBucketEdges ! n"
proof -
  have "latencyBucketEdges ! 0 \<le> latencyBucketEdges ! n"
    using edges_sorted assms by (auto simp: edges_length intro!: sorted_nth_mono)
  then show ?thesis
    using edges_below_max[OF assms] SearchFloat64s_le_iff[OF edges_sorted, of n x] assms
    by (auto simp: latencyBucketIndex_def edges_length)
qed

definition bucket_bound :: "nat \<Rightarrow> ExchangeOutcome \<Rightarrow> bool" where
  "bucket_bound n o1 \<longleftrightarrow> n \<ge> 42 \<or> outcome_latency o1 \<le> latencyBucketEdges ! n"

lemma bucket_bound_iff: "latencyBucketIndex (outcome_latency o1) \<le> n \<longleftrightarrow> bucket_bound n o1"
  using latencyBucketIndex_le_iff[of n "outcome_latency o1"]
    latencyBucketIndex_less[of "outcome_latency o1"]
  by (cases "n < 42") (auto simp: bucket_bound_def edges_length)

lemma length_add_buckets [simp]: "length (add_buckets xs ys) = min (length xs) (length ys)"
  by (simp add: add_buckets_def)

lemma fold_add_buckets:
  "length acc = n \<Longrightarrow> \<forall>e \<in> set es. length (me_latencyBuckets e) = n \<Longrightarrow>
   length (fold (\<lambda>e acc. add_buckets acc (me_latencyBuckets e)) es acc) = n \<and>
   (\<forall>b < n. fold (\<lambda>e acc. add_buckets acc (me_latencyBuckets e)) es acc ! b =
      acc ! b + sum_list (map (\<lambda>e. me_latencyBuckets e ! b) es))"
proof (induction es arbitrary: acc)
  case (Cons e es)
  have "length (add_buckets acc (me_latencyBuckets e)) = n" using Cons.prems by simp
  then show ?case using Cons.IH[of "add_buckets acc (me_latencyBuckets e)"] Cons.prems
    by (auto simp: add_buckets_def)
qed simp

lemma aggregated_buckets_live:
  assumes "ring_rel N H (rm_curEpoch m, rm_epochs m)" and "b < 43"
  shows "length (aggregated_buckets m) = 43"
    and "aggregated_buckets m ! b =
      length (filter (\<lambda>o1. latencyBucketIndex (outcome_latency o1) = b) (live N H))"
proof -
  have len: "length (me_latencyBuckets (epoch_of os)) = 43" for os
    using epoch_inv_epoch_of[of os] by (simp add: epoch_inv_def edges_length)
  then have "\<forall>e \<in> set (rm_epochs m). length (me_latencyBuckets e) = 43"
    using assms(1) by (auto simp: ring_rel_def)
  from fold_add_buckets[OF _ this, of "replicate 43 0"]
  have agg: "length (aggregated_buckets m) = 43"
    "aggregated_buckets m ! b = sum_epochs (\<lambda>e. me_latencyBuckets e ! b) m"
    using assms(2) by (simp_all add: aggregated_buckets_def edges_length sum_epochs_def)
  show "length (aggregated_buckets m) = 43" by (rule agg(1))
  show "aggregated_buckets m ! b =
      length (filter (\<lambda>o1. latencyBucketIndex (outcome_latency o1) = b) (live N H))"
    unfolding agg(2)
  proof (rule count_live[OF assms(1)])
    fix os o1
    show "me_latencyBuckets (epoch_of (os @ [o1])) ! b =
        bump (latencyBucketIndex (outcome_latency o1) = b) (me_latencyBuckets (epoch_of os) ! b)"
      using assms(2) by (simp add: epoch_observe_def Let_def bump_def nth_list_update len)
  qed (use assms(2) in \<open>simp add: newMetricsEpoch_def edges_length\<close>)
qed

lemma sum_take_counts:
  "(\<And>b. b < length cs \<Longrightarrow> cs ! b = length (filter (\<lambda>x. f x = b) xs)) \<Longrightarrow> n \<le> length cs \<Longrightarrow>
   sum_list (take n cs) = length (filter (\<lambda>x. f x < n) xs)"
proof (induction n)
  case (Suc n)
  have "length (filter (\<lambda>x. f x < Suc n) xs) =
      length (filter (\<lambda>x. f x < n) xs) + length (filter (\<lambda>x. f x = n) xs)"
    by (induction xs) (auto simp: less_Suc_eq)
  then show ?case using Suc by (simp add: take_Suc_conv_app_nth)
qed simp

lemma bucket_of_rank_Some:
  "cum < rank \<Longrightarrow> rank \<le> cum + sum_list cs \<Longrightarrow>
   \<exists>b. bucket_of_rank cs cum rank = Some b \<and> b < length cs \<and>
       cum + sum_list (take b cs) < rank \<and> rank \<le> cum + sum_list (take (Suc b) cs)"
proof (induction cs arbitrary: cum)
  case (Cons c cs)
  show ?case
  proof (cases "rank \<le> cum + c")
    case False
    then have "\<exists>b. bucket_of_rank cs (cum + c) rank = Some b \<and> b < length cs \<and>
        cum + c + sum_list (take b cs) < rank \<and> rank \<le> cum + c + sum_list (take (Suc b) cs)"
      using Cons.prems by (intro Cons.IH) auto
    then obtain b where "bucket_of_rank cs (cum + c) rank = Some b" "b < length cs"
      "cum + c + sum_list (take b cs) < rank" "rank \<le> cum + c + sum_list (take (Suc b) cs)" by blast
    then show ?thesis using False by (intro exI[of _ "Suc b"]) auto
  qed (use Cons.prems in auto)
qed simp

lemma rank_at_least_one: "(if n = 0 then 1 else n) = max 1 (n :: nat)"
  by auto

text \<open>
  C34. Latency quantiles are nearest-rank. With \<open>n\<close> exchanges in the window, the quantile \<open>p\<close> is the
  upper edge of the bucket that contains the exchange of rank \<open>max 1 \<lceil>n * p\<rceil>\<close>: that many exchanges
  are at or below this edge and fewer at or below the previous one. There is no quantile exactly when
  the window is empty.
\<close>

theorem percentile_nearest_rank:
  assumes "hs \<noteq> []" and "0 < fst (hd hs)" and "sorted (map fst hs @ [now])"
    and "now - fst (hd hs) < 2 ^ 63" and "10 \<le> w" and "0 \<le> p" and "p \<le> 1"
    and "rs = recent (w div 10) now hs" and "rank = max 1 (nat \<lceil>real (length rs) * p\<rceil>)"
  shows "if rs = [] then fst (PercentileBuf now p (observed w hs)) = None
    else \<exists>b < length latencyBucketEdges.
      fst (PercentileBuf now p (observed w hs)) = Some (edge_duration b) \<and>
      rank \<le> length (filter (bucket_bound b) rs) \<and>
      (b = 0 \<or> length (filter (bucket_bound (b - 1)) rs) < rank)"
proof -
  define m where "m = advanceLocked now (observed w hs)"
  obtain N H where ring: "ring_rel N H (rm_curEpoch m, rm_epochs m)" and rs: "live N H = rs"
    using observed_advanced[OF assms(1-5)] assms(8) unfolding m_def by blast
  have "sum_epochs me_total m = length (filter (\<lambda>_. True) rs)"
    unfolding rs[symmetric]
    by (rule count_live[OF ring])
      (simp_all add: newMetricsEpoch_def epoch_observe_def Let_def bump_def)
  then have total: "sum_epochs me_total m = length rs" by simp
  let ?cs = "aggregated_buckets m"
  have len: "length ?cs = 43" using aggregated_buckets_live(1)[OF ring, of 0] by simp
  have take: "sum_list (take n ?cs) =
      length (filter (\<lambda>o1. latencyBucketIndex (outcome_latency o1) < n) rs)" if "n \<le> 43" for n
    using that aggregated_buckets_live(2)[OF ring] rs len by (intro sum_take_counts) auto
  show ?thesis
  proof (cases "rs = []")
    case True
    then show ?thesis using total by (simp add: PercentileBuf_def Let_def m_def)
  next
    case False
    have "real (length rs) * p \<le> real (length rs)" using assms(6,7) by (simp add: mult_left_le)
    then have "rank \<le> length rs" using False assms(9) by (simp add: Suc_le_eq ceiling_le_iff nat_le_iff)
    moreover have "sum_list ?cs = length rs"
      using take[of 43] latencyBucketIndex_less len by (simp add: edges_length)
    moreover have pos: "0 < rank" using assms(9) by linarith
    ultimately obtain b where b: "bucket_of_rank ?cs 0 rank = Some b" "b < 43"
      "sum_list (take b ?cs) < rank" "rank \<le> sum_list (take (Suc b) ?cs)"
      using bucket_of_rank_Some[of 0 rank ?cs] pos len by auto
    have "(if nat \<lceil>real (length rs) * p\<rceil> = 0 then 1 else nat \<lceil>real (length rs) * p\<rceil>) = rank"
      unfolding assms(9) by (rule rank_at_least_one)
    then have "fst (PercentileBuf now p (observed w hs)) = Some (edge_duration b)"
      using False total b(1) assms(6,7) by (simp add: PercentileBuf_def Let_def m_def[symmetric])
    moreover have "rank \<le> length (filter (bucket_bound b) rs)"
      using b take[of "Suc b"] by (simp add: less_Suc_eq_le bucket_bound_iff)
    moreover have "b = 0 \<or> length (filter (bucket_bound (b - 1)) rs) < rank"
      using b take[of b] bucket_bound_iff[of _ "b - 1"] by (cases b) (auto simp: less_Suc_eq_le)
    ultimately show ?thesis using False b(2) edges_length by auto
  qed
qed

theorem percentile_nearest_rank_witness:
  "\<exists>b < length latencyBucketEdges.
      fst (PercentileBuf 125 (1/2) (observed 100 example_history)) = Some (edge_duration b)"
  using percentile_nearest_rank[OF _ _ _ _ _ _ _ refl refl, of example_history 125 100 "1/2"]
  by (auto simp: example_history_def example_outcome_def recent_def epoch_number_def)

end
