(* ===== verification/Mds.thy ===== *)
theory Mds
  imports Metrics Server_Types "HOL-Library.Char_ord" "HOL-Library.List_Lexorder"
begin

text \<open>
  The multi-dimensional scheduler (\<^verbatim>\<open>dnscrypt-proxy/scheduler_mds.go\<close>): scores of the resolvers, the
  choice of the resolver for a query, and the circuit breaker that the results of the exchanges drive.
  One call reads the clock once, so the current time is an argument; so are the random numbers: \<open>u\<close> for
  \<^verbatim>\<open>rng.Float64()\<close> and \<open>r\<close> for \<^verbatim>\<open>rng.Intn(n)\<close>, which is \<open>r mod n\<close>. An index that may be \<open>-1\<close> in the
  source is an \<open>option\<close>. Maps of the source are partial functions; names compare bytewise.
\<close>

section \<open>State\<close>

record MDSParams =
  mp_WarmupSamples :: nat
  mp_PenaltyMinSamples :: nat
  mp_SwitchMargin :: real
  mp_TieBand :: real
  mp_Dwell :: duration
  mp_ExploreProb :: real
  mp_BreakerThreshold :: "32 word"
  mp_HalfOpenInterval :: duration
  mp_WeightTimeout :: real
  mp_WeightErrors :: real
  mp_WeightServfail :: real
  mp_WeightBogus :: real
  mp_WeightTruncated :: real
  mp_WeightFallback :: real
  mp_WeightConnNew :: real
  mp_WeightJitter :: real

definition DefaultMDSParams :: MDSParams where
  "DefaultMDSParams =
     \<lparr>mp_WarmupSamples = 20, mp_PenaltyMinSamples = 10, mp_SwitchMargin = 0.15, mp_TieBand = 0.03,
      mp_Dwell = 5 * second, mp_ExploreProb = 0.15, mp_BreakerThreshold = 3,
      mp_HalfOpenInterval = 10 * second, mp_WeightTimeout = 0.5, mp_WeightErrors = 0.3,
      mp_WeightServfail = 0.2, mp_WeightBogus = 0.5, mp_WeightTruncated = 0.05,
      mp_WeightFallback = 0.1, mp_WeightConnNew = 0.05, mp_WeightJitter = 0.1\<rparr>"

record mdsCircuit =
  cb_consecHardFails :: "32 word"
  cb_open :: bool
  cb_probing :: bool
  cb_openedAt :: go_time
  cb_nextProbeAt :: go_time
  cb_recoverUntilTotal :: nat

definition new_mdsCircuit :: mdsCircuit where
  "new_mdsCircuit =
     \<lparr>cb_consecHardFails = 0, cb_open = False, cb_probing = False, cb_openedAt = 0,
      cb_nextProbeAt = 0, cb_recoverUntilTotal = 0\<rparr>"

record LBStrategyMDS =
  mds_params :: MDSParams
  mds_primaryName :: string
  mds_primarySince :: go_time
  mds_circuits :: "string \<rightharpoonup> mdsCircuit"
  mds_totalSwitches :: nat
  mds_switchesByName :: "string \<Rightarrow> nat"

definition NewLBStrategyMDS :: "MDSParams \<Rightarrow> LBStrategyMDS" where
  "NewLBStrategyMDS params =
     \<lparr>mds_params = params, mds_primaryName = [], mds_primarySince = 0, mds_circuits = Map.empty,
      mds_totalSwitches = 0, mds_switchesByName = (\<lambda>_. 0)\<rparr>"

record mdsScored =
  ms_name :: string
  ms_warming :: bool
  ms_open :: bool
  ms_tailMs :: real
  ms_cost :: real
  ms_penalty :: real
  ms_base :: real
  ms_soft :: real

record ResolverCandidate =
  rc_Server :: ServerInfo
  rc_Metrics :: ResolverMetrics

section \<open>Scores\<close>

definition isWarmingLocked :: "LBStrategyMDS \<Rightarrow> string \<Rightarrow> nat \<Rightarrow> nat \<Rightarrow> bool" where
  "isWarmingLocked mds name totalSamples warmupSamples =
     (if totalSamples < warmupSamples then True
      else case mds_circuits mds name of
             None \<Rightarrow> False
           | Some cb \<Rightarrow> cb_recoverUntilTotal cb > totalSamples)"

definition softPreference :: "LBStrategyMDS \<Rightarrow> ServerInfo \<Rightarrow> MetricsWindow \<Rightarrow> bool \<Rightarrow> real" where
  "softPreference mds server w warming =
     (if SupportsNoFilter server then 1 else 0) + (if SupportsDNSSEC server then 1 else 0) +
     (if \<not> warming \<and> mw_Samples w \<ge> mp_PenaltyMinSamples (mds_params mds)
      then real (mw_ECSReturned w) / real (mw_Samples w) else 0)"

definition tail_latency :: "go_time \<Rightarrow> real \<Rightarrow> MetricsWindow \<Rightarrow> ResolverMetrics \<Rightarrow> real" where
  "tail_latency now initialMs w m =
     (let latency = (if mw_LatencyEwmaMs w \<le> 0 then initialMs else mw_LatencyEwmaMs w);
          tail = (case fst (PercentileBuf now 0.95 m) of
                    Some p95 \<Rightarrow> 0.6 * latency + 0.4 * (of_int p95 / of_int millisecond)
                  | None \<Rightarrow> latency)
      in if tail \<le> 0 then initialMs else tail)"

definition quality_penalty :: "MDSParams \<Rightarrow> real \<Rightarrow> MetricsWindow \<Rightarrow> real" where
  "quality_penalty p tail w =
     (if mw_Samples w \<ge> mp_PenaltyMinSamples p
      then let rate = (\<lambda>n. real n / real (mw_Samples w));
               jitterRatio = (if tail > 0 then min 1 (mw_JitterEwmaMs w / tail) else 0)
           in mp_WeightTimeout p * rate (mw_Timeout w) + mp_WeightErrors p * rate (mw_Errors w) +
              mp_WeightServfail p * rate (mw_Servfail w) + mp_WeightBogus p * rate (mw_DNSSECBogus w) +
              mp_WeightTruncated p * rate (window_Truncated w) +
              mp_WeightFallback p * rate (mw_TCPFallback w + mw_QUICFallback w) +
              mp_WeightConnNew p * rate (mw_ConnNew w) + mp_WeightJitter p * jitterRatio
      else 0)"

definition score_one :: "go_time \<Rightarrow> LBStrategyMDS \<Rightarrow> ResolverCandidate \<Rightarrow> mdsScored" where
  "score_one now mds c =
     (let p = mds_params mds;
          (w, m) = Snapshot now (rc_Metrics c);
          name = si_Name (rc_Server c);
          warming = isWarmingLocked mds name (mw_TotalSamples w) (mp_WarmupSamples p);
          initialMs = of_int (si_initialRtt (rc_Server c));
          tail = (if warming then initialMs else tail_latency now initialMs w m);
          penalty = (if warming then 0 else quality_penalty p tail w)
      in \<lparr>ms_name = name, ms_warming = warming,
          ms_open = (case mds_circuits mds name of None \<Rightarrow> False | Some cb \<Rightarrow> cb_open cb),
          ms_tailMs = tail, ms_cost = 0, ms_penalty = penalty, ms_base = 0,
          ms_soft = softPreference mds (rc_Server c) w warming\<rparr>)"

definition MaxFloat64 :: real where
  "MaxFloat64 = (2 - 1 / 2 ^ 52) * 2 ^ 1023"

definition best_tail :: "mdsScored list \<Rightarrow> real" where
  "best_tail ss = fold (\<lambda>s best. if ms_tailMs s < best then ms_tailMs s else best) ss MaxFloat64"

definition worst_tail :: "mdsScored list \<Rightarrow> real" where
  "worst_tail ss = fold (\<lambda>s worst. if ms_tailMs s > worst then ms_tailMs s else worst) ss 0"

definition set_base :: "real \<Rightarrow> real \<Rightarrow> mdsScored \<Rightarrow> mdsScored" where
  "set_base bestTail spread s =
     (let cost = (if spread > 1 / 10 ^ 9
                  then let x = (ms_tailMs s - bestTail) / spread
                       in if x < 0 then 0 else if x > 1 then 1 else x
                  else 0)
      in s\<lparr>ms_cost := cost, ms_base := 1 - cost - ms_penalty s\<rparr>)"

definition scoreAll :: "go_time \<Rightarrow> LBStrategyMDS \<Rightarrow> ResolverCandidate list \<Rightarrow> mdsScored list" where
  "scoreAll now mds candidates =
     (let scored = map (score_one now mds) candidates;
          bestTail = best_tail scored
      in map (set_base bestTail (worst_tail scored - bestTail)) scored)"

definition better :: "LBStrategyMDS \<Rightarrow> mdsScored \<Rightarrow> mdsScored \<Rightarrow> bool" where
  "better mds a b =
     (if \<bar>ms_base a - ms_base b\<bar> > mp_TieBand (mds_params mds) then ms_base a > ms_base b
      else if ms_soft a \<noteq> ms_soft b then ms_soft a > ms_soft b
      else ms_name a < ms_name b)"

section \<open>Selection\<close>

primrec probe_loop ::
  "(string \<rightharpoonup> mdsCircuit) \<Rightarrow> go_time \<Rightarrow> mdsScored list \<Rightarrow> nat \<Rightarrow> (nat \<times> go_time) option \<Rightarrow>
   (nat \<times> go_time) option" where
  "probe_loop circuits now [] i pick = pick"
| "probe_loop circuits now (s # ss) i pick =
     probe_loop circuits now ss (Suc i)
       (if \<not> ms_open s then pick
        else case circuits (ms_name s) of
               None \<Rightarrow> pick
             | Some cb \<Rightarrow>
                 if cb_probing cb \<or> time_after (cb_nextProbeAt cb) now then pick
                 else case pick of
                        None \<Rightarrow> Some (i, cb_openedAt cb)
                      | Some (j, earliest) \<Rightarrow>
                          if time_before (cb_openedAt cb) earliest then Some (i, cb_openedAt cb)
                          else pick)"

definition pickHalfOpenProbe :: "LBStrategyMDS \<Rightarrow> mdsScored list \<Rightarrow> go_time \<Rightarrow> nat option" where
  "pickHalfOpenProbe mds scored now =
     map_option fst (probe_loop (mds_circuits mds) now scored 0 None)"

definition explore_pool :: "mdsScored list \<Rightarrow> nat option \<Rightarrow> nat list" where
  "explore_pool scored primaryIdx =
     (let healthy = filter (\<lambda>i. \<not> (Some i = primaryIdx \<or> ms_open (scored ! i))) [0..<length scored];
          warming = filter (\<lambda>i. ms_warming (scored ! i)) healthy
      in if warming \<noteq> [] then warming else healthy)"

definition pickExploreTarget :: "nat \<Rightarrow> mdsScored list \<Rightarrow> nat option \<Rightarrow> nat option" where
  "pickExploreTarget r scored primaryIdx =
     (let pool = explore_pool scored primaryIdx
      in if pool = [] then None else Some (pool ! (r mod length pool)))"

primrec healthy_loop ::
  "LBStrategyMDS \<Rightarrow> nat option \<Rightarrow> mdsScored list \<Rightarrow> nat \<Rightarrow> (nat \<times> mdsScored) option \<Rightarrow>
   (nat \<times> mdsScored) option" where
  "healthy_loop mds exclude [] i best = best"
| "healthy_loop mds exclude (s # ss) i best =
     healthy_loop mds exclude ss (Suc i)
       (if Some i = exclude \<or> ms_open s then best
        else case best of
               None \<Rightarrow> Some (i, s)
             | Some (j, t) \<Rightarrow> if better mds s t then Some (i, s) else best)"

definition bestHealthy :: "LBStrategyMDS \<Rightarrow> mdsScored list \<Rightarrow> nat option \<Rightarrow> nat option" where
  "bestHealthy mds scored exclude = map_option fst (healthy_loop mds exclude scored 0 None)"

definition becomePrimary :: "go_time \<Rightarrow> string \<Rightarrow> LBStrategyMDS \<Rightarrow> LBStrategyMDS" where
  "becomePrimary now name mds =
     (if mds_primaryName mds = name then mds
      else mds\<lparr>mds_totalSwitches := mds_totalSwitches mds + 1,
               mds_switchesByName := (mds_switchesByName mds)(name := mds_switchesByName mds name + 1),
               mds_primaryName := name, mds_primarySince := now\<rparr>)"

text \<open>The fallback when every circuit is open: the loop that starts with index 0.\<close>

primrec best_any_loop :: "LBStrategyMDS \<Rightarrow> mdsScored list \<Rightarrow> nat \<Rightarrow> nat \<times> mdsScored \<Rightarrow> nat" where
  "best_any_loop mds [] i best = fst best"
| "best_any_loop mds (s # ss) i best =
     best_any_loop mds ss (Suc i) (if better mds s (snd best) then (i, s) else best)"

definition best_any :: "LBStrategyMDS \<Rightarrow> mdsScored list \<Rightarrow> nat" where
  "best_any mds scored = best_any_loop mds (tl scored) 1 (0, hd scored)"

primrec first_index :: "('a \<Rightarrow> bool) \<Rightarrow> 'a list \<Rightarrow> nat option" where
  "first_index P [] = None"
| "first_index P (x # xs) = (if P x then Some 0 else map_option Suc (first_index P xs))"

definition select_best ::
  "go_time \<Rightarrow> mdsScored list \<Rightarrow> LBStrategyMDS \<Rightarrow> nat \<times> LBStrategyMDS" where
  "select_best now scored mds =
     (let best = (case bestHealthy mds scored None of None \<Rightarrow> best_any mds scored | Some i \<Rightarrow> i)
      in (best, becomePrimary now (ms_name (scored ! best)) mds))"

definition select_sticky ::
  "go_time \<Rightarrow> mdsScored list \<Rightarrow> nat option \<Rightarrow> LBStrategyMDS \<Rightarrow> nat \<times> LBStrategyMDS" where
  "select_sticky now scored primaryIdx mds =
     (case primaryIdx of
        None \<Rightarrow> select_best now scored mds
      | Some i \<Rightarrow>
          if ms_open (scored ! i) then select_best now scored mds
          else case bestHealthy mds scored primaryIdx of
                 None \<Rightarrow> (i, mds)
               | Some bestOther \<Rightarrow>
                   if time_sub now (mds_primarySince mds) < mp_Dwell (mds_params mds) then (i, mds)
                   else if ms_base (scored ! bestOther) - ms_base (scored ! i) \<ge>
                             mp_SwitchMargin (mds_params mds) \<and>
                           better mds (scored ! bestOther) (scored ! i)
                   then (bestOther, becomePrimary now (ms_name (scored ! bestOther)) mds)
                   else (i, mds))"

definition set_probing :: "string \<Rightarrow> LBStrategyMDS \<Rightarrow> LBStrategyMDS" where
  "set_probing name mds =
     mds\<lparr>mds_circuits :=
           (case mds_circuits mds name of
              None \<Rightarrow> mds_circuits mds
            | Some cb \<Rightarrow> (mds_circuits mds)(name \<mapsto> cb\<lparr>cb_probing := True\<rparr>))\<rparr>"

definition selectCandidateLocked ::
  "go_time \<Rightarrow> real \<Rightarrow> nat \<Rightarrow> ResolverCandidate list \<Rightarrow> LBStrategyMDS \<Rightarrow> nat \<times> LBStrategyMDS" where
  "selectCandidateLocked now u r candidates mds =
     (if candidates = [] then (0, mds)
      else if length candidates = 1
      then (0, becomePrimary now (si_Name (rc_Server (candidates ! 0))) mds)
      else let scored = scoreAll now mds candidates;
               primaryIdx = first_index (\<lambda>s. ms_name s = mds_primaryName mds) scored
           in case pickHalfOpenProbe mds scored now of
                Some probeIdx \<Rightarrow> (probeIdx, set_probing (ms_name (scored ! probeIdx)) mds)
              | None \<Rightarrow>
                  (case (if u < mp_ExploreProb (mds_params mds)
                         then pickExploreTarget r scored primaryIdx else None) of
                     Some exploreIdx \<Rightarrow> (exploreIdx, mds)
                   | None \<Rightarrow> select_sticky now scored primaryIdx mds))"

section \<open>Feedback\<close>

definition circuitFor :: "LBStrategyMDS \<Rightarrow> string \<Rightarrow> mdsCircuit" where
  "circuitFor mds name =
     (case mds_circuits mds name of None \<Rightarrow> new_mdsCircuit | Some cb \<Rightarrow> cb)"

definition hard_failure :: "ExchangeOutcome \<Rightarrow> bool" where
  "hard_failure o1 \<longleftrightarrow> eo_Timeout o1 \<or> eo_Error o1"

definition circuit_feedback ::
  "MDSParams \<Rightarrow> go_time \<Rightarrow> ExchangeOutcome \<Rightarrow> nat \<Rightarrow> mdsCircuit \<Rightarrow> mdsCircuit" where
  "circuit_feedback p now o1 totalSamples cb =
     (if hard_failure o1 then
        if cb_open cb \<and> cb_probing cb
        then cb\<lparr>cb_consecHardFails := cb_consecHardFails cb + 1, cb_probing := False,
                cb_nextProbeAt := time_add now (mp_HalfOpenInterval p)\<rparr>
        else if cb_recoverUntilTotal cb > totalSamples
        then cb\<lparr>cb_recoverUntilTotal := 0, cb_consecHardFails := 1\<rparr>
        else if totalSamples < mp_WarmupSamples p then cb\<lparr>cb_consecHardFails := 0\<rparr>
        else let fails = cb_consecHardFails cb + 1;
                 cb' = cb\<lparr>cb_consecHardFails := fails\<rparr>
             in if \<not> cb_open cb \<and> fails \<ge> mp_BreakerThreshold p
                then cb'\<lparr>cb_open := True, cb_openedAt := now,
                         cb_nextProbeAt := time_add now (mp_HalfOpenInterval p),
                         cb_probing := False, cb_recoverUntilTotal := 0\<rparr>
                else cb'
      else let cb' = cb\<lparr>cb_consecHardFails := 0\<rparr>
           in if cb_open cb \<and> cb_probing cb
              then cb'\<lparr>cb_open := False, cb_probing := False,
                       cb_recoverUntilTotal := totalSamples + mp_WarmupSamples p\<rparr>
              else cb')"

definition observeFeedbackLocked ::
  "go_time \<Rightarrow> string \<Rightarrow> ExchangeOutcome \<Rightarrow> nat \<Rightarrow> LBStrategyMDS \<Rightarrow> LBStrategyMDS" where
  "observeFeedbackLocked now name o1 totalSamples mds =
     mds\<lparr>mds_circuits := (mds_circuits mds)
           (name \<mapsto> circuit_feedback (mds_params mds) now o1 totalSamples (circuitFor mds name))\<rparr>"

section \<open>Lemmas on the choice\<close>

definition circuit_open :: "LBStrategyMDS \<Rightarrow> string \<Rightarrow> bool" where
  "circuit_open mds name = (case mds_circuits mds name of None \<Rightarrow> False | Some cb \<Rightarrow> cb_open cb)"

definition cand_name :: "ResolverCandidate \<Rightarrow> string" where
  "cand_name c = si_Name (rc_Server c)"

text \<open>A circuit that a half-open probe may use now, and when it opened.\<close>

definition probe_due :: "LBStrategyMDS \<Rightarrow> go_time \<Rightarrow> string \<Rightarrow> bool" where
  "probe_due mds now name =
     (case mds_circuits mds name of
        None \<Rightarrow> False
      | Some cb \<Rightarrow> cb_open cb \<and> \<not> cb_probing cb \<and> cb_nextProbeAt cb \<le> now)"

definition opened_at :: "LBStrategyMDS \<Rightarrow> string \<Rightarrow> go_time" where
  "opened_at mds name = (case mds_circuits mds name of None \<Rightarrow> 0 | Some cb \<Rightarrow> cb_openedAt cb)"

lemma length_scoreAll [simp]: "length (scoreAll now mds cs) = length cs"
  by (simp add: scoreAll_def Let_def)

lemma set_base_fields [simp]:
  "ms_name (set_base a b s) = ms_name s" "ms_open (set_base a b s) = ms_open s"
  "ms_warming (set_base a b s) = ms_warming s"
  by (simp_all add: set_base_def Let_def)

lemma score_one_fields [simp]:
  "ms_name (score_one now mds c) = cand_name c"
  "ms_open (score_one now mds c) = circuit_open mds (cand_name c)"
  by (simp_all add: score_one_def Let_def cand_name_def circuit_open_def split_beta)

lemma scoreAll_nth [simp]:
  assumes "i < length cs"
  shows "ms_name (scoreAll now mds cs ! i) = cand_name (cs ! i)"
    and "ms_open (scoreAll now mds cs ! i) = circuit_open mds (cand_name (cs ! i))"
  using assms by (simp_all add: scoreAll_def Let_def)

lemma probe_loop_spec:
  assumes "\<forall>s \<in> set ss. ms_open s = circuit_open mds (ms_name s)"
  shows "case probe_loop (mds_circuits mds) now ss n pick of
      None \<Rightarrow> pick = None \<and> (\<forall>s \<in> set ss. \<not> probe_due mds now (ms_name s))
    | Some (i, t) \<Rightarrow>
        (pick = Some (i, t) \<or> n \<le> i \<and> i < n + length ss \<and> probe_due mds now (ms_name (ss ! (i - n))) \<and>
           t = opened_at mds (ms_name (ss ! (i - n)))) \<and>
        (\<forall>s \<in> set ss. probe_due mds now (ms_name s) \<longrightarrow> t \<le> opened_at mds (ms_name s)) \<and>
        (\<forall>j e. pick = Some (j, e) \<longrightarrow> t \<le> e)"
  using assms
proof (induction ss arbitrary: n pick)
  case Nil
  then show ?case by (cases pick) auto
next
  case (Cons s ss)
  define pick' where "pick' = (if \<not> probe_due mds now (ms_name s) then pick
      else case pick of None \<Rightarrow> Some (n, opened_at mds (ms_name s))
      | Some (j, e) \<Rightarrow> if opened_at mds (ms_name s) < e then Some (n, opened_at mds (ms_name s)) else pick)"
  have step: "probe_loop (mds_circuits mds) now (s # ss) n pick =
      probe_loop (mds_circuits mds) now ss (Suc n) pick'"
    using Cons.prems
    by (auto simp: pick'_def probe_due_def opened_at_def circuit_open_def time_after_def
        time_before_def split: option.splits)
  note IH = Cons.IH[where n = "Suc n" and pick = pick']
  show ?case
  proof (cases "probe_loop (mds_circuits mds) now ss (Suc n) pick'")
    case None
    then show ?thesis using IH Cons.prems unfolding step
      by (auto simp: pick'_def split: if_splits option.splits prod.splits)
  next
    case (Some it)
    obtain i t where it: "it = (i, t)" by force
    have a: "pick' = Some (i, t) \<or> Suc n \<le> i \<and> i < Suc n + length ss \<and>
        probe_due mds now (ms_name (ss ! (i - Suc n))) \<and> t = opened_at mds (ms_name (ss ! (i - Suc n)))"
      and b: "\<forall>s \<in> set ss. probe_due mds now (ms_name s) \<longrightarrow> t \<le> opened_at mds (ms_name s)"
      and c: "\<forall>j e. pick' = Some (j, e) \<longrightarrow> t \<le> e"
      using IH Cons.prems Some it by auto
    have "pick = Some (i, t) \<or> n \<le> i \<and> i < n + length (s # ss) \<and>
        probe_due mds now (ms_name ((s # ss) ! (i - n))) \<and> t = opened_at mds (ms_name ((s # ss) ! (i - n)))"
      using a
    proof
      assume "pick' = Some (i, t)"
      then show ?thesis by (auto simp: pick'_def split: if_splits option.splits prod.splits)
    next
      assume "Suc n \<le> i \<and> i < Suc n + length ss \<and>
        probe_due mds now (ms_name (ss ! (i - Suc n))) \<and> t = opened_at mds (ms_name (ss ! (i - Suc n)))"
      moreover from this have "i - n = Suc (i - Suc n)" by linarith
      ultimately show ?thesis by auto
    qed
    moreover have "probe_due mds now (ms_name s) \<longrightarrow> t \<le> opened_at mds (ms_name s)"
      using c by (force simp: pick'_def split: if_splits option.splits prod.splits)
    moreover have "\<forall>j e. pick = Some (j, e) \<longrightarrow> t \<le> e"
      using c by (force simp: pick'_def split: if_splits option.splits prod.splits)
    ultimately show ?thesis using b unfolding step Some it by simp
  qed
qed

lemma pickHalfOpenProbe_spec:
  "case pickHalfOpenProbe mds (scoreAll now mds cs) now of
     None \<Rightarrow> \<forall>c \<in> set cs. \<not> probe_due mds now (cand_name c)
   | Some i \<Rightarrow> i < length cs \<and> probe_due mds now (cand_name (cs ! i)) \<and>
       (\<forall>c \<in> set cs. probe_due mds now (cand_name c) \<longrightarrow>
          opened_at mds (cand_name (cs ! i)) \<le> opened_at mds (cand_name c))"
proof -
  let ?ss = "scoreAll now mds cs"
  have op: "\<forall>s \<in> set ?ss. ms_open s = circuit_open mds (ms_name s)"
    by (auto simp: in_set_conv_nth)
  have names: "(\<forall>s \<in> set ?ss. P (ms_name s)) \<longleftrightarrow> (\<forall>c \<in> set cs. P (cand_name c))" for P
    by (auto simp: all_set_conv_all_nth)
  show ?thesis
    using probe_loop_spec[OF op, where now = now and n = 0 and pick = None] names[of "\<lambda>x. \<not> probe_due mds now x"]
      names[of "\<lambda>x. probe_due mds now x \<longrightarrow> t \<le> opened_at mds x" for t]
    by (auto simp: pickHalfOpenProbe_def split: option.splits)
qed

lemma healthy_loop_spec:
  "case healthy_loop mds ex ss n best of
     None \<Rightarrow> best = None \<and> (\<forall>k < length ss. Some (n + k) = ex \<or> ms_open (ss ! k))
   | Some (i, s) \<Rightarrow> best = Some (i, s) \<or>
       n \<le> i \<and> i < n + length ss \<and> s = ss ! (i - n) \<and> Some i \<noteq> ex \<and> \<not> ms_open s"
proof (induction ss arbitrary: n best)
  case Nil
  then show ?case by (cases best) auto
next
  case (Cons s ss)
  define best' where "best' = (if Some n = ex \<or> ms_open s then best
      else case best of None \<Rightarrow> Some (n, s) | Some (j, t) \<Rightarrow> if better mds s t then Some (n, s) else best)"
  have step: "healthy_loop mds ex (s # ss) n best = healthy_loop mds ex ss (Suc n) best'"
    by (simp add: best'_def)
  show ?case
  proof (cases "healthy_loop mds ex ss (Suc n) best'")
    case None
    then have "best' = None" "\<forall>k < length ss. Some (Suc n + k) = ex \<or> ms_open (ss ! k)"
      using Cons.IH[where n = "Suc n" and best = best'] by auto
    then show ?thesis unfolding step None
      by (auto simp: best'_def less_Suc_eq_0_disj split: if_splits option.splits prod.splits)
  next
    case (Some it)
    obtain i t where it: "it = (i, t)" by force
    have "best' = Some (i, t) \<or> Suc n \<le> i \<and> i < Suc n + length ss \<and> t = ss ! (i - Suc n) \<and>
        Some i \<noteq> ex \<and> \<not> ms_open t" using Cons.IH[where n = "Suc n" and best = best'] Some it by auto
    then show ?thesis
    proof
      assume "best' = Some (i, t)"
      then show ?thesis unfolding step Some it
        by (auto simp: best'_def split: if_splits option.splits prod.splits)
    next
      assume "Suc n \<le> i \<and> i < Suc n + length ss \<and> t = ss ! (i - Suc n) \<and> Some i \<noteq> ex \<and> \<not> ms_open t"
      moreover from this have "i - n = Suc (i - Suc n)" by linarith
      ultimately show ?thesis unfolding step Some it by auto
    qed
  qed
qed

lemma bestHealthy_spec:
  "case bestHealthy mds ss ex of
     None \<Rightarrow> \<forall>k < length ss. Some k = ex \<or> ms_open (ss ! k)
   | Some i \<Rightarrow> i < length ss \<and> Some i \<noteq> ex \<and> \<not> ms_open (ss ! i)"
  using healthy_loop_spec[where mds = mds and ex = ex and ss = ss and n = 0 and best = None]
  by (auto simp: bestHealthy_def split: option.splits)

lemma best_any_loop_bound:
  "fst best < n \<Longrightarrow> best_any_loop mds ss n best < n + length ss"
proof (induction ss arbitrary: n best)
  case (Cons s ss)
  then show ?case using Cons.IH[where best = "if better mds s (snd best) then (n, s) else best" and n = "Suc n"]
    by simp
qed simp

lemma best_any_bound: "ss \<noteq> [] \<Longrightarrow> best_any mds ss < length ss"
  using best_any_loop_bound[of "(0, hd ss)" 1 mds "tl ss"] by (cases ss) (auto simp: best_any_def)

lemma explore_pool_spec:
  "i \<in> set (explore_pool ss pr) \<Longrightarrow> i < length ss \<and> Some i \<noteq> pr \<and> \<not> ms_open (ss ! i)"
  by (auto simp: explore_pool_def Let_def split: if_splits)

lemma pickExploreTarget_spec:
  "pickExploreTarget r ss pr = Some i \<Longrightarrow> i < length ss \<and> Some i \<noteq> pr \<and> \<not> ms_open (ss ! i)"
  by (auto simp: pickExploreTarget_def Let_def intro!: explore_pool_spec split: if_splits)

lemma first_index_Some: "first_index P xs = Some i \<Longrightarrow> i < length xs \<and> P (xs ! i)"
  by (induction xs arbitrary: i) (auto split: if_splits)

lemma first_index_None: "first_index P xs = None \<longleftrightarrow> (\<forall>x \<in> set xs. \<not> P x)"
  by (induction xs) auto

lemma find_primary:
  "case first_index (\<lambda>s. ms_name s = x) (scoreAll now mds cs) of
     None \<Rightarrow> \<forall>c \<in> set cs. cand_name c \<noteq> x
   | Some i \<Rightarrow> i < length cs \<and> cand_name (cs ! i) = x"
proof (cases "first_index (\<lambda>s. ms_name s = x) (scoreAll now mds cs)")
  case None
  then have "\<forall>k < length cs. cand_name (cs ! k) \<noteq> x"
    unfolding first_index_None by (metis length_scoreAll nth_mem scoreAll_nth(1))
  then show ?thesis using None by (auto simp: in_set_conv_nth)
next
  case (Some i)
  then show ?thesis using first_index_Some[OF Some] by auto
qed

lemma becomePrimary_fields [simp]:
  "mds_circuits (becomePrimary now x mds) = mds_circuits mds"
  "mds_params (becomePrimary now x mds) = mds_params mds"
  "mds_primaryName (becomePrimary now x mds) = x"
  by (simp_all add: becomePrimary_def)

lemma becomePrimary_since:
  "mds_primaryName mds \<noteq> x \<Longrightarrow> mds_primarySince (becomePrimary now x mds) = now"
  by (simp add: becomePrimary_def)

lemma set_probing_fields [simp]:
  "mds_params (set_probing x mds) = mds_params mds"
  "mds_primaryName (set_probing x mds) = mds_primaryName mds"
  by (simp_all add: set_probing_def)

text \<open>The choice of the best candidate, and the path of the sticky primary.\<close>

lemma select_best_spec:
  assumes "select_best now (scoreAll now mds cs) mds = (i, mds')" and "cs \<noteq> []"
  shows "i < length cs \<and> mds' = becomePrimary now (cand_name (cs ! i)) mds \<and>
    (circuit_open mds (cand_name (cs ! i)) \<longrightarrow> (\<forall>c \<in> set cs. circuit_open mds (cand_name c)))"
proof (cases "bestHealthy mds (scoreAll now mds cs) None")
  case None
  then have "\<forall>k < length cs. circuit_open mds (cand_name (cs ! k))"
    using bestHealthy_spec[where mds = mds and ss = "scoreAll now mds cs" and ex = None] by simp
  moreover have "scoreAll now mds cs \<noteq> []" using assms(2) by (metis length_0_conv length_scoreAll)
  then have "best_any mds (scoreAll now mds cs) < length cs" using best_any_bound by fastforce
  ultimately show ?thesis using assms(1) None by (auto simp: select_best_def Let_def in_set_conv_nth)
next
  case (Some j)
  then show ?thesis using assms(1) bestHealthy_spec[where mds = mds and ss = "scoreAll now mds cs" and ex = None]
    by (auto simp: select_best_def Let_def)
qed

definition may_switch :: "go_time \<Rightarrow> LBStrategyMDS \<Rightarrow> ResolverCandidate list \<Rightarrow> nat \<Rightarrow> bool" where
  "may_switch now mds cs i \<longleftrightarrow>
     mp_Dwell (mds_params mds) \<le> time_sub now (mds_primarySince mds) \<and>
     (\<exists>j < length cs. cand_name (cs ! j) = mds_primaryName mds \<and>
        mp_SwitchMargin (mds_params mds) \<le>
          ms_base (scoreAll now mds cs ! i) - ms_base (scoreAll now mds cs ! j))"

lemma select_sticky_spec:
  assumes "select_sticky now (scoreAll now mds cs)
      (first_index (\<lambda>s. ms_name s = mds_primaryName mds) (scoreAll now mds cs)) mds = (i, mds')"
    and "cs \<noteq> []"
  shows "i < length cs \<and>
    (circuit_open mds (cand_name (cs ! i)) \<longrightarrow> (\<forall>c \<in> set cs. circuit_open mds (cand_name c))) \<and>
    (mds' = mds \<or> mds' = becomePrimary now (cand_name (cs ! i)) mds \<and>
       ((\<forall>c \<in> set cs. cand_name c \<noteq> mds_primaryName mds) \<or> circuit_open mds (mds_primaryName mds) \<or>
        may_switch now mds cs i))"
proof -
  let ?ss = "scoreAll now mds cs"
  let ?pr = "first_index (\<lambda>s. ms_name s = mds_primaryName mds) ?ss"
  note primary = find_primary[where cs = cs and now = now and mds = mds and x = "mds_primaryName mds"]
  show ?thesis
  proof (cases ?pr)
    case None
    then have "select_best now ?ss mds = (i, mds')" using assms(1) by (simp add: select_sticky_def)
    from select_best_spec[OF this assms(2)] show ?thesis using primary None by simp
  next
    case (Some j)
    then have j: "j < length cs" "cand_name (cs ! j) = mds_primaryName mds" using primary by auto
    show ?thesis
    proof (cases "ms_open (?ss ! j)")
      case True
      then have "select_best now ?ss mds = (i, mds')" using assms(1) Some by (simp add: select_sticky_def)
      from select_best_spec[OF this assms(2)] show ?thesis using j True by simp
    next
      case closed: False
      show ?thesis
      proof (cases "i = j \<and> mds' = mds")
        case True
        then show ?thesis using j closed by simp
      next
        case False
        then have sw: "bestHealthy mds ?ss ?pr = Some i" "mds' = becomePrimary now (ms_name (?ss ! i)) mds"
          "mp_Dwell (mds_params mds) \<le> time_sub now (mds_primarySince mds)"
          "mp_SwitchMargin (mds_params mds) \<le> ms_base (?ss ! i) - ms_base (?ss ! j)"
          using assms(1) Some closed
          by (auto simp: select_sticky_def split: option.splits if_splits)
        then have "i < length cs" "\<not> circuit_open mds (cand_name (cs ! i))"
          using bestHealthy_spec[where mds = mds and ss = ?ss and ex = ?pr] by auto
        then show ?thesis using sw j by (auto simp: may_switch_def)
      qed
    qed
  qed
qed

text \<open>The three ways a choice among several candidates is made.\<close>

lemma selectCandidateLocked_several:
  "2 \<le> length cs \<Longrightarrow> selectCandidateLocked now u r cs mds =
     (case pickHalfOpenProbe mds (scoreAll now mds cs) now of
        Some i \<Rightarrow> (i, set_probing (ms_name (scoreAll now mds cs ! i)) mds)
      | None \<Rightarrow>
          (case (if u < mp_ExploreProb (mds_params mds)
                 then pickExploreTarget r (scoreAll now mds cs)
                        (first_index (\<lambda>s. ms_name s = mds_primaryName mds) (scoreAll now mds cs))
                 else None) of
             Some i \<Rightarrow> (i, mds)
           | None \<Rightarrow> select_sticky now (scoreAll now mds cs)
                       (first_index (\<lambda>s. ms_name s = mds_primaryName mds) (scoreAll now mds cs)) mds))"
  by (cases cs) (auto simp: selectCandidateLocked_def Let_def)

lemma selectCandidateLocked_cases:
  assumes "selectCandidateLocked now u r cs mds = (i, mds')" and "2 \<le> length cs"
  obtains (probe) "pickHalfOpenProbe mds (scoreAll now mds cs) now = Some i" "i < length cs"
      "mds' = set_probing (cand_name (cs ! i)) mds"
  | (explore) "pickHalfOpenProbe mds (scoreAll now mds cs) now = None" "mds' = mds" "i < length cs"
      "\<not> circuit_open mds (cand_name (cs ! i))"
  | (sticky) "pickHalfOpenProbe mds (scoreAll now mds cs) now = None" "select_sticky now (scoreAll now mds cs)
      (first_index (\<lambda>s. ms_name s = mds_primaryName mds) (scoreAll now mds cs)) mds = (i, mds')"
proof (cases "pickHalfOpenProbe mds (scoreAll now mds cs) now")
  case (Some j)
  then have "j < length cs" using pickHalfOpenProbe_spec[where mds = mds and now = now and cs = cs] by simp
  then show thesis using assms Some probe by (auto simp: selectCandidateLocked_several)
next
  case None
  let ?pr = "first_index (\<lambda>s. ms_name s = mds_primaryName mds) (scoreAll now mds cs)"
  show thesis
  proof (cases "if u < mp_ExploreProb (mds_params mds)
      then pickExploreTarget r (scoreAll now mds cs) ?pr else None")
    case (Some j)
    then have "j < length cs" "\<not> circuit_open mds (cand_name (cs ! j))"
      using pickExploreTarget_spec[of r "scoreAll now mds cs" ?pr j] by (auto split: if_splits)
    moreover have "selectCandidateLocked now u r cs mds = (j, mds)"
      by (simp only: selectCandidateLocked_several[OF assms(2)] None Some option.case)
    ultimately show thesis using assms(1) None explore by simp
  next
    case None2: None
    have "selectCandidateLocked now u r cs mds = select_sticky now (scoreAll now mds cs) ?pr mds"
      by (simp only: selectCandidateLocked_several[OF assms(2)] None None2 option.case)
    then show thesis using assms(1) None sticky by simp
  qed
qed

text \<open>
  C17. The scheduler avoids open circuits. The index it returns addresses a candidate. A candidate with
  an open circuit is chosen only if it is the only candidate, if all circuits are open, or as the one
  half-open probe: then its waiting time is over, no probe was in flight, and now one is.
\<close>

theorem mds_selection_safe:
  assumes "selectCandidateLocked now u r cs mds = (i, mds')" and "cs \<noteq> []"
  shows "i < length cs \<and>
    (circuit_open mds (cand_name (cs ! i)) \<longrightarrow>
       length cs = 1 \<or> (\<forall>c \<in> set cs. circuit_open mds (cand_name c)) \<or>
       probe_due mds now (cand_name (cs ! i)) \<and> mds' = set_probing (cand_name (cs ! i)) mds)"
proof (cases "length cs = 1")
  case True
  then show ?thesis using assms by (auto simp: selectCandidateLocked_def)
next
  case False
  then have "2 \<le> length cs" using assms(2) by (cases cs) (auto simp: Suc_le_eq)
  from assms(1) this show ?thesis
  proof (cases rule: selectCandidateLocked_cases)
    case probe
    then show ?thesis using pickHalfOpenProbe_spec[where mds = mds and now = now and cs = cs] by simp
  next
    case sticky
    then show ?thesis using select_sticky_spec[OF sticky(2) assms(2)] by blast
  qed simp
qed


section \<open>The circuit breaker\<close>

text \<open>The states that choices and feedback can bring the scheduler into, in any interleaving.\<close>

inductive mds_reachable :: "MDSParams \<Rightarrow> LBStrategyMDS \<Rightarrow> bool" for p where
  reach_new: "mds_reachable p (NewLBStrategyMDS p)"
| reach_select: "mds_reachable p mds \<Longrightarrow>
    mds_reachable p (snd (selectCandidateLocked now u r cs mds))"
| reach_feedback: "mds_reachable p mds \<Longrightarrow>
    mds_reachable p (observeFeedbackLocked now name o1 tot mds)"

definition circuit_inv :: "MDSParams \<Rightarrow> mdsCircuit \<Rightarrow> bool" where
  "circuit_inv p cb \<longleftrightarrow>
     (cb_probing cb \<longrightarrow> cb_open cb) \<and> (cb_open cb \<longrightarrow> cb_recoverUntilTotal cb = 0) \<and>
     (\<not> cb_open cb \<longrightarrow> cb_consecHardFails cb < mp_BreakerThreshold p)"

lemma two_le_word: "2 \<le> (t :: 32 word) \<Longrightarrow> 0 < t \<and> 1 < t"
  by (auto simp: word_le_nat_alt word_less_nat_alt)

lemma circuit_inv_feedback:
  assumes "2 \<le> mp_BreakerThreshold p" and "circuit_inv p cb"
  shows "circuit_inv p (circuit_feedback p now o1 tot cb)"
proof -
  have "0 < mp_BreakerThreshold p" "1 < mp_BreakerThreshold p"
    using two_le_word[OF assms(1)] by auto
  then show ?thesis using assms(2) by (auto simp: circuit_inv_def circuit_feedback_def Let_def)
qed

lemma set_probing_circuits:
  "mds_circuits (set_probing x mds) y =
     (if y = x then map_option (cb_probing_update (\<lambda>_. True)) (mds_circuits mds x)
      else mds_circuits mds y)"
  by (auto simp: set_probing_def split: option.splits)

text \<open>A choice changes no circuit but the one it probes.\<close>

lemma select_circuits:
  "(mds_circuits (snd (selectCandidateLocked now u r cs mds)) = mds_circuits mds \<or>
    (\<exists>x. probe_due mds now x \<and> snd (selectCandidateLocked now u r cs mds) = set_probing x mds)) \<and>
   mds_params (snd (selectCandidateLocked now u r cs mds)) = mds_params mds"
proof (cases "2 \<le> length cs")
  case True
  obtain i mds' where sel: "selectCandidateLocked now u r cs mds = (i, mds')" by force
  from sel True show ?thesis
  proof (cases rule: selectCandidateLocked_cases)
    case probe
    then show ?thesis using sel pickHalfOpenProbe_spec[where mds = mds and now = now and cs = cs] by auto
  next
    case sticky
    have "cs \<noteq> []" using True by auto
    then show ?thesis using sel select_sticky_spec[OF sticky(2)] by auto
  qed (simp add: sel)
next
  case False
  then have "cs = [] \<or> length cs = 1" by (cases cs) (auto simp: Suc_le_eq)
  then show ?thesis by (auto simp: selectCandidateLocked_def)
qed

lemma circuitFor_inv:
  "0 < mp_BreakerThreshold p \<Longrightarrow> (\<forall>x cb. mds_circuits mds x = Some cb \<longrightarrow> circuit_inv p cb) \<Longrightarrow>
   circuit_inv p (circuitFor mds x)"
  by (auto simp: circuitFor_def circuit_inv_def new_mdsCircuit_def split: option.splits)

lemma reachable_circuit_inv:
  assumes "mds_reachable p mds" and "2 \<le> mp_BreakerThreshold p"
  shows "mds_params mds = p \<and> (\<forall>x cb. mds_circuits mds x = Some cb \<longrightarrow> circuit_inv p cb)"
  using assms(1)
proof induction
  case reach_new
  then show ?case by (simp add: NewLBStrategyMDS_def)
next
  case (reach_select mds now u r cs)
  from select_circuits[of now u r cs mds] show ?case
  proof (elim conjE disjE exE)
    fix x assume due: "probe_due mds now x"
      and eq: "snd (selectCandidateLocked now u r cs mds) = set_probing x mds"
    show ?thesis using reach_select.IH due
      by (auto simp: eq set_probing_circuits probe_due_def circuit_inv_def split: if_splits option.splits)
  qed (use reach_select.IH in auto)
next
  case (reach_feedback mds now name o1 tot)
  have "0 < mp_BreakerThreshold p" using two_le_word[OF assms(2)] by simp
  then have "circuit_inv p (circuitFor mds name)" using reach_feedback.IH by (intro circuitFor_inv) auto
  then show ?case using reach_feedback.IH assms(2)
    by (auto simp: observeFeedbackLocked_def circuit_inv_feedback)
qed


text \<open>Feedback for one resolver: times, outcomes and total sample counts.\<close>

definition feedbacks ::
  "string \<Rightarrow> (go_time \<times> ExchangeOutcome \<times> nat) list \<Rightarrow> LBStrategyMDS \<Rightarrow> LBStrategyMDS" where
  "feedbacks name fs mds = fold (\<lambda>(now, o1, tot). observeFeedbackLocked now name o1 tot) fs mds"

definition mature_failures :: "nat \<Rightarrow> (go_time \<times> ExchangeOutcome \<times> nat) list \<Rightarrow> bool" where
  "mature_failures warmup fs = list_all (\<lambda>(now, o1, tot). hard_failure o1 \<and> warmup \<le> tot) fs"

lemma feedback_params [simp]: "mds_params (feedbacks name fs mds) = mds_params mds"
  by (induction fs arbitrary: mds) (auto simp: feedbacks_def observeFeedbackLocked_def)

lemma word_succ_unat: "unat (w :: 32 word) < unat (t :: 32 word) \<Longrightarrow> unat (w + 1) = unat w + 1"
proof -
  assume lt: "unat w < unat t"
  have "unat t < 2 ^ 32" using unsigned_less[of t] by simp
  then show ?thesis using lt by (simp add: unat_word_ariths(1))
qed

lemma mature_failures_count:
  assumes "mature_failures (mp_WarmupSamples (mds_params mds)) fs" and "cb = circuitFor mds name"
    and "\<not> cb_open cb" and "\<not> cb_probing cb" and "cb_recoverUntilTotal cb = 0" and "cb_consecHardFails cb = 0"
    and "0 < mp_BreakerThreshold (mds_params mds)"
  shows "let cb' = circuitFor (feedbacks name fs mds) name
    in \<not> cb_probing cb' \<and> cb_recoverUntilTotal cb' = 0 \<and>
       (if length fs < unat (mp_BreakerThreshold (mds_params mds))
        then \<not> cb_open cb' \<and> unat (cb_consecHardFails cb') = length fs else cb_open cb')"
  using assms
proof (induction fs rule: rev_induct)
  case Nil
  then show ?case by (auto simp: feedbacks_def word_less_nat_alt)
next
  case (snoc f fs)
  obtain now o1 tot where f: "f = (now, o1, tot)" by (cases f) auto
  define c where "c = circuitFor (feedbacks name fs mds) name"
  let ?p = "mds_params mds"
  have IH: "\<not> cb_probing c" "cb_recoverUntilTotal c = 0"
    "if length fs < unat (mp_BreakerThreshold ?p)
     then \<not> cb_open c \<and> unat (cb_consecHardFails c) = length fs else cb_open c"
    using snoc by (auto simp: c_def Let_def mature_failures_def)
  have o: "hard_failure o1" "mp_WarmupSamples ?p \<le> tot" using snoc.prems by (auto simp: mature_failures_def f)
  have step: "circuitFor (feedbacks name (fs @ [f]) mds) name = circuit_feedback ?p now o1 tot c"
    using feedback_params[of name fs mds]
    by (simp add: feedbacks_def f observeFeedbackLocked_def circuitFor_def c_def split: option.splits)
  show ?case
  proof (cases "length fs < unat (mp_BreakerThreshold ?p)")
    case True
    then have "unat (cb_consecHardFails c + 1) = length fs + 1" using IH word_succ_unat by auto
    then show ?thesis using IH o True
      by (auto simp: step Let_def circuit_feedback_def word_le_nat_alt word_less_nat_alt)
  next
    case False
    then show ?thesis using IH o by (auto simp: step Let_def circuit_feedback_def)
  qed
qed


text \<open>
  C36. Recovery. When the waiting time of an open circuit is over, the next choice among several
  candidates is a probe: of the circuits that are due it takes the one that opened first, and no second
  probe is sent to it until feedback arrives. A response then closes the circuit and starts a probation,
  during which the resolver is judged like a new one; a failure keeps it open and sets the next probe
  one interval later.
\<close>

theorem half_open_recovery:
  assumes "2 \<le> length cs" and "\<exists>c \<in> set cs. probe_due mds now (cand_name c)"
    and "selectCandidateLocked now u r cs mds = (i, mds')" and "name = cand_name (cs ! i)"
    and "mds'' = observeFeedbackLocked later name o1 tot mds'"
  shows "probe_due mds now name \<and>
    (\<forall>c \<in> set cs. probe_due mds now (cand_name c) \<longrightarrow> opened_at mds name \<le> opened_at mds (cand_name c)) \<and>
    \<not> probe_due mds' t name \<and>
    (if hard_failure o1
     then probe_due mds'' t name \<longleftrightarrow> later + mp_HalfOpenInterval (mds_params mds) \<le> t
     else \<not> circuit_open mds'' name \<and>
       (t' < tot + mp_WarmupSamples (mds_params mds) \<longrightarrow>
          isWarmingLocked mds'' name t' (mp_WarmupSamples (mds_params mds))))"
  using assms(3,1)
proof (cases rule: selectCandidateLocked_cases)
  case probe
  have due: "probe_due mds now name" and first: "\<forall>c \<in> set cs. probe_due mds now (cand_name c) \<longrightarrow>
      opened_at mds name \<le> opened_at mds (cand_name c)"
    using pickHalfOpenProbe_spec[where mds = mds and now = now and cs = cs] probe assms(4) by auto
  then obtain cb where cb: "mds_circuits mds name = Some cb" "cb_open cb"
    by (auto simp: probe_due_def split: option.splits)
  have mds': "mds' = set_probing name mds" using probe assms(4) by simp
  then have c': "mds_circuits mds' name = Some (cb\<lparr>cb_probing := True\<rparr>)" "mds_params mds' = mds_params mds"
    using cb by (simp_all add: set_probing_circuits)
  then show ?thesis using due first cb
    by (auto simp: assms(5) probe_due_def observeFeedbackLocked_def circuitFor_def circuit_feedback_def
        circuit_open_def isWarmingLocked_def Let_def time_add_def)
next
  case explore
  then show ?thesis
    using pickHalfOpenProbe_spec[where mds = mds and now = now and cs = cs] assms(2) by auto
next
  case sticky
  then show ?thesis
    using pickHalfOpenProbe_spec[where mds = mds and now = now and cs = cs] assms(2) by auto
qed

text \<open>
  While a probe is in flight, a circuit is neither probed again nor changed by further choices, as
  long as another candidate has a closed circuit: only feedback for the probed resolver releases it. A
  query that is given up between the choice of its server and the exchange gives no feedback, and its
  probe stays in flight for ever.
\<close>

lemma probing_circuit_stuck:
  assumes "mds_circuits mds name = Some cb" and "cb_open cb" and "cb_probing cb"
    and "selectCandidateLocked now u r cs mds = (i, mds')" and "2 \<le> length cs"
    and "\<exists>c \<in> set cs. \<not> circuit_open mds (cand_name c)"
  shows "cand_name (cs ! i) \<noteq> name \<and> mds_circuits mds' name = Some cb"
proof -
  have nd: "\<not> probe_due mds now name" using assms(1,3) by (simp add: probe_due_def)
  have op: "circuit_open mds name" using assms(1,2) by (simp add: circuit_open_def)
  from assms(4,5) show ?thesis
  proof (cases rule: selectCandidateLocked_cases)
    case probe
    then have "probe_due mds now (cand_name (cs ! i))"
      using pickHalfOpenProbe_spec[where mds = mds and now = now and cs = cs] by simp
    then have "cand_name (cs ! i) \<noteq> name" using nd by auto
    then show ?thesis using probe assms(1) by (simp add: set_probing_circuits)
  next
    case explore
    then show ?thesis using op assms(1) by auto
  next
    case sticky
    have "cs \<noteq> []" using assms(5) by auto
    from select_sticky_spec[OF sticky(2) this] show ?thesis using op assms(1,6) by auto
  qed
qed

section \<open>Examples\<close>

definition example_candidate :: "string \<Rightarrow> int \<Rightarrow> ResolverCandidate" where
  "example_candidate name rtt =
     \<lparr>rc_Server = zero_ServerInfo\<lparr>si_Name := name, si_initialRtt := rtt\<rparr>,
      rc_Metrics = NewResolverMetrics\<rparr>"

definition example_candidates :: "ResolverCandidate list" where
  "example_candidates = [example_candidate ''a'' 20, example_candidate ''b'' 10]"

definition example_mds :: LBStrategyMDS where
  "example_mds = NewLBStrategyMDS DefaultMDSParams"

definition example_failures :: "(go_time \<times> ExchangeOutcome \<times> nat) list" where
  "example_failures =
     (let f = (100, example_outcome\<lparr>eo_Timeout := True\<rparr>, 25) in [f, f, f])"

definition example_open_mds :: LBStrategyMDS where
  "example_open_mds = feedbacks ''b'' example_failures example_mds"

lemma example_names [simp]:
  "length example_candidates = 2" "cand_name (example_candidates ! 0) = ''a''"
  "cand_name (example_candidates ! Suc 0) = ''b''" "example_candidates \<noteq> []"
  by (simp_all add: example_candidates_def example_candidate_def cand_name_def)

lemma example_due: "probe_due example_open_mds (11 * second) ''b''"
  by (simp add: example_open_mds_def example_failures_def feedbacks_def
      observeFeedbackLocked_def circuitFor_def probe_due_def circuit_feedback_def Let_def
      example_mds_def NewLBStrategyMDS_def new_mdsCircuit_def DefaultMDSParams_def hard_failure_def
      example_outcome_def time_add_def second_def)

theorem mds_selection_safe_witness:
  "fst (selectCandidateLocked 5 1 0 example_candidates example_mds) < 2"
  using mds_selection_safe[OF prod.collapse[symmetric], where now = 5 and u = 1 and r = 0 and
      cs = example_candidates and mds = example_mds]
  by simp

lemma example_no_probe: "pickHalfOpenProbe example_mds ss now = None"
proof -
  have "probe_loop Map.empty now ss n None = None" for n
    by (induction ss arbitrary: n) (auto split: option.splits)
  then show ?thesis
    by (simp add: pickHalfOpenProbe_def example_mds_def NewLBStrategyMDS_def)
qed




theorem half_open_recovery_witness:
  "probe_due example_open_mds (11 * second)
     (cand_name (example_candidates !
        fst (selectCandidateLocked (11 * second) 1 0 example_candidates example_open_mds)))"
  using half_open_recovery[OF _ _ prod.collapse[symmetric] refl refl,
      where cs = example_candidates and mds = example_open_mds and now = "11 * second" and u = 1 and r = 0]
    example_due
  by (force simp: example_candidates_def example_candidate_def cand_name_def)

end
