(* ===== verification/Plugins_State.thy ===== *)
theory Plugins_State
  imports Dns_Utils Metrics Padding
begin

text \<open>
  The state of one query on its way through the proxy (\<^verbatim>\<open>PluginsState\<close> and the constants of
  \<^verbatim>\<open>dnscrypt-proxy/plugins.go\<close>). The two entries of \<^verbatim>\<open>sessionData\<close> that the code uses, \<^verbatim>\<open>whitelisted\<close> and
  \<^verbatim>\<open>stale\<close>, are fields.
\<close>

datatype PluginsAction =
    PluginsActionNone | PluginsActionContinue | PluginsActionDrop | PluginsActionReject
  | PluginsActionSynth

datatype PluginsReturnCode =
    PluginsReturnCodePass | PluginsReturnCodeForward | PluginsReturnCodeDrop
  | PluginsReturnCodeReject | PluginsReturnCodeSynth | PluginsReturnCodeParseError
  | PluginsReturnCodeNXDomain | PluginsReturnCodeResponseError | PluginsReturnCodeServFail
  | PluginsReturnCodeNetworkError | PluginsReturnCodeCloak | PluginsReturnCodeServerTimeout
  | PluginsReturnCodeNotReady

record PluginsState =
  ps_requestStart :: go_time
  ps_requestEnd :: go_time
  ps_clientProto :: string
  ps_serverName :: string
  ps_relayName :: string
  ps_serverProto :: string
  ps_qName :: string
  ps_clientAddr :: "bytes option"
  ps_synthResponse :: "Msg option"
  ps_questionMsg :: "Msg option"
  ps_whitelisted :: bool
  ps_stale :: "Msg option"
  ps_action :: PluginsAction
  ps_timeout :: duration
  ps_returnCode :: PluginsReturnCode
  ps_maxPayloadSize :: int
  ps_originalMaxPayloadSize :: int
  ps_maxUnencryptedUDPSafePayloadSize :: int
  ps_rejectTTL :: "32 word"
  ps_cacheMaxTTL :: "32 word"
  ps_cacheNegMaxTTL :: "32 word"
  ps_cacheNegMinTTL :: "32 word"
  ps_cacheMinTTL :: "32 word"
  ps_cacheHit :: bool
  ps_dnssec :: bool
  ps_exchange :: ExchangeOutcome
  ps_exchangeStart :: go_time

text \<open>The settings of the proxy that a new state takes over.\<close>

record query_config =
  qc_cacheNegMinTTL :: "32 word"
  qc_cacheNegMaxTTL :: "32 word"
  qc_cacheMinTTL :: "32 word"
  qc_cacheMaxTTL :: "32 word"
  qc_rejectTTL :: "32 word"
  qc_timeout :: duration

definition zero_ExchangeOutcome :: ExchangeOutcome where
  "zero_ExchangeOutcome =
     \<lparr>eo_Duration = 0, eo_Transport = TransportUnknown, eo_Timeout = False, eo_Error = False,
      eo_Servfail = False, eo_DNSSECBogus = False, eo_UpstreamTruncated = False,
      eo_LocalTruncated = False, eo_TCPFallback = False, eo_QUICFallback = False,
      eo_ConnReused = False, eo_ECSReturned = False\<rparr>"

definition NewPluginsState ::
  "query_config \<Rightarrow> string \<Rightarrow> bytes option \<Rightarrow> string \<Rightarrow> go_time \<Rightarrow> PluginsState" where
  "NewPluginsState qc clientProto clientAddr serverProto start =
     \<lparr>ps_requestStart = start, ps_requestEnd = 0, ps_clientProto = clientProto,
      ps_serverName = ''-'', ps_relayName = [], ps_serverProto = serverProto, ps_qName = [],
      ps_clientAddr = clientAddr, ps_synthResponse = None, ps_questionMsg = None,
      ps_whitelisted = False, ps_stale = None, ps_action = PluginsActionContinue,
      ps_timeout = qc_timeout qc, ps_returnCode = PluginsReturnCodePass,
      ps_maxPayloadSize = int MaxDNSUDPPacketSize - int ResponseOverhead,
      ps_originalMaxPayloadSize = 0,
      ps_maxUnencryptedUDPSafePayloadSize = int MaxDNSUDPSafePacketSize,
      ps_rejectTTL = qc_rejectTTL qc, ps_cacheMaxTTL = qc_cacheMaxTTL qc,
      ps_cacheNegMaxTTL = qc_cacheNegMaxTTL qc, ps_cacheNegMinTTL = qc_cacheNegMinTTL qc,
      ps_cacheMinTTL = qc_cacheMinTTL qc, ps_cacheHit = False, ps_dnssec = False,
      ps_exchange = zero_ExchangeOutcome, ps_exchangeStart = 0\<rparr>"

end
