(* ===== verification/Servers_Info.thy ===== *)
theory Servers_Info
  imports Mds Plugins_State "HOL-Library.Multiset"
begin

text \<open>
  The set of live servers and the choice of the server for a query
  (\<^verbatim>\<open>dnscrypt-proxy/serversInfo.go\<close>), and the feedback that every exchange gives
  (\<^verbatim>\<open>dnscrypt-proxy/scheduler_feedback.go\<close>). Locks make each operation atomic. Random numbers are
  arguments, collected in \<open>draws\<close>: \<open>Intn n\<close> is a draw modulo \<open>n\<close>. The loop of the weighted strategy
  that draws until a second server differs from the first one runs over a list of draws and gives
  \<open>None\<close> if all of them are used up.
\<close>

section \<open>Load balancing strategies\<close>

datatype LBStrategy =
    LBStrategyP2 | LBStrategyPN nat | LBStrategyPH | LBStrategyFirst | LBStrategyRandom
  | LBStrategyWP2 | StrategyMDS LBStrategyMDS

definition Intn :: "nat \<Rightarrow> nat \<Rightarrow> nat" where
  "Intn r n = r mod n"

fun getCandidate :: "LBStrategy \<Rightarrow> nat \<Rightarrow> nat \<Rightarrow> nat" where
  "getCandidate LBStrategyP2 r serversCount = Intn r (min serversCount 2)"
| "getCandidate (LBStrategyPN n) r serversCount = Intn r (min serversCount n)"
| "getCandidate LBStrategyPH r serversCount = Intn r ((serversCount + 1) div 2)"
| "getCandidate LBStrategyFirst r serversCount = 0"
| "getCandidate LBStrategyRandom r serversCount = Intn r serversCount"
| "getCandidate LBStrategyWP2 r serversCount =
     (if serversCount \<le> 1 then 0 else Intn r serversCount)"
| "getCandidate (StrategyMDS mds) r serversCount = 0"

fun getActiveCount :: "LBStrategy \<Rightarrow> nat \<Rightarrow> nat" where
  "getActiveCount LBStrategyP2 serversCount = min serversCount 2"
| "getActiveCount (LBStrategyPN n) serversCount = min serversCount n"
| "getActiveCount LBStrategyPH serversCount = (serversCount + 1) div 2"
| "getActiveCount LBStrategyFirst serversCount = 1"
| "getActiveCount LBStrategyRandom serversCount = serversCount"
| "getActiveCount LBStrategyWP2 serversCount = serversCount"
| "getActiveCount (StrategyMDS mds) serversCount = serversCount"

section \<open>State\<close>

record ServersInfo =
  sv_inner :: "ServerInfo list"
  sv_registeredServers :: "RegisteredServer list"
  sv_registeredRelays :: "RegisteredServer list"
  sv_lbStrategy :: LBStrategy
  sv_lbEstimator :: bool
  sv_metrics :: "string \<rightharpoonup> ResolverMetrics"
  sv_metricsWindow :: duration
  sv_odohRefreshInFlight :: "string \<Rightarrow> bool"
  sv_odohLastFailureAt :: "string \<rightharpoonup> go_time"

definition NewServersInfo :: ServersInfo where
  "NewServersInfo =
     \<lparr>sv_inner = [], sv_registeredServers = [], sv_registeredRelays = [],
      sv_lbStrategy = LBStrategyWP2, sv_lbEstimator = True, sv_metrics = Map.empty,
      sv_metricsWindow = metricsWindow, sv_odohRefreshInFlight = (\<lambda>_. False),
      sv_odohLastFailureAt = Map.empty\<rparr>"

definition metricsForLocked :: "string \<Rightarrow> ServersInfo \<Rightarrow> ResolverMetrics \<times> ServersInfo" where
  "metricsForLocked name sv =
     (case sv_metrics sv name of
        Some m \<Rightarrow> (m, sv)
      | None \<Rightarrow> (let m = NewResolverMetricsWithWindow (sv_metricsWindow sv)
                in (m, sv\<lparr>sv_metrics := (sv_metrics sv)(name \<mapsto> m)\<rparr>)))"

definition candidatesLocked :: "ServersInfo \<Rightarrow> ResolverCandidate list" where
  "candidatesLocked sv =
     map (\<lambda>server.
            \<lparr>rc_Server = server,
             rc_Metrics = (case sv_metrics sv (si_Name server) of
                             Some m \<Rightarrow> m
                           | None \<Rightarrow> NewResolverMetricsWithWindow (sv_metricsWindow sv))\<rparr>)
       (sv_inner sv)"

section \<open>Refresh of ODoH keys\<close>

definition beginODoHRefresh ::
  "go_time \<Rightarrow> string \<Rightarrow> duration \<Rightarrow> ServersInfo \<Rightarrow> bool \<times> ServersInfo" where
  "beginODoHRefresh now name failureCooldown sv =
     (if sv_odohRefreshInFlight sv name then (False, sv)
      else if (case sv_odohLastFailureAt sv name of
                 None \<Rightarrow> False
               | Some failedAt \<Rightarrow> time_sub now failedAt < failureCooldown)
      then (False, sv)
      else (True, sv\<lparr>sv_odohRefreshInFlight := (sv_odohRefreshInFlight sv)(name := True)\<rparr>))"

definition endODoHRefresh :: "go_time \<Rightarrow> string \<Rightarrow> bool \<Rightarrow> ServersInfo \<Rightarrow> ServersInfo" where
  "endODoHRefresh now name success sv =
     sv\<lparr>sv_odohRefreshInFlight := (sv_odohRefreshInFlight sv)(name := False),
        sv_odohLastFailureAt :=
          (if success then (sv_odohLastFailureAt sv)(name := None)
           else (sv_odohLastFailureAt sv)(name \<mapsto> now))\<rparr>"

definition cancelODoHRefresh :: "string \<Rightarrow> ServersInfo \<Rightarrow> ServersInfo" where
  "cancelODoHRefresh name sv =
     sv\<lparr>sv_odohRefreshInFlight := (sv_odohRefreshInFlight sv)(name := False)\<rparr>"

section \<open>Registration\<close>

text \<open>Both registration loops: the first entry with the name is replaced, or a new one is appended.\<close>

primrec register_in :: "RegisteredServer \<Rightarrow> RegisteredServer list \<Rightarrow> RegisteredServer list" where
  "register_in new [] = [new]"
| "register_in new (old # olds) =
     (if rs_name old = rs_name new then new # olds else old # register_in new olds)"

definition registerServer :: "string \<Rightarrow> ServerStamp \<Rightarrow> ServersInfo \<Rightarrow> ServersInfo" where
  "registerServer name stamp sv =
     sv\<lparr>sv_registeredServers :=
          register_in \<lparr>rs_name = name, rs_stamp = stamp\<rparr> (sv_registeredServers sv)\<rparr>"

definition registerRelay :: "string \<Rightarrow> ServerStamp \<Rightarrow> ServersInfo \<Rightarrow> ServersInfo" where
  "registerRelay name stamp sv =
     sv\<lparr>sv_registeredRelays :=
          register_in \<lparr>rs_name = name, rs_stamp = stamp\<rparr> (sv_registeredRelays sv)\<rparr>"

primrec replace_server :: "ServerInfo \<Rightarrow> ServerInfo list \<Rightarrow> ServerInfo list option" where
  "replace_server new [] = None"
| "replace_server new (old # olds) =
     (if si_Name old = si_Name new then Some (new # olds)
      else map_option (\<lambda>xs. old # xs) (replace_server new olds))"

text \<open>
  The part of \<^verbatim>\<open>refreshServer\<close> under the lock, for a server whose information has been fetched and
  whose shared key has been computed.
\<close>

definition install_server :: "ServerInfo \<Rightarrow> ServerStamp \<Rightarrow> ServersInfo \<Rightarrow> ServersInfo" where
  "install_server new0 stamp sv =
     (let new = new0\<lparr>si_rtt := VariableEWMA_Set (of_int (si_initialRtt new0)) (NewVariableEWMA 10)\<rparr>
      in case replace_server new (sv_inner sv) of
           Some inner \<Rightarrow> snd (metricsForLocked (si_Name new) (sv\<lparr>sv_inner := inner\<rparr>))
         | None \<Rightarrow>
             registerServer (si_Name new) stamp
               (snd (metricsForLocked (si_Name new) (sv\<lparr>sv_inner := sv_inner sv @ [new]\<rparr>))))"

section \<open>Estimators\<close>

definition rtt_value :: "ServerInfo \<Rightarrow> real" where
  "rtt_value s = VariableEWMA_Value (si_rtt s)"

text \<open>\<^verbatim>\<open>sortByRtt\<close> is a single pass of neighbour exchanges.\<close>

primrec bubble_pass :: "ServerInfo \<Rightarrow> ServerInfo list \<Rightarrow> ServerInfo list" where
  "bubble_pass x [] = [x]"
| "bubble_pass x (y # ys) =
     (if rtt_value x > rtt_value y then y # bubble_pass x ys else x # bubble_pass y ys)"

definition sortByRtt :: "ServerInfo list \<Rightarrow> ServerInfo list" where
  "sortByRtt inner = (case inner of [] \<Rightarrow> [] | x # xs \<Rightarrow> bubble_pass x xs)"

definition swap_at :: "nat \<Rightarrow> nat \<Rightarrow> 'a list \<Rightarrow> 'a list" where
  "swap_at i j xs = xs[i := xs ! j, j := xs ! i]"

definition estimatorUpdate :: "nat \<Rightarrow> LBStrategy \<Rightarrow> nat \<Rightarrow> ServerInfo list \<Rightarrow> ServerInfo list" where
  "estimatorUpdate r lb currentActive inner =
     (let serversCount = length inner;
          activeCount = getActiveCount lb serversCount
      in if activeCount = serversCount then inner
         else let candidate = Intn r (serversCount - activeCount) + activeCount;
                  candidateRtt = rtt_value (inner ! candidate);
                  currentActiveRtt = rtt_value (inner ! currentActive)
              in if currentActiveRtt < 0
                 then inner[currentActive := (inner ! currentActive)
                        \<lparr>si_rtt := VariableEWMA_Set candidateRtt (si_rtt (inner ! currentActive))\<rparr>]
                 else if candidateRtt < currentActiveRtt
                 then sortByRtt (swap_at candidate currentActive inner)
                 else inner)"

definition best_rtt :: "ServerInfo list \<Rightarrow> real" where
  "best_rtt inner =
     fold (\<lambda>s best. if rtt_value s > 0 \<and> rtt_value s < best then rtt_value s else best) inner
       (rtt_value (hd inner))"

definition is_dormant :: "go_time \<Rightarrow> real \<Rightarrow> ServerInfo \<Rightarrow> bool" where
  "is_dormant now bestRtt s \<longleftrightarrow>
     \<not> rtt_value s \<le> bestRtt * 4 \<and> \<not> time_sub now (si_lastActionTS s) \<le> minute \<and>
     \<not> time_sub now (si_lastDecayTS s) \<le> 10 * second"

definition recover_server :: "go_time \<Rightarrow> real \<Rightarrow> ServerInfo \<Rightarrow> ServerInfo" where
  "recover_server now bestRtt s =
     (if is_dormant now bestRtt s
      then let targetRtt = (if of_int (si_initialRtt s) \<le> (0::real) then bestRtt
                            else of_int (si_initialRtt s))
           in s\<lparr>si_rtt := VariableEWMA_Add targetRtt (si_rtt s), si_totalQueries := 0,
                si_failedQueries := 0, si_lastDecayTS := now\<rparr>
      else s)"

definition recoverDormantServers :: "go_time \<Rightarrow> ServerInfo list \<Rightarrow> ServerInfo list" where
  "recoverDormantServers now inner =
     (if length inner \<le> 1 then inner
      else let bestRtt = best_rtt inner
           in if bestRtt \<le> 0 then inner
              else let inner' = map (recover_server now bestRtt) inner
                   in if \<exists>s \<in> set inner. is_dormant now bestRtt s then sortByRtt inner' else inner')"

section \<open>Choice of a server\<close>

record draws =
  dr_u :: real
  dr_r :: nat
  dr_second :: "nat list"
  dr_estimator :: nat

definition calculateServerScore :: "ServerInfo \<Rightarrow> real" where
  "calculateServerScore s =
     (let rtt = (if rtt_value s \<le> 0 then 1000 else rtt_value s);
          rttScore = (if 1 - rtt / 1000 < 0 then 0 else 1 - rtt / 1000);
          successRate = (if si_totalQueries s > 0
                         then of_int (uint (si_totalQueries s - si_failedQueries s)) /
                              of_int (uint (si_totalQueries s))
                         else 1)
      in rttScore * 0.7 + successRate * 0.3)"

primrec second_draw :: "nat \<Rightarrow> nat \<Rightarrow> nat list \<Rightarrow> nat option" where
  "second_draw n first [] = None"
| "second_draw n first (r # rs) = (if Intn r n = first then second_draw n first rs else Some (Intn r n))"

definition getWeightedCandidate :: "draws \<Rightarrow> ServerInfo list \<Rightarrow> nat option" where
  "getWeightedCandidate d inner =
     (let serversCount = length inner
      in if serversCount \<le> 1 then Some 0
         else let first = Intn (dr_r d) serversCount
              in case second_draw serversCount first (dr_second d) of
                   None \<Rightarrow> None
                 | Some other \<Rightarrow>
                     (let score1 = calculateServerScore (inner ! first);
                          score2 = calculateServerScore (inner ! other)
                      in if score1 > score2 then Some first
                         else if score2 > score1 then Some other
                         else if dr_u d < 0.5 then Some first
                         else Some other))"

text \<open>What scoring does to the stores: a snapshot moves the window of every candidate to the present.\<close>

definition advance_stores :: "go_time \<Rightarrow> ServersInfo \<Rightarrow> string \<rightharpoonup> ResolverMetrics" where
  "advance_stores now sv name =
     (if length (sv_inner sv) > 1 \<and> name \<in> si_Name ` set (sv_inner sv)
      then map_option (advanceLocked now) (sv_metrics sv name) else sv_metrics sv name)"

definition select_advanced ::
  "go_time \<Rightarrow> draws \<Rightarrow> LBStrategyMDS \<Rightarrow> ServersInfo \<Rightarrow> nat \<times> ServersInfo" where
  "select_advanced now d mds sv =
     (let candidates = candidatesLocked sv;
          (picked, mds') = selectCandidateLocked now (dr_u d) (dr_r d) candidates mds;
          pickedName = si_Name (rc_Server (candidates ! picked));
          candidate = (case first_index (\<lambda>s. si_Name s = pickedName) (sv_inner sv) of
                         Some i \<Rightarrow> i | None \<Rightarrow> 0)
      in (candidate, sv\<lparr>sv_lbStrategy := StrategyMDS mds', sv_metrics := advance_stores now sv\<rparr>))"

definition select_index ::
  "go_time \<Rightarrow> draws \<Rightarrow> ServersInfo \<Rightarrow> (nat \<times> ServersInfo) option" where
  "select_index now d sv =
     (case sv_lbStrategy sv of
        StrategyMDS mds \<Rightarrow> Some (select_advanced now d mds sv)
      | LBStrategyWP2 \<Rightarrow> map_option (\<lambda>i. (i, sv)) (getWeightedCandidate d (sv_inner sv))
      | lb \<Rightarrow>
          (let candidate = getCandidate lb (dr_r d) (length (sv_inner sv))
           in Some (candidate,
                if sv_lbEstimator sv
                then sv\<lparr>sv_inner := estimatorUpdate (dr_estimator d) lb candidate (sv_inner sv)\<rparr>
                else sv)))"

definition getOne :: "go_time \<Rightarrow> draws \<Rightarrow> ServersInfo \<Rightarrow> (ServerInfo option \<times> ServersInfo) option" where
  "getOne now d sv =
     (if sv_inner sv = [] then Some (None, sv)
      else case select_index now d
                  (sv\<lparr>sv_inner := recoverDormantServers now (sv_inner sv)\<rparr>) of
             None \<Rightarrow> None
           | Some (candidate, sv') \<Rightarrow> Some (Some (sv_inner sv' ! candidate), sv'))"

definition noticeBegin :: "go_time \<Rightarrow> ServerInfo \<Rightarrow> ServerInfo" where
  "noticeBegin now s = s\<lparr>si_lastActionTS := now\<rparr>"

section \<open>Feedback\<close>

text \<open>An error of an exchange; the feedback distinguishes timeouts from all others.\<close>

datatype exchange_error = TimeoutError | OtherError

definition isTimeoutError :: "exchange_error option \<Rightarrow> bool" where
  "isTimeoutError err \<longleftrightarrow> err = Some TimeoutError"

definition has_ecs_scope :: "Msg \<Rightarrow> bool" where
  "has_ecs_scope msg =
     list_ex (\<lambda>o1. case o1 of SUBNET _ _ scope _ \<Rightarrow> scope \<noteq> 0 | _ \<Rightarrow> False) (m_Pseudo msg)"

definition classifyExchangeResponse :: "dns_lib \<Rightarrow> bytes \<Rightarrow> bool \<Rightarrow> bool \<times> bool \<times> bool" where
  "classifyExchangeResponse L response dnssecExpected =
     (if length response < MinDNSPacketSize then (False, False, False)
      else let failure = (Rcode response = of_nat RcodeServerFailure);
               servfail = (failure \<and> \<not> dnssecExpected);
               bogus = (failure \<and> dnssecExpected)
           in case dl_Unpack L response of
                None \<Rightarrow> (servfail, bogus, False)
              | Some msg \<Rightarrow> (servfail, bogus, has_ecs_scope msg))"

definition serverByNameLocked :: "string \<Rightarrow> ServerInfo list \<Rightarrow> ServerInfo option" where
  "serverByNameLocked name inner = find (\<lambda>s. si_Name s = name) inner"

definition exchange_failed :: "bytes \<Rightarrow> exchange_error option \<Rightarrow> bool" where
  "exchange_failed response exchangeErr \<longleftrightarrow>
     exchangeErr \<noteq> None \<or>
     \<not> (length response \<ge> MinDNSPacketSize \<and> length response \<le> MaxDNSPacketSize)"

definition exchange_outcome ::
  "dns_lib \<Rightarrow> duration \<Rightarrow> go_time \<Rightarrow> PluginsState \<Rightarrow> bytes \<Rightarrow> exchange_error option \<Rightarrow> ExchangeOutcome" where
  "exchange_outcome L timeout now ps response exchangeErr =
     (let o0 = ps_exchange ps;
          failed = exchange_failed response exchangeErr;
          (servfail, bogus, ecs) = classifyExchangeResponse L response (ps_dnssec ps);
          o1 = (if failed \<and> ps_returnCode ps = PluginsReturnCodeServerTimeout
                then o0\<lparr>eo_Timeout := True\<rparr>
                else if failed \<and> isTimeoutError exchangeErr then o0\<lparr>eo_Timeout := True\<rparr>
                else if failed then o0\<lparr>eo_Error := True\<rparr>
                else o0\<lparr>eo_Servfail := servfail, eo_DNSSECBogus := bogus, eo_ECSReturned := ecs\<rparr>)
      in o1\<lparr>eo_Duration := (if failed then timeout else time_sub now (ps_exchangeStart ps))\<rparr>)"

definition count_query :: "go_time \<Rightarrow> bool \<Rightarrow> ServerInfo \<Rightarrow> ServerInfo" where
  "count_query now failed s =
     (let tq = si_totalQueries s + 1;
          fq = (if failed then si_failedQueries s + 1 else si_failedQueries s)
      in s\<lparr>si_totalQueries := (if tq > 10000 then tq div 2 else tq),
           si_failedQueries := (if tq > 10000 then fq div 2 else fq),
           si_lastUpdateTime := now\<rparr>)"

definition update_rtt ::
  "duration \<Rightarrow> duration \<Rightarrow> bool \<Rightarrow> ExchangeOutcome \<Rightarrow> PluginsAction \<Rightarrow> ServerInfo \<Rightarrow> ServerInfo" where
  "update_rtt timeout elapsed failed o1 action s =
     (if failed \<or> eo_Servfail o1
      then s\<lparr>si_rtt := VariableEWMA_Add (of_int (go_div timeout millisecond)) (si_rtt s)\<rparr>
      else if eo_DNSSECBogus o1 \<or> action = PluginsActionDrop then s
      else let elapsedMs = go_div elapsed millisecond
           in if elapsedMs > 0 \<and> elapsed < timeout
              then s\<lparr>si_rtt := VariableEWMA_Add (of_int elapsedMs) (si_rtt s)\<rparr> else s)"

primrec update_server :: "string \<Rightarrow> (ServerInfo \<Rightarrow> ServerInfo) \<Rightarrow> ServerInfo list \<Rightarrow> ServerInfo list" where
  "update_server name f [] = []"
| "update_server name f (s # ss) = (if si_Name s = name then f s # ss else s # update_server name f ss)"

definition feedback_strategy ::
  "go_time \<Rightarrow> string \<Rightarrow> ExchangeOutcome \<Rightarrow> nat \<Rightarrow> LBStrategy \<Rightarrow> LBStrategy" where
  "feedback_strategy now name o1 totalSamples lb =
     (case lb of
        StrategyMDS mds \<Rightarrow> StrategyMDS (observeFeedbackLocked now name o1 totalSamples mds)
      | _ \<Rightarrow> lb)"

definition observeOutcome ::
  "dns_lib \<Rightarrow> duration \<Rightarrow> go_time \<Rightarrow> PluginsState \<Rightarrow> bytes \<Rightarrow> exchange_error option \<Rightarrow> ServersInfo \<Rightarrow>
   ServersInfo" where
  "observeOutcome L timeout now ps response exchangeErr sv =
     (let name = ps_serverName ps
      in if name = [] \<or> time_is_zero (ps_exchangeStart ps) then sv
         else let o1 = exchange_outcome L timeout now ps response exchangeErr;
                  failed = exchange_failed response exchangeErr;
                  elapsed = time_sub now (ps_exchangeStart ps);
                  sv1 = sv\<lparr>sv_inner := update_server name
                              (\<lambda>s. update_rtt timeout elapsed failed o1 (ps_action ps)
                                     (count_query now failed s)) (sv_inner sv)\<rparr>;
                  (m, sv2) = metricsForLocked name sv1;
                  m' = Observe now o1 m
              in sv2\<lparr>sv_metrics := (sv_metrics sv2)(name \<mapsto> m'),
                     sv_lbStrategy :=
                       feedback_strategy now name o1 (rm_totalSamples m') (sv_lbStrategy sv2)\<rparr>)"

section \<open>The contract of a strategy\<close>

lemma Intn_less: "0 < n \<Longrightarrow> Intn r n < n"
  by (simp add: Intn_def)

lemma Intn_min: "0 < n \<Longrightarrow> 0 < k \<Longrightarrow> Intn r (min n k) < min n k"
  by (rule Intn_less) simp

text \<open>
  What the choice of a server relies on: the index of the candidate is among the active servers, and
  there are no more active servers than servers.
\<close>

locale lb_strategy =
  fixes cand :: "nat \<Rightarrow> nat \<Rightarrow> nat" and active :: "nat \<Rightarrow> nat"
  assumes cand_active: "0 < n \<Longrightarrow> cand r n < active n"
    and active_le: "0 < n \<Longrightarrow> active n \<le> n"
begin

lemma cand_in_range: "0 < n \<Longrightarrow> cand r n < n"
  using cand_active active_le by (meson less_le_trans)

text \<open>The server the estimator compares with is one that is not active.\<close>

lemma estimator_in_range:
  "0 < n \<Longrightarrow> active n \<noteq> n \<Longrightarrow>
   active n \<le> Intn q (n - active n) + active n \<and> Intn q (n - active n) + active n < n"
proof -
  assume n: "0 < n" "active n \<noteq> n"
  then have "q mod (n - active n) < n - active n" using active_le[of n] by (intro mod_less_divisor) simp
  then show ?thesis by (simp add: Intn_def)
qed

end

interpretation lb_p2: lb_strategy "getCandidate LBStrategyP2" "getActiveCount LBStrategyP2"
  by unfold_locales (simp_all add: Intn_min del: min_less_iff_conj)

interpretation lb_pn: lb_strategy "getCandidate (LBStrategyPN (Suc k))"
    "getActiveCount (LBStrategyPN (Suc k))" for k
  by unfold_locales (simp_all add: Intn_min del: min_less_iff_conj)

interpretation lb_ph: lb_strategy "getCandidate LBStrategyPH" "getActiveCount LBStrategyPH"
  by unfold_locales (auto simp: Intn_less)

interpretation lb_first: lb_strategy "getCandidate LBStrategyFirst" "getActiveCount LBStrategyFirst"
  by unfold_locales auto

interpretation lb_random: lb_strategy "getCandidate LBStrategyRandom" "getActiveCount LBStrategyRandom"
  by unfold_locales (auto simp: Intn_less)

interpretation lb_wp2: lb_strategy "getCandidate LBStrategyWP2" "getActiveCount LBStrategyWP2"
  by unfold_locales (auto simp: Intn_less)

interpretation lb_mds: lb_strategy "getCandidate (StrategyMDS mds)" "getActiveCount (StrategyMDS mds)"
  for mds
  by unfold_locales auto

text \<open>The configuration never makes a strategy of zero servers.\<close>

definition strategy_ok :: "LBStrategy \<Rightarrow> bool" where
  "strategy_ok lb \<longleftrightarrow> lb \<noteq> LBStrategyPN 0"

lemma strategy_contract: "strategy_ok lb \<Longrightarrow> lb_strategy (getCandidate lb) (getActiveCount lb)"
proof (cases lb)
  case (LBStrategyPN n)
  assume "strategy_ok lb"
  then obtain k where "n = Suc k" using LBStrategyPN by (cases n) (auto simp: strategy_ok_def)
  then show ?thesis using LBStrategyPN lb_pn.lb_strategy_axioms by simp
qed (simp_all only: lb_p2.lb_strategy_axioms lb_ph.lb_strategy_axioms lb_first.lb_strategy_axioms
    lb_random.lb_strategy_axioms lb_wp2.lb_strategy_axioms lb_mds.lb_strategy_axioms)

lemmas strategy_cand_in_range = lb_strategy.cand_in_range[OF strategy_contract]
lemmas strategy_estimator_in_range = lb_strategy.estimator_in_range[OF strategy_contract]

section \<open>Servers are neither lost nor duplicated\<close>

lemma mset_bubble_pass: "mset (bubble_pass x xs) = add_mset x (mset xs)"
  by (induction xs arbitrary: x) auto

lemma mset_sortByRtt [simp]: "mset (sortByRtt xs) = mset xs"
  by (cases xs) (auto simp: sortByRtt_def mset_bubble_pass)

lemma length_sortByRtt [simp]: "length (sortByRtt xs) = length xs"
  by (metis mset_sortByRtt size_mset)

lemma set_sortByRtt [simp]: "set (sortByRtt xs) = set xs"
  by (metis mset_sortByRtt set_mset_mset)

lemma mset_names_sortByRtt [simp]: "mset (map f (sortByRtt xs)) = mset (map f xs)"
  by simp

lemma mset_swap_at: "i < length xs \<Longrightarrow> j < length xs \<Longrightarrow> mset (swap_at i j xs) = mset xs"
  by (simp add: swap_at_def mset_swap)

text \<open>An update of one server that keeps its name, and the servers it leaves.\<close>

lemma map_name_list_update:
  "i < length xs \<Longrightarrow> si_Name s = si_Name (xs ! i) \<Longrightarrow> map si_Name (xs[i := s]) = map si_Name xs"
  by (metis list_update_id map_update)

lemma mset_names_list_update:
  "i < length xs \<Longrightarrow> si_Name s = si_Name (xs ! i) \<Longrightarrow>
   image_mset si_Name (mset (xs[i := s])) = image_mset si_Name (mset xs)"
  by (metis map_name_list_update mset_map)

lemma estimatorUpdate_names:
  assumes "strategy_ok lb" and "cur < length inner"
  shows "mset (map si_Name (estimatorUpdate q lb cur inner)) = mset (map si_Name inner)"
    and "length (estimatorUpdate q lb cur inner) = length inner"
proof -
  let ?n = "length inner" and ?a = "getActiveCount lb (length inner)"
  let ?c = "Intn q (?n - ?a) + ?a"
  have c: "?c < ?n" if "?a \<noteq> ?n"
    using strategy_estimator_in_range[OF assms(1) le_less_trans[OF le0 assms(2)] that] by blast
  have sw: "mset (map si_Name (swap_at ?c cur inner)) = mset (map si_Name inner)" if "?a \<noteq> ?n"
    using mset_swap_at[OF c[OF that] assms(2)] by simp
  show "mset (map si_Name (estimatorUpdate q lb cur inner)) = mset (map si_Name inner)"
    using sw assms(2) by (auto simp: estimatorUpdate_def Let_def mset_names_list_update)
  show "length (estimatorUpdate q lb cur inner) = length inner"
    by (auto simp: estimatorUpdate_def Let_def swap_at_def)
qed

lemma recover_server_name [simp]: "si_Name (recover_server now best s) = si_Name s"
  by (simp add: recover_server_def Let_def)

lemma recoverDormantServers_names:
  "mset (map si_Name (recoverDormantServers now inner)) = mset (map si_Name inner)"
  "length (recoverDormantServers now inner) = length inner"
  by (auto simp: recoverDormantServers_def Let_def o_def simp flip: mset_map)

lemma recoverDormantServers_Nil [simp]: "recoverDormantServers now inner = [] \<longleftrightarrow> inner = []"
  by (metis length_0_conv recoverDormantServers_names(2))

lemma second_draw_less: "0 < n \<Longrightarrow> second_draw n first rs = Some j \<Longrightarrow> j < n \<and> j \<noteq> first"
  by (induction rs) (auto simp: Intn_def split: if_splits)

lemma second_draw_Some: "(\<exists>r \<in> set rs. Intn r n \<noteq> first) \<longleftrightarrow> (\<exists>j. second_draw n first rs = Some j)"
  by (induction rs) auto

lemma getWeightedCandidate_less:
  "inner \<noteq> [] \<Longrightarrow> getWeightedCandidate d inner = Some i \<Longrightarrow> i < length inner"
  using second_draw_less[of "length inner" "Intn (dr_r d) (length inner)" "dr_second d"]
  by (auto simp: getWeightedCandidate_def Let_def Intn_def split: if_splits option.splits)

lemma length_candidatesLocked [simp]: "length (candidatesLocked sv) = length (sv_inner sv)"
  by (simp add: candidatesLocked_def)

lemma cand_name_candidatesLocked [simp]:
  "i < length (sv_inner sv) \<Longrightarrow> si_Name (rc_Server (candidatesLocked sv ! i)) = si_Name (sv_inner sv ! i)"
  by (simp add: candidatesLocked_def)

lemma select_advanced_less:
  assumes "sv_inner sv \<noteq> []"
  shows "fst (select_advanced now d mds sv) < length (sv_inner sv)"
proof -
  have *: "i < length xs" if "first_index P xs = Some i" for P xs i
    using first_index_Some[OF that] by simp
  show ?thesis using assms
    by (auto simp: select_advanced_def Let_def split_beta dest: * split: option.splits)
qed

lemma select_advanced_inner [simp]: "sv_inner (snd (select_advanced now d mds sv)) = sv_inner sv"
  by (simp add: select_advanced_def Let_def split_beta)

lemma select_advanced_spec:
  "select_advanced now d mds sv = (i, sv') \<Longrightarrow> sv_inner sv \<noteq> [] \<Longrightarrow>
   i < length (sv_inner sv) \<and> sv_inner sv' = sv_inner sv"
  using select_advanced_less[of sv now d mds] select_advanced_inner[of now d mds sv] by simp

lemma select_index_spec:
  assumes "strategy_ok (sv_lbStrategy sv)" and "sv_inner sv \<noteq> []"
    and "select_index now d sv = Some (i, sv')"
  shows "i < length (sv_inner sv')" and "mset (map si_Name (sv_inner sv')) = mset (map si_Name (sv_inner sv))"
proof -
  let ?n = "length (sv_inner sv)"
  have n: "0 < ?n" using assms(2) by simp
  note c = strategy_cand_in_range[OF assms(1) n, of "dr_r d"]
  have *: "i < length (sv_inner sv') \<and> mset (map si_Name (sv_inner sv')) = mset (map si_Name (sv_inner sv))"
    using assms c estimatorUpdate_names[OF assms(1) c, of "dr_estimator d"]
      getWeightedCandidate_less[OF assms(2), of d i]
    by (cases "sv_lbStrategy sv")
      (auto simp: select_index_def Let_def dest!: select_advanced_spec split: if_splits)
  then show "i < length (sv_inner sv')" and
    "mset (map si_Name (sv_inner sv')) = mset (map si_Name (sv_inner sv))" by auto
qed

lemma getOne_spec:
  assumes "strategy_ok (sv_lbStrategy sv)" and "sv_inner sv \<noteq> []"
    and "getOne now d sv = Some (res, sv')"
  shows "(\<exists>s. res = Some s \<and> s \<in> set (sv_inner sv')) \<and>
    mset (map si_Name (sv_inner sv')) = mset (map si_Name (sv_inner sv))"
proof -
  let ?sv = "sv\<lparr>sv_inner := recoverDormantServers now (sv_inner sv)\<rparr>"
  obtain i where i: "select_index now d ?sv = Some (i, sv')" "res = Some (sv_inner sv' ! i)"
    using assms(2,3) by (auto simp: getOne_def split: option.splits)
  have ne: "sv_inner ?sv \<noteq> []" using assms(2) by simp
  have ok: "strategy_ok (sv_lbStrategy ?sv)" using assms(1) by simp
  show ?thesis using select_index_spec[OF ok ne i(1)] i(2) recoverDormantServers_names(1)[of now "sv_inner sv"]
    by auto
qed

text \<open>
  C21. The choice of a server. For every strategy, the server that \<^verbatim>\<open>getOne\<close> returns is one of the
  live servers, and the reordering of servers by the estimators loses and duplicates none of them.
\<close>

theorem getOne_member:
  assumes "strategy_ok (sv_lbStrategy sv)" and "sv_inner sv \<noteq> []"
    and "getOne now d sv = Some (res, sv')"
  shows "(\<exists>s. res = Some s \<and> s \<in> set (sv_inner sv')) \<and>
    mset (map si_Name (sv_inner sv')) = mset (map si_Name (sv_inner sv))"
  using assms by (rule getOne_spec)


section \<open>The invariant of the server set\<close>

definition counters_ok :: "ServerInfo \<Rightarrow> bool" where
  "counters_ok s \<longleftrightarrow> si_failedQueries s \<le> si_totalQueries s \<and> si_totalQueries s \<le> 10000"

definition servers_inv :: "ServersInfo \<Rightarrow> bool" where
  "servers_inv sv \<longleftrightarrow>
     strategy_ok (sv_lbStrategy sv) \<and> distinct (map si_Name (sv_inner sv)) \<and>
     (\<forall>s \<in> set (sv_inner sv). counters_ok s \<and> sv_metrics sv (si_Name s) \<noteq> None) \<and>
     (\<forall>x m. sv_metrics sv x = Some m \<longrightarrow> metrics_inv m)"

lemma counters_ok_nat: "counters_ok s \<longleftrightarrow>
    unat (si_failedQueries s) \<le> unat (si_totalQueries s) \<and> unat (si_totalQueries s) \<le> 10000"
  by (simp add: counters_ok_def word_le_nat_alt)

lemma counters_ok_count_query:
  assumes "counters_ok s"
  shows "counters_ok (count_query now failed s)"
proof -
  have s: "unat (si_failedQueries s) \<le> unat (si_totalQueries s)" "unat (si_totalQueries s) \<le> 10000"
    using assms by (simp_all add: counters_ok_nat)
  have t: "unat (si_totalQueries s + 1) = unat (si_totalQueries s) + 1"
    and f: "unat (si_failedQueries s + 1) = unat (si_failedQueries s) + 1"
    using s by (simp_all add: unat_word_ariths(1))
  have "unat (x div 2) = unat x div 2" for x :: "64 word" by (simp add: unat_div_distrib)
  then show ?thesis using s
    by (auto simp: counters_ok_nat count_query_def Let_def t f word_less_nat_alt div_le_mono)
qed

lemma update_rtt_fields [simp]:
  "si_Name (update_rtt a b c e f s) = si_Name s"
  "counters_ok (update_rtt a b c e f s) = counters_ok s"
  by (simp_all add: update_rtt_def Let_def counters_ok_def)

lemma count_query_name [simp]: "si_Name (count_query now failed s) = si_Name s"
  by (simp add: count_query_def Let_def)

lemma map_name_update_server [simp]:
  "(\<And>s. si_Name (f s) = si_Name s) \<Longrightarrow> map si_Name (update_server x f ss) = map si_Name ss"
  by (induction ss) auto

lemma set_update_server: "s \<in> set (update_server x f ss) \<Longrightarrow> s \<in> set ss \<or> (\<exists>t \<in> set ss. s = f t)"
  by (induction ss) (auto split: if_splits)

lemma counters_ok_recover: "counters_ok s \<Longrightarrow> counters_ok (recover_server now best s)"
  by (simp add: recover_server_def Let_def counters_ok_def)

lemma counters_recoverDormant:
  "\<forall>s \<in> set inner. counters_ok s \<Longrightarrow> \<forall>s \<in> set (recoverDormantServers now inner). counters_ok s"
  by (auto simp: recoverDormantServers_def Let_def counters_ok_recover)

lemma set_swap_at: "i < length xs \<Longrightarrow> j < length xs \<Longrightarrow> set (swap_at i j xs) = set xs"
  by (metis mset_swap_at set_mset_mset)

lemma counters_estimatorUpdate:
  assumes "strategy_ok lb" and "cur < length inner" and "\<forall>s \<in> set inner. counters_ok s"
  shows "\<forall>s \<in> set (estimatorUpdate q lb cur inner). counters_ok s"
proof -
  let ?n = "length inner" and ?a = "getActiveCount lb (length inner)"
  let ?c = "Intn q (?n - ?a) + ?a"
  have c: "?c < ?n" if "?a \<noteq> ?n"
    using strategy_estimator_in_range[OF assms(1) le_less_trans[OF le0 assms(2)] that] by blast
  have "counters_ok ((inner ! cur)\<lparr>si_rtt := x\<rparr>)" for x
    using assms(2,3) by (simp add: counters_ok_def)
  then show ?thesis using assms(2,3) c set_swap_at[of ?c inner cur]
    by (auto simp: estimatorUpdate_def Let_def dest!: set_update_subset_insert[THEN subsetD])
qed

lemma names_mset_eq:
  assumes "mset (map si_Name xs) = mset (map si_Name ys)"
  shows "distinct (map si_Name xs) = distinct (map si_Name ys)" and "si_Name ` set xs = si_Name ` set ys"
  using mset_eq_imp_distinct_iff[OF assms] mset_eq_setD[OF assms] by simp_all

text \<open>The steps of the server set, and the states they lead to from a configured start.\<close>

inductive servers_step :: "ServersInfo \<Rightarrow> ServersInfo \<Rightarrow> bool" where
  step_getOne: "getOne now d sv = Some (res, sv') \<Longrightarrow> servers_step sv sv'"
| step_observe: "servers_step sv (observeOutcome L timeout now ps response err sv)"
| step_install: "si_totalQueries new = 0 \<Longrightarrow> si_failedQueries new = 0 \<Longrightarrow>
    servers_step sv (install_server new stamp sv)"
| step_begin: "servers_step sv (snd (beginODoHRefresh now name cooldown sv))"
| step_end: "servers_step sv (endODoHRefresh now name success sv)"
| step_cancel: "servers_step sv (cancelODoHRefresh name sv)"
| step_register: "servers_step sv (registerServer name stamp sv)"
| step_relay: "servers_step sv (registerRelay name stamp sv)"

inductive servers_reachable :: "ServersInfo \<Rightarrow> bool" where
  servers_init: "strategy_ok lb \<Longrightarrow>
    servers_reachable (NewServersInfo\<lparr>sv_lbStrategy := lb, sv_lbEstimator := est, sv_metricsWindow := w\<rparr>)"
| servers_next: "servers_reachable sv \<Longrightarrow> servers_step sv sv' \<Longrightarrow> servers_reachable sv'"

lemma select_index_counters:
  assumes "strategy_ok (sv_lbStrategy sv)" and "sv_inner sv \<noteq> []"
    and "select_index now d sv = Some (i, sv')" and "\<forall>s \<in> set (sv_inner sv). counters_ok s"
  shows "\<forall>s \<in> set (sv_inner sv'). counters_ok s"
proof -
  have n: "0 < length (sv_inner sv)" using assms(2) by simp
  note c = strategy_cand_in_range[OF assms(1) n, of "dr_r d"]
  show ?thesis using assms(2-4) counters_estimatorUpdate[OF assms(1) c assms(4)]
    by (cases "sv_lbStrategy sv")
      (auto simp: select_index_def Let_def dest!: select_advanced_spec split: if_splits)
qed

lemma advance_stores_inv:
  "(\<forall>x m. sv_metrics sv x = Some m \<longrightarrow> metrics_inv m) \<Longrightarrow> advance_stores now sv x = Some m \<Longrightarrow> metrics_inv m"
  by (auto simp: advance_stores_def advanceLocked_inv split: if_splits)

lemma select_index_stores:
  assumes "select_index now d sv = Some (i, sv')" and "strategy_ok (sv_lbStrategy sv)"
    and "\<forall>x m. sv_metrics sv x = Some m \<longrightarrow> metrics_inv m"
  shows "strategy_ok (sv_lbStrategy sv') \<and> (\<forall>x m. sv_metrics sv' x = Some m \<longrightarrow> metrics_inv m) \<and>
    (\<forall>x. sv_metrics sv' x = None \<longleftrightarrow> sv_metrics sv x = None)"
proof (cases "sv_lbStrategy sv")
  case (StrategyMDS mds)
  then have "sv' = snd (select_advanced now d mds sv)" using assms(1) by (simp add: select_index_def)
  then show ?thesis using assms(3) advance_stores_inv[OF assms(3), of now]
    by (auto simp: select_advanced_def Let_def split_beta strategy_ok_def advance_stores_def)
qed (use assms in \<open>auto simp: select_index_def Let_def split: if_splits\<close>)

lemma getOne_inv:
  assumes "servers_inv sv" and "getOne now d sv = Some (res, sv')"
  shows "servers_inv sv'"
proof (cases "sv_inner sv = []")
  case True
  then show ?thesis using assms by (simp add: getOne_def)
next
  case False
  define sv1 where "sv1 = sv\<lparr>sv_inner := recoverDormantServers now (sv_inner sv)\<rparr>"
  have sv1: "sv_inner sv1 \<noteq> []" "sv_lbStrategy sv1 = sv_lbStrategy sv" "sv_metrics sv1 = sv_metrics sv"
    using False by (simp_all add: sv1_def)
  obtain i where i: "select_index now d sv1 = Some (i, sv')"
    using False assms(2) by (auto simp: getOne_def sv1_def split: option.splits)
  have ok: "strategy_ok (sv_lbStrategy sv)" and d: "distinct (map si_Name (sv_inner sv))"
    and c: "\<forall>s \<in> set (sv_inner sv). counters_ok s"
    and st: "\<forall>x \<in> si_Name ` set (sv_inner sv). sv_metrics sv x \<noteq> None"
    and m: "\<forall>x m. sv_metrics sv1 x = Some m \<longrightarrow> metrics_inv m"
    using assms(1) unfolding servers_inv_def sv1 by auto
  have ok1: "strategy_ok (sv_lbStrategy sv1)" using ok sv1 by simp
  have names: "mset (map si_Name (sv_inner sv')) = mset (map si_Name (sv_inner sv))"
    using getOne_spec[OF ok False assms(2)] by blast
  have c1: "\<forall>s \<in> set (sv_inner sv1). counters_ok s" using counters_recoverDormant[OF c] by (simp add: sv1_def)
  have c': "\<forall>s \<in> set (sv_inner sv'). counters_ok s" by (rule select_index_counters[OF ok1 sv1(1) i c1])
  note stores = select_index_stores[OF i ok1 m, unfolded sv1(3)]
  have st': "\<forall>x \<in> si_Name ` set (sv_inner sv'). sv_metrics sv' x \<noteq> None"
    unfolding names_mset_eq(2)[OF names] using st stores by blast
  show ?thesis unfolding servers_inv_def names_mset_eq(1)[OF names] using d c' st' stores by blast
qed

lemma metricsForLocked_spec:
  "metricsForLocked x sv = (m, sv') \<Longrightarrow>
   sv_inner sv' = sv_inner sv \<and> sv_lbStrategy sv' = sv_lbStrategy sv \<and>
   sv_metrics sv' = (sv_metrics sv)(x \<mapsto> m) \<and>
   (sv_metrics sv x = Some m \<or> sv_metrics sv x = None \<and> m = NewResolverMetricsWithWindow (sv_metricsWindow sv))"
  by (auto simp: metricsForLocked_def Let_def fun_upd_idem split: option.splits)

lemma metricsForLocked_inv:
  assumes "metricsForLocked x sv = (m, sv')" and "\<forall>x m. sv_metrics sv x = Some m \<longrightarrow> metrics_inv m"
  shows "metrics_inv m"
  using metricsForLocked_spec[OF assms(1)] assms(2) NewResolverMetricsWithWindow_inv by auto

lemma observeOutcome_inv:
  assumes "servers_inv sv"
  shows "servers_inv (observeOutcome L timeout now ps response err sv)"
proof -
  let ?x = "ps_serverName ps"
  define f where "f = (\<lambda>s. update_rtt timeout (time_sub now (ps_exchangeStart ps)) (exchange_failed response err)
      (exchange_outcome L timeout now ps response err) (ps_action ps)
      (count_query now (exchange_failed response err) s))"
  define sv1 where "sv1 = sv\<lparr>sv_inner := update_server ?x f (sv_inner sv)\<rparr>"
  obtain m sv2 where m: "metricsForLocked ?x sv1 = (m, sv2)" by force
  have inv: "\<forall>x m. sv_metrics sv1 x = Some m \<longrightarrow> metrics_inv m" using assms by (simp add: sv1_def servers_inv_def)
  have f: "si_Name (f s) = si_Name s" "counters_ok s \<Longrightarrow> counters_ok (f s)" for s
    by (simp_all add: f_def counters_ok_count_query)
  have names: "map si_Name (sv_inner sv1) = map si_Name (sv_inner sv)" using f(1) by (simp add: sv1_def)
  have c: "\<forall>s \<in> set (sv_inner sv1). counters_ok s"
    using assms f(2) by (auto simp: sv1_def servers_inv_def dest!: set_update_server)
  have st: "sv_metrics sv (si_Name s) \<noteq> None" if "s \<in> set (sv_inner sv1)" for s
  proof -
    have "si_Name s \<in> set (map si_Name (sv_inner sv))" using that names by (metis image_eqI set_map)
    then show ?thesis using assms by (auto simp: servers_inv_def)
  qed
  have lb: "strategy_ok (feedback_strategy a b e t lb) = strategy_ok lb" for a b e t lb
    by (cases lb) (auto simp: feedback_strategy_def strategy_ok_def)
  have eq: "observeOutcome L timeout now ps response err sv =
      (if ?x = [] \<or> time_is_zero (ps_exchangeStart ps) then sv
       else let o1 = exchange_outcome L timeout now ps response err; m' = Observe now o1 m
            in sv2\<lparr>sv_metrics := (sv_metrics sv2)(?x \<mapsto> m'),
                   sv_lbStrategy := feedback_strategy now ?x o1 (rm_totalSamples m') (sv_lbStrategy sv2)\<rparr>)"
    using m by (simp add: observeOutcome_def Let_def sv1_def f_def)
  show ?thesis
    using assms metricsForLocked_spec[OF m] names c st Observe_inv[OF metricsForLocked_inv[OF m inv]] inv
    by (simp add: eq Let_def servers_inv_def lb) (auto simp: sv1_def)
qed

lemma replace_server_spec:
  "replace_server new olds = Some xs \<Longrightarrow>
   map si_Name xs = map si_Name olds \<and> set xs \<subseteq> insert new (set olds)"
  by (induction olds arbitrary: xs) (auto split: if_splits)

lemma replace_server_None: "replace_server new olds = None \<longleftrightarrow> si_Name new \<notin> si_Name ` set olds"
  by (induction olds) auto

lemma registerServer_fields [simp]:
  "sv_inner (registerServer x st sv) = sv_inner sv" "sv_metrics (registerServer x st sv) = sv_metrics sv"
  "sv_lbStrategy (registerServer x st sv) = sv_lbStrategy sv"
  by (simp_all add: registerServer_def)

lemma install_server_inv:
  assumes "servers_inv sv" and "si_totalQueries new = 0" and "si_failedQueries new = 0"
  shows "servers_inv (install_server new stamp sv)"
proof -
  define new' where "new' = new\<lparr>si_rtt := VariableEWMA_Set (of_int (si_initialRtt new)) (NewVariableEWMA 10)\<rparr>"
  have new: "counters_ok new'" using assms(2,3) by (simp add: new'_def counters_ok_def)
  define inner where "inner = (case replace_server new' (sv_inner sv) of
      Some xs \<Rightarrow> xs | None \<Rightarrow> sv_inner sv @ [new'])"
  obtain m sv2 where m: "metricsForLocked (si_Name new') (sv\<lparr>sv_inner := inner\<rparr>) = (m, sv2)" by force
  have eq: "install_server new stamp sv = sv2 \<or>
      install_server new stamp sv = registerServer (si_Name new') stamp sv2"
    using m by (auto simp: install_server_def Let_def new'_def[symmetric] inner_def split: option.splits)
  have d: "distinct (map si_Name inner)" and sub: "set inner \<subseteq> insert new' (set (sv_inner sv))"
    using assms(1) replace_server_None[of new' "sv_inner sv"] replace_server_spec[of new' "sv_inner sv"]
    by (auto simp: inner_def servers_inv_def split: option.splits)
  have inv: "\<forall>x m. sv_metrics (sv\<lparr>sv_inner := inner\<rparr>) x = Some m \<longrightarrow> metrics_inv m"
    using assms(1) by (simp add: servers_inv_def)
  have "servers_inv sv2"
    using metricsForLocked_spec[OF m] metricsForLocked_inv[OF m inv] d sub new assms(1)
    by (auto simp: servers_inv_def)
  then show ?thesis using eq by (auto simp: servers_inv_def)
qed

lemma servers_step_inv: "servers_step sv sv' \<Longrightarrow> servers_inv sv \<Longrightarrow> servers_inv sv'"
proof (induction rule: servers_step.induct)
  case (step_getOne now d sv res sv')
  then show ?case using getOne_inv by blast
qed (simp_all add: observeOutcome_inv install_server_inv, simp_all add: servers_inv_def beginODoHRefresh_def
  endODoHRefresh_def cancelODoHRefresh_def registerRelay_def)

lemma servers_reachable_inv: "servers_reachable sv \<Longrightarrow> servers_inv sv"
  by (induction rule: servers_reachable.induct)
    (auto simp: servers_step_inv, simp add: servers_inv_def NewServersInfo_def)

lemma frac_bounds:
  "0 < (a :: int) \<Longrightarrow> 0 \<le> b \<Longrightarrow> b \<le> a \<Longrightarrow>
   0 \<le> (of_int (a - b) / of_int a :: real) \<and> of_int (a - b) / of_int a \<le> (1 :: real)"
  by (simp add: divide_le_eq_1)

lemma success_rate_bounds:
  assumes "counters_ok s" and "si_totalQueries s > 0"
  shows "0 \<le> (of_int (uint (si_totalQueries s - si_failedQueries s)) / of_int (uint (si_totalQueries s)) :: real)"
    and "of_int (uint (si_totalQueries s - si_failedQueries s)) / of_int (uint (si_totalQueries s)) \<le> (1 :: real)"
proof -
  have sub: "uint (si_totalQueries s - si_failedQueries s) = uint (si_totalQueries s) - uint (si_failedQueries s)"
    using assms(1) by (simp add: counters_ok_def uint_minus_simple_alt)
  have le: "uint (si_failedQueries s) \<le> uint (si_totalQueries s)"
    using assms(1) by (simp add: counters_ok_def word_le_def)
  have "0 < uint (si_totalQueries s)" using assms(2) by (simp add: word_less_def)
  from frac_bounds[OF this uint_ge_0 le]
  show "0 \<le> (of_int (uint (si_totalQueries s - si_failedQueries s)) / of_int (uint (si_totalQueries s)) :: real)"
    and "of_int (uint (si_totalQueries s - si_failedQueries s)) / of_int (uint (si_totalQueries s)) \<le> (1 :: real)"
    unfolding sub by auto
qed

lemma score_bounds:
  assumes "counters_ok s"
  shows "0 \<le> calculateServerScore s \<and> calculateServerScore s \<le> 1"
proof -
  define r where "r = (if si_totalQueries s > 0 then of_int (uint (si_totalQueries s - si_failedQueries s)) /
      of_int (uint (si_totalQueries s)) else 1 :: real)"
  define q where "q = (let rtt = (if rtt_value s \<le> 0 then 1000 else rtt_value s)
      in if 1 - rtt / 1000 < 0 then 0 else 1 - rtt / 1000)"
  have "0 \<le> r" "r \<le> 1" using success_rate_bounds[OF assms] by (auto simp: r_def)
  moreover have "0 \<le> q" "q \<le> 1" by (auto simp: q_def Let_def)
  moreover have "calculateServerScore s = q * 0.7 + r * 0.3"
    by (simp add: calculateServerScore_def Let_def q_def r_def)
  ultimately show ?thesis by simp
qed

text \<open>
  C20. Invariant of the server set. Whatever is chosen, observed, refreshed and registered, in any
  order, the names of the live servers are distinct, every live server has a metric store, no server
  has more failed than total queries, and so the subtraction in its score never wraps around: the
  score is between 0 and 1.
\<close>

theorem servers_invariant:
  assumes "servers_reachable sv"
  shows "distinct (map si_Name (sv_inner sv)) \<and>
    (\<forall>s \<in> set (sv_inner sv). sv_metrics sv (si_Name s) \<noteq> None \<and>
       si_failedQueries s \<le> si_totalQueries s \<and> si_totalQueries s \<le> 10000 \<and>
       0 \<le> calculateServerScore s \<and> calculateServerScore s \<le> 1)"
  using servers_reachable_inv[OF assms] score_bounds by (auto simp: servers_inv_def counters_ok_def)

section \<open>Examples\<close>

definition example_stamp :: ServerStamp where
  "example_stamp =
     \<lparr>st_ServerAddrStr = ''192.0.2.1'', st_ServerPk = zero_key, st_Hashes = [],
      st_ProviderName = ''2.dnscrypt-cert.example'', st_Path = [], st_Props = 0,
      st_Proto = StampProtoTypeDNSCrypt\<rparr>"

definition example_servers :: ServersInfo where
  "example_servers =
     install_server (zero_ServerInfo\<lparr>si_Name := ''b'', si_initialRtt := 10\<rparr>) example_stamp
       (install_server (zero_ServerInfo\<lparr>si_Name := ''a'', si_initialRtt := 20\<rparr>) example_stamp
          (NewServersInfo\<lparr>sv_lbStrategy := LBStrategyP2\<rparr>))"

definition example_draws :: draws where
  "example_draws = \<lparr>dr_u = 0, dr_r = 1, dr_second = [1, 0], dr_estimator = 0\<rparr>"

lemma example_servers_facts:
  "map si_Name (sv_inner example_servers) = [''a'', ''b'']" "sv_lbStrategy example_servers = LBStrategyP2"
  by (simp_all add: example_servers_def install_server_def metricsForLocked_def NewServersInfo_def Let_def)

theorem getOne_member_witness:
  "\<exists>res sv'. getOne 5 example_draws example_servers = Some (res, sv') \<and> res \<noteq> None \<and>
     mset (map si_Name (sv_inner sv')) = {#''a'', ''b''#}"
proof -
  have ok: "strategy_ok (sv_lbStrategy example_servers)" and ne: "sv_inner example_servers \<noteq> []"
    using example_servers_facts by (auto simp: strategy_ok_def)
  obtain res sv' where r: "getOne 5 example_draws example_servers = Some (res, sv')"
    using ne by (cases "getOne 5 example_draws example_servers")
      (auto simp: getOne_def select_index_def Let_def example_servers_facts split: option.splits)
  show ?thesis using getOne_member[OF ok ne r] r by (auto simp: example_servers_facts simp del: mset_map)
qed


theorem servers_invariant_witness: "distinct (map si_Name (sv_inner example_servers))"
proof -
  have "servers_reachable (NewServersInfo\<lparr>sv_lbStrategy := LBStrategyP2\<rparr>)"
    using servers_init[where lb = LBStrategyP2 and est = True and w = metricsWindow]
    by (simp add: strategy_ok_def NewServersInfo_def)
  then have "servers_reachable example_servers"
    unfolding example_servers_def by (auto intro!: servers_next[OF _ step_install] simp: zero_ServerInfo_def)
  from servers_invariant[OF this] show ?thesis by blast
qed

end
