(* ===== verification/Conn_Pool.thy ===== *)
theory Conn_Pool
  imports Go_Prelude "HOL-Library.AList" "HOL-Library.Multiset"
begin

text \<open>
  The pool of UDP sockets (\<^verbatim>\<open>dnscrypt-proxy/udp_conn_pool.go\<close>). A socket is a number; the pool is keyed
  by the text of an address. A shard is an association list, a Go map with its entries in some order.
  Operations that close sockets return them as a list. The lemmas follow a pool and its clients as a
  transition system and show that no socket is lost, shared or kept beyond the limits.
\<close>

section \<open>The pool\<close>

type_synonym conn = nat

definition UDPPoolMaxConnsPerAddr :: nat where "UDPPoolMaxConnsPerAddr = 4"
definition UDPPoolMaxIdleTime :: duration where "UDPPoolMaxIdleTime = 30 * second"
definition UDPPoolShards :: nat where "UDPPoolShards = 64"

record pooledConn =
  pc_conn :: conn
  pc_lastUsed :: go_time

type_synonym poolShard = "(string \<times> pooledConn list) list"

record UDPConnPool =
  up_shards :: "poolShard list"
  up_closed :: bool

definition NewUDPConnPool :: UDPConnPool where
  "NewUDPConnPool = \<lparr>up_shards = replicate UDPPoolShards [], up_closed = False\<rparr>"

definition shard_hash :: "string \<Rightarrow> 32 word" where
  "shard_hash addr = fold (\<lambda>c h. h * 31 + of_char c) addr 0"

definition getShard :: "string \<Rightarrow> nat" where
  "getShard addr = unat (shard_hash addr mod of_nat UDPPoolShards)"

definition conns_at :: "poolShard \<Rightarrow> string \<Rightarrow> pooledConn list" where
  "conns_at sh addr = (case map_of sh addr of None \<Rightarrow> [] | Some conns \<Rightarrow> conns)"

definition set_conns :: "string \<Rightarrow> pooledConn list \<Rightarrow> UDPConnPool \<Rightarrow> UDPConnPool" where
  "set_conns addr conns p =
     p\<lparr>up_shards := (up_shards p)[getShard addr := AList.update addr conns (up_shards p ! getShard addr)]\<rparr>"

section \<open>The operations\<close>

definition is_stale :: "go_time \<Rightarrow> pooledConn \<Rightarrow> bool" where
  "is_stale now pc \<longleftrightarrow> time_sub now (pc_lastUsed pc) > UDPPoolMaxIdleTime"

definition active_conns :: "go_time \<Rightarrow> pooledConn list \<Rightarrow> pooledConn list" where
  "active_conns now conns = filter (\<lambda>pc. \<not> is_stale now pc) conns"

definition stale_conns :: "go_time \<Rightarrow> pooledConn list \<Rightarrow> conn list" where
  "stale_conns now conns = map pc_conn (filter (is_stale now) conns)"

definition clean_shard :: "go_time \<Rightarrow> poolShard \<Rightarrow> poolShard" where
  "clean_shard now sh =
     filter (\<lambda>(addr, conns). conns \<noteq> []) (map (\<lambda>(addr, conns). (addr, active_conns now conns)) sh)"

definition cleanupStale :: "go_time \<Rightarrow> UDPConnPool \<Rightarrow> UDPConnPool \<times> conn list" where
  "cleanupStale now p =
     (p\<lparr>up_shards := map (clean_shard now) (up_shards p)\<rparr>,
      concat (map (\<lambda>sh. concat (map (\<lambda>(addr, conns). stale_conns now conns) sh)) (up_shards p)))"

text \<open>\<open>dial\<close> is the socket that dialling returns, or an error.\<close>

definition pool_Get :: "string \<Rightarrow> conn option \<Rightarrow> UDPConnPool \<Rightarrow> (conn \<times> bool) option \<times> UDPConnPool" where
  "pool_Get addr dial p =
     (let conns = conns_at (up_shards p ! getShard addr) addr
      in if conns \<noteq> [] then (Some (pc_conn (last conns), True), set_conns addr (butlast conns) p)
         else (map_option (\<lambda>c. (c, False)) dial, p))"

definition pool_Put :: "string \<Rightarrow> go_time \<Rightarrow> conn \<Rightarrow> UDPConnPool \<Rightarrow> UDPConnPool \<times> conn list" where
  "pool_Put addr now conn p =
     (if up_closed p then (p, [conn])
      else let conns = conns_at (up_shards p ! getShard addr) addr
           in if length conns \<ge> UDPPoolMaxConnsPerAddr then (p, [conn])
              else (set_conns addr (conns @ [\<lparr>pc_conn = conn, pc_lastUsed = now\<rparr>]) p, []))"

definition pool_Discard :: "conn \<Rightarrow> conn list" where
  "pool_Discard conn = [conn]"

definition pool_conns :: "UDPConnPool \<Rightarrow> conn list" where
  "pool_conns p = map pc_conn (concat (map (\<lambda>sh. concat (map snd sh)) (up_shards p)))"

definition pool_Close :: "UDPConnPool \<Rightarrow> UDPConnPool \<times> conn list" where
  "pool_Close p =
     (p\<lparr>up_closed := True, up_shards := map (\<lambda>sh. []) (up_shards p)\<rparr>, pool_conns p)"

definition pool_Stats :: "UDPConnPool \<Rightarrow> nat \<times> nat" where
  "pool_Stats p =
     (sum_list (map (\<lambda>sh. sum_list (map (\<lambda>(addr, conns). length conns) sh)) (up_shards p)),
      sum_list (map length (up_shards p)))"

section \<open>The contents of a pool\<close>

lemma getShard_less: "getShard addr < 64"
  using unat_mod_distrib[of "shard_hash addr" "64 :: 32 word"]
  by (simp add: getShard_def UDPPoolShards_def)

definition shard_conns :: "poolShard \<Rightarrow> conn list" where
  "shard_conns sh = map pc_conn (concat (map snd sh))"

lemma pool_conns_shards: "pool_conns p = concat (map shard_conns (up_shards p))"
  by (simp add: pool_conns_def shard_conns_def [abs_def] map_concat o_def)

definition shard_ok :: "poolShard \<Rightarrow> bool" where
  "shard_ok sh \<longleftrightarrow> distinct (map fst sh) \<and> (\<forall>(addr, conns) \<in> set sh. length conns \<le> 4)"

definition pool_ok :: "UDPConnPool \<Rightarrow> bool" where
  "pool_ok p \<longleftrightarrow> length (up_shards p) = 64 \<and> list_all shard_ok (up_shards p) \<and>
     (up_closed p \<longrightarrow> pool_conns p = [])"

lemma mset_exchange:
  fixes A :: "'a multiset"
  assumes "A + S = B + U" "U + C = S + D"
  shows "A + C = B + D"
proof -
  have "(A + S) + (U + C) = (B + U) + (S + D)" using assms by simp
  then have "(A + C) + (S + U) = (B + D) + (S + U)" by (simp only: ac_simps)
  then show ?thesis by (simp only: add_right_cancel)
qed

lemma mset_cancel_mid:
  fixes A :: "'a multiset"
  assumes "A + (B + C) = D + B"
  shows "A + C = D"
proof -
  have "(A + C) + B = D + B" using assms by (simp only: ac_simps)
  then show ?thesis by (simp only: add_right_cancel)
qed

lemma mset_move:
  fixes A :: "'a multiset"
  assumes "A + C = B" "B + H = T"
  shows "A + (H + C) = T"
  using assms by (auto simp: ac_simps)

lemma mset_close_part:
  fixes A :: "'a multiset"
  assumes "A + C = B" "B + H = T"
  shows "C + (A + H) = T"
proof -
  have "C + (A + H) = (A + C) + H" by (simp only: ac_simps)
  then show ?thesis using assms by simp
qed

lemma mset_hand_over:
  fixes P :: "'a multiset"
  assumes "P + X = Q + C" "H + C = H1" "Q + H1 = T"
  shows "X + (P + H) = T"
proof -
  have "X + (P + H) = (P + X) + H" by (simp only: ac_simps)
  also have "\<dots> = (Q + C) + H" using assms(1) by simp
  also have "\<dots> = Q + (H + C)" by (simp only: ac_simps)
  finally show ?thesis using assms(2,3) by simp
qed

lemma mset_shard_update:
  "distinct (map fst sh) \<Longrightarrow>
   mset (shard_conns (AList.update addr conns sh)) + mset (map pc_conn (conns_at sh addr)) =
   mset (shard_conns sh) + mset (map pc_conn conns)"
  by (induction sh) (auto simp: shard_conns_def conns_at_def split: option.splits dest: map_of_SomeD)

lemma mset_concat_update:
  "i < length xss \<Longrightarrow> mset (concat (xss[i := ys])) + mset (xss ! i) = mset (concat xss) + mset ys"
  by (induction xss arbitrary: i) (auto split: nat.splits simp: ac_simps)

lemma shard_ok_nth: "pool_ok p \<Longrightarrow> shard_ok (up_shards p ! getShard addr)"
  by (auto simp: pool_ok_def list_all_length getShard_less)

lemma mset_set_conns:
  assumes "pool_ok p"
  shows "mset (pool_conns (set_conns addr conns p)) +
      mset (map pc_conn (conns_at (up_shards p ! getShard addr) addr)) =
    mset (pool_conns p) + mset (map pc_conn conns)"
proof -
  let ?i = "getShard addr"
  let ?sh = "up_shards p ! ?i"
  have i: "?i < length (map shard_conns (up_shards p))"
    using assms getShard_less by (simp add: pool_ok_def)
  have d: "distinct (map fst ?sh)" using shard_ok_nth[OF assms] by (simp add: shard_ok_def)
  have "mset (pool_conns (set_conns addr conns p)) + mset (shard_conns ?sh) =
      mset (pool_conns p) + mset (shard_conns (AList.update addr conns ?sh))"
    using mset_concat_update[OF i, of "shard_conns (AList.update addr conns ?sh)"] i
    by (simp add: pool_conns_shards set_conns_def map_update)
  then show ?thesis using mset_shard_update[OF d, of addr conns] by (rule mset_exchange)
qed

lemma conns_at_short: "shard_ok sh \<Longrightarrow> length (conns_at sh addr) \<le> 4"
  by (auto simp: shard_ok_def conns_at_def split: option.splits dest: map_of_SomeD)

lemma update_entry: "x \<in> set (AList.update k v xs) \<Longrightarrow> x = (k, v) \<or> x \<in> set xs"
  by (induction xs) (auto split: if_splits)

lemma shard_ok_update:
  assumes "shard_ok sh" "length conns \<le> 4"
  shows "shard_ok (AList.update addr conns sh)"
  using assms by (auto simp: shard_ok_def distinct_update dest!: update_entry)

lemma set_conns_ok:
  assumes "pool_ok p" "length conns \<le> 4" "\<not> up_closed p \<or> pool_conns (set_conns addr conns p) = []"
  shows "pool_ok (set_conns addr conns p)"
proof -
  have "shard_ok (AList.update addr conns (up_shards p ! getShard addr))"
    using shard_ok_update[OF shard_ok_nth[OF assms(1)] assms(2)] .
  then have "list_all shard_ok (up_shards (set_conns addr conns p))"
    using assms(1) by (auto simp: pool_ok_def set_conns_def list_all_iff dest!: set_mp[OF set_update_subset_insert])
  then show ?thesis using assms(1,3) by (auto simp: pool_ok_def set_conns_def)
qed

lemma clean_shard_ok: "shard_ok sh \<Longrightarrow> shard_ok (clean_shard now sh)"
  by (auto simp: shard_ok_def clean_shard_def active_conns_def o_def split_def distinct_map_filter
      intro: le_trans[OF length_filter_le])

lemma mset_partition_conns:
  "mset (map pc_conn (active_conns now conns)) + mset (stale_conns now conns) = mset (map pc_conn conns)"
  by (induction conns) (auto simp: active_conns_def stale_conns_def)

lemma mset_clean_shard:
  "mset (shard_conns (clean_shard now sh)) +
     mset (concat (map (\<lambda>(addr, conns). stale_conns now conns) sh)) = mset (shard_conns sh)"
proof (induction sh)
  case (Cons e sh)
  have "mset (shard_conns (clean_shard now (e # sh))) =
      mset (map pc_conn (active_conns now (snd e))) + mset (shard_conns (clean_shard now sh))"
    by (cases e) (simp add: clean_shard_def shard_conns_def)
  then show ?case
    using Cons.IH mset_partition_conns[of now "snd e"]
    by (cases e) (simp add: shard_conns_def ac_simps)
qed (simp add: clean_shard_def shard_conns_def)

lemma mset_cleanupStale:
  "mset (pool_conns (fst (cleanupStale now p))) + mset (snd (cleanupStale now p)) = mset (pool_conns p)"
proof -
  have "mset (concat (map (\<lambda>sh. shard_conns (clean_shard now sh)) shs)) +
      mset (concat (map (\<lambda>sh. concat (map (\<lambda>(addr, conns). stale_conns now conns) sh)) shs)) =
    mset (concat (map shard_conns shs))" for shs
  proof (induction shs)
    case (Cons sh shs)
    then show ?case using mset_clean_shard[of now sh] by (simp add: ac_simps)
  qed simp
  then show ?thesis by (simp add: cleanupStale_def pool_conns_shards o_def)
qed

lemma cleanupStale_ok:
  assumes "pool_ok p"
  shows "pool_ok (fst (cleanupStale now p))"
proof -
  have "pool_conns p = [] \<Longrightarrow> pool_conns (fst (cleanupStale now p)) = []"
    using mset_cleanupStale[of now p] by auto
  then show ?thesis
    using assms clean_shard_ok by (auto simp: pool_ok_def cleanupStale_def list_all_iff)
qed

section \<open>The pool and its clients\<close>

text \<open>
  The state of the transition system: the pool, the sockets that its clients hold and the sockets that
  are open. A client returns or discards a socket it holds, once.
\<close>

record pool_sys =
  sys_pool :: UDPConnPool
  sys_held :: "conn list"
  sys_open :: "conn list"

definition pool_start :: pool_sys where
  "pool_start = \<lparr>sys_pool = NewUDPConnPool, sys_held = [], sys_open = []\<rparr>"

definition close_conns :: "conn list \<Rightarrow> conn list \<Rightarrow> conn list" where
  "close_conns cs opened = filter (\<lambda>c. c \<notin> set cs) opened"

inductive pool_step :: "pool_sys \<Rightarrow> pool_sys \<Rightarrow> bool" where
  step_reuse: "pool_Get addr dial (sys_pool s) = (Some (c, True), p) \<Longrightarrow>
    pool_step s (s\<lparr>sys_pool := p, sys_held := c # sys_held s\<rparr>)"
| step_dial: "pool_Get addr dial (sys_pool s) = (Some (c, False), p) \<Longrightarrow> c \<notin> set (sys_open s) \<Longrightarrow>
    pool_step s (s\<lparr>sys_pool := p, sys_held := c # sys_held s, sys_open := c # sys_open s\<rparr>)"
| step_put: "c \<in> set (sys_held s) \<Longrightarrow> pool_Put addr now c (sys_pool s) = (p, closed) \<Longrightarrow>
    pool_step s (s\<lparr>sys_pool := p, sys_held := remove1 c (sys_held s),
      sys_open := close_conns closed (sys_open s)\<rparr>)"
| step_discard: "c \<in> set (sys_held s) \<Longrightarrow>
    pool_step s (s\<lparr>sys_held := remove1 c (sys_held s),
      sys_open := close_conns (pool_Discard c) (sys_open s)\<rparr>)"
| step_cleanup: "cleanupStale now (sys_pool s) = (p, closed) \<Longrightarrow>
    pool_step s (s\<lparr>sys_pool := p, sys_open := close_conns closed (sys_open s)\<rparr>)"
| step_close: "pool_Close (sys_pool s) = (p, closed) \<Longrightarrow>
    pool_step s (s\<lparr>sys_pool := p, sys_open := close_conns closed (sys_open s)\<rparr>)"

definition pool_sys_inv :: "pool_sys \<Rightarrow> bool" where
  "pool_sys_inv s \<longleftrightarrow> pool_ok (sys_pool s) \<and> distinct (sys_open s) \<and>
     mset (pool_conns (sys_pool s)) + mset (sys_held s) = mset (sys_open s)"

lemma mset_close_conns:
  assumes "distinct opened" "mset cs + M = mset opened"
  shows "mset (close_conns cs opened) = M"
proof -
  obtain ms where ms: "M = mset ms" by (metis ex_mset)
  then have eq: "mset (cs @ ms) = mset opened" using assms(2) by simp
  then have d: "distinct (cs @ ms)" using assms(1) mset_eq_imp_distinct_iff by blast
  have "mset (close_conns cs opened) = filter_mset (\<lambda>c. c \<notin> set cs) (mset (cs @ ms))"
    by (simp only: close_conns_def mset_filter eq)
  also have "\<dots> = mset (filter (\<lambda>c. c \<notin> set cs) (cs @ ms))" by (simp only: mset_filter)
  also have "filter (\<lambda>c. c \<notin> set cs) (cs @ ms) = ms" using d by (auto simp: filter_empty_conv filter_id_conv)
  finally show ?thesis using ms by simp
qed

lemma mset_remove1: "c \<in> set cs \<Longrightarrow> mset (remove1 c cs) + {#c#} = mset cs"
  by simp

lemma distinct_close_conns: "distinct opened \<Longrightarrow> distinct (close_conns cs opened)"
  by (simp add: close_conns_def)

lemma pool_Get_reuse:
  assumes "pool_Get addr dial p = (Some (c, True), p')" "pool_ok p"
  shows "pool_ok p' \<and> mset (pool_conns p') + {#c#} = mset (pool_conns p)"
proof -
  define conns where "conns = conns_at (up_shards p ! getShard addr) addr"
  have ne: "conns \<noteq> []" and c: "c = pc_conn (last conns)" and p': "p' = set_conns addr (butlast conns) p"
    using assms(1) by (auto simp: pool_Get_def Let_def conns_def split: if_splits)
  have "mset (map pc_conn (butlast conns @ [last conns])) = mset (map pc_conn (butlast conns)) + {#c#}"
    using c by simp
  then have split: "mset (map pc_conn conns) = mset (map pc_conn (butlast conns)) + {#c#}"
    unfolding append_butlast_last_id[OF ne] .
  have "mset (pool_conns p') + (mset (map pc_conn (butlast conns)) + {#c#}) =
      mset (pool_conns p) + mset (map pc_conn (butlast conns))"
    using mset_set_conns[OF assms(2), of addr "butlast conns"]
    unfolding conns_def[symmetric] split p' .
  then have m: "mset (pool_conns p') + {#c#} = mset (pool_conns p)" by (rule mset_cancel_mid)
  have len: "length (butlast conns) \<le> 4"
    using conns_at_short[OF shard_ok_nth[OF assms(2)], of addr addr] conns_def by simp
  have "\<not> up_closed p" using m assms(2) by (auto simp: pool_ok_def)
  then have "pool_ok p'" using set_conns_ok[OF assms(2) len] p' by simp
  with m show ?thesis by simp
qed

lemma pool_Get_dial: "pool_Get addr dial p = (Some (c, False), p') \<Longrightarrow> p' = p"
  by (auto simp: pool_Get_def Let_def split: if_splits)

lemma pool_Put_ok:
  assumes "pool_Put addr now c p = (p', closed)" "pool_ok p"
  shows "pool_ok p' \<and> mset (pool_conns p') + mset closed = mset (pool_conns p) + {#c#}"
proof (cases "up_closed p \<or> 4 \<le> length (conns_at (up_shards p ! getShard addr) addr)")
  case True
  then show ?thesis
    using assms by (auto simp: pool_Put_def Let_def UDPPoolMaxConnsPerAddr_def split: if_splits)
next
  case False
  let ?conns = "conns_at (up_shards p ! getShard addr) addr"
  let ?new = "?conns @ [\<lparr>pc_conn = c, pc_lastUsed = now\<rparr>]"
  have p': "p' = set_conns addr ?new p" "closed = []"
    using assms(1) False by (auto simp: pool_Put_def Let_def UDPPoolMaxConnsPerAddr_def)
  have "pool_ok p'" using set_conns_ok[OF assms(2), of ?new] False p' by simp
  moreover have "mset (pool_conns p') = mset (pool_conns p) + {#c#}"
    using mset_set_conns[OF assms(2), of addr ?new] p' by simp
  ultimately show ?thesis using p' by simp
qed

lemma pool_Close_ok:
  assumes "pool_Close p = (p', closed)" "pool_ok p"
  shows "pool_ok p' \<and> pool_conns p' = [] \<and> closed = pool_conns p"
proof -
  have p': "p' = p\<lparr>up_closed := True, up_shards := map (\<lambda>sh. []) (up_shards p)\<rparr>" "closed = pool_conns p"
    using assms(1) by (auto simp: pool_Close_def)
  have "pool_conns p' = []" by (auto simp: p' pool_conns_def)
  then show ?thesis using assms(2) p' by (auto simp: pool_ok_def list_all_iff shard_ok_def)
qed

lemma pool_sys_inv_step:
  assumes "pool_step s s'" "pool_sys_inv s"
  shows "pool_sys_inv s'"
  using assms
proof (cases rule: pool_step.cases)
  case (step_reuse addr dial c p)
  then have "pool_ok p \<and> mset (pool_conns p) + {#c#} = mset (pool_conns (sys_pool s))"
    using pool_Get_reuse assms(2) by (simp add: pool_sys_inv_def)
  moreover have "mset (pool_conns (sys_pool s)) + mset (sys_held s) = mset (sys_open s)"
    using assms(2) by (simp add: pool_sys_inv_def)
  ultimately have "mset (pool_conns p) + (mset (sys_held s) + {#c#}) = mset (sys_open s)" "pool_ok p"
    using mset_move by blast+
  then show ?thesis using step_reuse assms(2) by (simp add: pool_sys_inv_def)
next
  case (step_dial addr dial c p)
  then show ?thesis using assms(2) by (auto simp: pool_sys_inv_def dest: pool_Get_dial)
next
  case (step_put c addr now p closed)
  have ok: "pool_ok p" and eq: "mset (pool_conns p) + mset closed = mset (pool_conns (sys_pool s)) + {#c#}"
    using pool_Put_ok step_put assms(2) by (auto simp: pool_sys_inv_def)
  have "mset closed + (mset (pool_conns p) + mset (remove1 c (sys_held s))) = mset (sys_open s)"
    using mset_hand_over[OF eq mset_remove1[OF step_put(2)]] assms(2) by (simp add: pool_sys_inv_def)
  then have "mset (close_conns closed (sys_open s)) =
      mset (pool_conns p) + mset (remove1 c (sys_held s))"
    using mset_close_conns assms(2) by (simp add: pool_sys_inv_def)
  then show ?thesis using step_put ok assms(2) by (simp add: pool_sys_inv_def distinct_close_conns)
next
  case (step_discard c)
  have "{#c#} + (mset (pool_conns (sys_pool s)) + mset (remove1 c (sys_held s))) = mset (sys_open s)"
    using assms(2) unfolding pool_sys_inv_def by (intro mset_hand_over[OF refl mset_remove1[OF step_discard(2)]]) blast
  then have "mset [c] + (mset (pool_conns (sys_pool s)) + mset (remove1 c (sys_held s))) = mset (sys_open s)"
    by (simp only: mset.simps)
  then have "mset (close_conns [c] (sys_open s)) =
      mset (pool_conns (sys_pool s)) + mset (remove1 c (sys_held s))"
    using mset_close_conns assms(2) by (simp only: pool_sys_inv_def)
  then show ?thesis
    using step_discard assms(2) by (simp add: pool_sys_inv_def pool_Discard_def distinct_close_conns)
next
  case (step_cleanup now p closed)
  then have "mset (pool_conns p) + mset closed = mset (pool_conns (sys_pool s))" "pool_ok p"
    using mset_cleanupStale[of now "sys_pool s"] cleanupStale_ok[of "sys_pool s" now] assms(2)
    by (auto simp: pool_sys_inv_def)
  then have "mset closed + (mset (pool_conns p) + mset (sys_held s)) = mset (sys_open s)"
    using assms(2) unfolding pool_sys_inv_def by (intro mset_close_part) blast+
  then have "mset (close_conns closed (sys_open s)) = mset (pool_conns p) + mset (sys_held s)"
    using mset_close_conns assms(2) by (simp add: pool_sys_inv_def)
  then show ?thesis
    using step_cleanup \<open>pool_ok p\<close> assms(2) by (simp add: pool_sys_inv_def distinct_close_conns)
next
  case (step_close p closed)
  then have cl: "pool_ok p" "pool_conns p = []" "closed = pool_conns (sys_pool s)"
    using pool_Close_ok assms(2) by (auto simp: pool_sys_inv_def)
  then have "mset (close_conns closed (sys_open s)) = mset (sys_held s)"
    using mset_close_conns assms(2) by (simp add: pool_sys_inv_def)
  then show ?thesis
    using step_close cl assms(2) by (simp add: pool_sys_inv_def distinct_close_conns)
qed

lemma pool_sys_inv_start: "pool_sys_inv pool_start"
  by (simp add: pool_sys_inv_def pool_start_def pool_ok_def NewUDPConnPool_def UDPPoolShards_def
      pool_conns_def list_all_iff shard_ok_def)

lemma pool_sys_inv_run: "pool_step\<^sup>*\<^sup>* pool_start s \<Longrightarrow> pool_sys_inv s"
  by (induction rule: rtranclp_induct) (auto intro: pool_sys_inv_start pool_sys_inv_step)

text \<open>
  C11. Sockets of the pool. In every run of the pool and its clients the sockets in the pool and the
  sockets that clients hold are all different, so no socket is given to two clients; together they are
  exactly the open sockets, so none leaks and none is used after it was closed; no address has more than
  four idle sockets; and a closed pool is empty.
\<close>

theorem pool_sockets:
  assumes "pool_step\<^sup>*\<^sup>* pool_start s"
  shows "distinct (pool_conns (sys_pool s) @ sys_held s) \<and>
    set (sys_open s) = set (pool_conns (sys_pool s)) \<union> set (sys_held s) \<and>
    length (conns_at (up_shards (sys_pool s) ! getShard addr) addr) \<le> 4 \<and>
    (up_closed (sys_pool s) \<longrightarrow> pool_conns (sys_pool s) = [])"
proof -
  have inv: "pool_sys_inv s" by (rule pool_sys_inv_run[OF assms])
  then have m: "mset (pool_conns (sys_pool s) @ sys_held s) = mset (sys_open s)"
    by (simp add: pool_sys_inv_def)
  then have "distinct (pool_conns (sys_pool s) @ sys_held s)"
    using inv unfolding mset_eq_imp_distinct_iff[OF m] pool_sys_inv_def by blast
  moreover have "set (sys_open s) = set (pool_conns (sys_pool s)) \<union> set (sys_held s)"
    using mset_eq_setD[OF m] by auto
  moreover have "length (conns_at (up_shards (sys_pool s) ! getShard addr) addr) \<le> 4"
    using conns_at_short[OF shard_ok_nth] inv by (simp add: pool_sys_inv_def)
  ultimately show ?thesis using inv by (simp add: pool_sys_inv_def pool_ok_def)
qed

lemma example_pool_run:
  "\<exists>s. pool_step\<^sup>*\<^sup>* pool_start s \<and> pool_conns (sys_pool s) = [7] \<and> sys_held s = [] \<and> sys_open s = [7]"
proof -
  let ?s1 = "pool_start\<lparr>sys_held := [7], sys_open := [7]\<rparr>"
  have "pool_Get ''a'' (Some 7) (sys_pool pool_start) = (Some (7, False), sys_pool pool_start)"
    using getShard_less[of "''a''"]
    by (simp add: pool_Get_def conns_at_def pool_start_def NewUDPConnPool_def UDPPoolShards_def)
  then have "pool_step pool_start
      (pool_start\<lparr>sys_pool := sys_pool pool_start, sys_held := 7 # sys_held pool_start,
         sys_open := 7 # sys_open pool_start\<rparr>)"
    by (rule step_dial) (simp add: pool_start_def)
  then have 1: "pool_step pool_start ?s1" by (simp add: pool_start_def)
  obtain p closed where put: "pool_Put ''a'' 0 7 (sys_pool ?s1) = (p, closed)" by fastforce
  have ok: "pool_ok (sys_pool pool_start)" using pool_sys_inv_start by (simp add: pool_sys_inv_def)
  have cl: "closed = []" using put getShard_less[of "''a''"]
    by (auto simp: pool_Put_def conns_at_def pool_start_def NewUDPConnPool_def UDPPoolShards_def
        UDPPoolMaxConnsPerAddr_def split: if_splits)
  have "mset (pool_conns p) + mset closed = mset (pool_conns (sys_pool pool_start)) + {#7#}"
    using pool_Put_ok[OF put] ok by simp
  then have "mset (pool_conns p) = {#7#}"
    using cl by (simp add: pool_start_def NewUDPConnPool_def pool_conns_def)
  then have conns: "pool_conns p = [7]" by simp
  define s2 where "s2 = ?s1\<lparr>sys_pool := p, sys_held := remove1 7 (sys_held ?s1),
      sys_open := close_conns closed (sys_open ?s1)\<rparr>"
  have "pool_step ?s1 s2" unfolding s2_def using put by (intro step_put) simp_all
  with 1 have "pool_step\<^sup>*\<^sup>* pool_start s2" by auto
  moreover have "pool_conns (sys_pool s2) = [7]" "sys_held s2 = []" "sys_open s2 = [7]"
    using conns cl by (simp_all add: s2_def close_conns_def)
  ultimately show ?thesis by blast
qed

theorem pool_sockets_witness:
  "\<exists>s. pool_step\<^sup>*\<^sup>* pool_start s \<and> pool_conns (sys_pool s) = [7] \<and>
     set (sys_open s) = set (pool_conns (sys_pool s)) \<union> set (sys_held s) \<and>
     length (conns_at (up_shards (sys_pool s) ! getShard ''a'') ''a'') \<le> 4"
proof -
  obtain s where s: "pool_step\<^sup>*\<^sup>* pool_start s" "pool_conns (sys_pool s) = [7]"
    using example_pool_run by blast
  show ?thesis using s pool_sockets[OF s(1), of "''a''"] by blast
qed

end
