(* ===== verification/Hpke.thy ===== *)
theory Hpke
  imports Crypto
begin

text \<open>
  Hybrid public key encryption as the proxy uses it (vendored \<^verbatim>\<open>go-hpke-compact/hpke.go\<close>): suites, the key
  schedule in base mode (no pre-shared key, the only mode in use), the client and the server context,
  the nonce sequence and the exporter. HKDF and the AEADs are parameters; X25519 is the one of the
  record \<open>crypto_prims\<close>.
\<close>

section \<open>Suites\<close>

text \<open>
  The fields of a suite are functions of its three identifiers; the hash is SHA-256. \<open>hk_seal\<close> and
  \<open>hk_open\<close> take the identifier of the AEAD, the key, the nonce, the text and the associated data.
\<close>

type_synonym Suite = "16 word \<times> 16 word \<times> 16 word"

record hpke_prims =
  hk_P :: crypto_prims
  hk_extract :: "bytes \<Rightarrow> bytes \<Rightarrow> byte_fun"
  hk_expand :: "bytes \<Rightarrow> bytes \<Rightarrow> byte_fun"
  hk_seal :: "16 word \<Rightarrow> bytes \<Rightarrow> bytes \<Rightarrow> bytes \<Rightarrow> bytes \<Rightarrow> bytes"
  hk_open :: "16 word \<Rightarrow> bytes \<Rightarrow> bytes \<Rightarrow> bytes \<Rightarrow> bytes \<Rightarrow> bytes option"

datatype hpke_error =
    UnimplementedSuite | EntropyError | KemError | ExpandLimit | UnimplementedAead | NilState | OpenError

definition KemX25519HkdfSha256 :: "16 word" where "KemX25519HkdfSha256 = 0x0020"
definition KdfHkdfSha256 :: "16 word" where "KdfHkdfSha256 = 0x0001"
definition AeadAes128Gcm :: "16 word" where "AeadAes128Gcm = 0x0001"
definition AeadAes256Gcm :: "16 word" where "AeadAes256Gcm = 0x0002"
definition AeadChaCha20Poly1305 :: "16 word" where "AeadChaCha20Poly1305 = 0x0003"
definition AeadExportOnly :: "16 word" where "AeadExportOnly = 0xffff"

definition NewSuite :: "16 word \<Rightarrow> 16 word \<Rightarrow> 16 word \<Rightarrow> hpke_error + Suite" where
  "NewSuite kemID kdfID aeadID =
     (if kemID \<noteq> KemX25519HkdfSha256 \<or> kdfID \<noteq> KdfHkdfSha256 then Inl UnimplementedSuite
      else if aeadID \<notin> {AeadAes128Gcm, AeadAes256Gcm, AeadChaCha20Poly1305, AeadExportOnly}
      then Inl UnimplementedSuite
      else Inr (kemID, kdfID, aeadID))"

definition su_AeadID :: "Suite \<Rightarrow> 16 word" where
  "su_AeadID su = snd (snd su)"

definition su_KeyBytes :: "Suite \<Rightarrow> nat" where
  "su_KeyBytes su =
     (if su_AeadID su = AeadAes128Gcm then 16 else if su_AeadID su = AeadExportOnly then 0 else 32)"

definition su_NonceBytes :: "Suite \<Rightarrow> nat" where
  "su_NonceBytes su = (if su_AeadID su = AeadExportOnly then 0 else 12)"

definition su_PrkBytes :: nat where "su_PrkBytes = 32"
definition su_KemHashBytes :: nat where "su_KemHashBytes = 32"

definition getSuiteIDContext :: "Suite \<Rightarrow> bytes" where
  "getSuiteIDContext su =
     (case su of (kemID, kdfID, aeadID) \<Rightarrow>
        str_bytes ''HPKE'' @ put_u16 (unat kemID) @ put_u16 (unat kdfID) @ put_u16 (unat aeadID))"

definition getSuiteIDKEM :: "Suite \<Rightarrow> bytes" where
  "getSuiteIDKEM su = (case su of (kemID, _) \<Rightarrow> str_bytes ''KEM'' @ put_u16 (unat kemID))"

section \<open>Key derivation\<close>

definition hpkeVersion :: bytes where "hpkeVersion = str_bytes ''HPKE-v1''"

definition Suite_Extract :: "hpke_prims \<Rightarrow> bytes \<Rightarrow> bytes \<Rightarrow> bytes" where
  "Suite_Extract H secret salt = arr 32 (hk_extract H secret salt)"

text \<open>The reader of HKDF gives at most 255 blocks of 32 bytes.\<close>

definition Suite_Expand :: "hpke_prims \<Rightarrow> bytes \<Rightarrow> bytes \<Rightarrow> nat \<Rightarrow> hpke_error + bytes" where
  "Suite_Expand H prk info n =
     (if n > 255 * 32 then Inl ExpandLimit else Inr (arr n (hk_expand H prk info)))"

definition labeledExtract :: "hpke_prims \<Rightarrow> bytes \<Rightarrow> bytes \<Rightarrow> string \<Rightarrow> bytes \<Rightarrow> bytes" where
  "labeledExtract H suiteID salt label ikm =
     Suite_Extract H (hpkeVersion @ suiteID @ str_bytes label @ ikm) salt"

definition labeledExpand ::
  "hpke_prims \<Rightarrow> bytes \<Rightarrow> bytes \<Rightarrow> string \<Rightarrow> bytes \<Rightarrow> nat \<Rightarrow> hpke_error + bytes" where
  "labeledExpand H suiteID prk label info n =
     Suite_Expand H prk (put_u16 n @ hpkeVersion @ suiteID @ str_bytes label @ info) n"

section \<open>Contexts\<close>

record aeadState =
  ae_aead :: "16 word"
  ae_key :: bytes
  ae_baseNonce :: bytes
  ae_counter :: bytes

record innerContext =
  ic_suite :: Suite
  ic_exporterSecret :: bytes
  ic_outboundState :: "aeadState option"

text \<open>The constructors of the AEADs refuse a key of the wrong size.\<close>

definition aead_key_ok :: "16 word \<Rightarrow> bytes \<Rightarrow> bool" where
  "aead_key_ok aeadID key \<longleftrightarrow>
     (if aeadID = AeadChaCha20Poly1305 then length key = 32 else length key \<in> {16, 24, 32})"

definition newAeadState :: "Suite \<Rightarrow> bytes \<Rightarrow> bytes \<Rightarrow> hpke_error + aeadState" where
  "newAeadState su key baseNonce =
     (if su_AeadID su \<notin> {AeadAes128Gcm, AeadAes256Gcm, AeadChaCha20Poly1305} \<or>
         \<not> aead_key_ok (su_AeadID su) key
      then Inl UnimplementedAead
      else Inr \<lparr>ae_aead = su_AeadID su, ae_key = key, ae_baseNonce = baseNonce,
                ae_counter = replicate (su_NonceBytes su) 0\<rparr>)"

definition outbound_state ::
  "hpke_prims \<Rightarrow> Suite \<Rightarrow> bytes \<Rightarrow> bytes \<Rightarrow> hpke_error + aeadState option" where
  "outbound_state H su secret ksc =
     (if su_AeadID su = AeadExportOnly then Inr None
      else case labeledExpand H (getSuiteIDContext su) secret ''key'' ksc (su_KeyBytes su) of
             Inl e \<Rightarrow> Inl e
           | Inr outboundKey \<Rightarrow>
               (case labeledExpand H (getSuiteIDContext su) secret ''base_nonce'' ksc (su_NonceBytes su) of
                  Inl e \<Rightarrow> Inl e
                | Inr outboundBaseNonce \<Rightarrow>
                    (case newAeadState su outboundKey outboundBaseNonce of
                       Inl e \<Rightarrow> Inl e | Inr st \<Rightarrow> Inr (Some st))))"

definition keySchedule :: "hpke_prims \<Rightarrow> Suite \<Rightarrow> bytes \<Rightarrow> bytes \<Rightarrow> hpke_error + innerContext" where
  "keySchedule H su dhSecret info =
     (let ctx = getSuiteIDContext su;
          pskIDHash = labeledExtract H ctx [] ''psk_id_hash'' [];
          infoHash = labeledExtract H ctx [] ''info_hash'' info;
          keyScheduleContext = [0x00] @ pskIDHash @ infoHash;
          secret = labeledExtract H ctx dhSecret ''secret'' []
      in case labeledExpand H ctx secret ''exp'' keyScheduleContext su_PrkBytes of
           Inl e \<Rightarrow> Inl e
         | Inr exporterSecret \<Rightarrow>
             (case outbound_state H su secret keyScheduleContext of
                Inl e \<Rightarrow> Inl e
              | Inr outboundState \<Rightarrow>
                  Inr \<lparr>ic_suite = su, ic_exporterSecret = exporterSecret,
                       ic_outboundState = outboundState\<rparr>))"

definition export :: "hpke_prims \<Rightarrow> innerContext \<Rightarrow> bytes \<Rightarrow> nat \<Rightarrow> hpke_error + bytes" where
  "export H inner exporterContext n =
     labeledExpand H (getSuiteIDContext (ic_suite inner)) (ic_exporterSecret inner) ''sec''
       exporterContext n"

section \<open>Key encapsulation\<close>

definition GenerateKeyPair :: "hpke_prims \<Rightarrow> byte_fun option \<Rightarrow> hpke_error + (bytes \<times> bytes)" where
  "GenerateKeyPair H r =
     (case r of
        None \<Rightarrow> Inl EntropyError
      | Some f \<Rightarrow> Inr (ScalarBaseMult (hk_P H) (arr 32 f), arr 32 f))"

definition Suite_dh :: "hpke_prims \<Rightarrow> bytes \<Rightarrow> bytes \<Rightarrow> hpke_error + bytes" where
  "Suite_dh H pk sk =
     (if length sk \<noteq> 32 \<or> length pk \<noteq> 32 then Inl KemError
      else case cp_x25519 (hk_P H) sk pk of None \<Rightarrow> Inl KemError | Some f \<Rightarrow> Inr (arr 32 f))"

definition extractAndExpandDH :: "hpke_prims \<Rightarrow> Suite \<Rightarrow> bytes \<Rightarrow> bytes \<Rightarrow> hpke_error + bytes" where
  "extractAndExpandDH H su dh kemContext =
     labeledExpand H (getSuiteIDKEM su) (labeledExtract H (getSuiteIDKEM su) [] ''eae_prk'' dh)
       ''shared_secret'' kemContext su_KemHashBytes"

definition encap :: "hpke_prims \<Rightarrow> byte_fun option \<Rightarrow> Suite \<Rightarrow> bytes \<Rightarrow> hpke_error + (bytes \<times> bytes)" where
  "encap H r su serverPk =
     (case GenerateKeyPair H r of
        Inl e \<Rightarrow> Inl e
      | Inr (ephPk, ephSk) \<Rightarrow>
          (case Suite_dh H serverPk ephSk of
             Inl e \<Rightarrow> Inl e
           | Inr dh \<Rightarrow>
               (case extractAndExpandDH H su dh (ephPk @ serverPk) of
                  Inl e \<Rightarrow> Inl e | Inr dhSecret \<Rightarrow> Inr (dhSecret, ephPk))))"

definition decap :: "hpke_prims \<Rightarrow> Suite \<Rightarrow> bytes \<Rightarrow> bytes \<Rightarrow> bytes \<Rightarrow> hpke_error + bytes" where
  "decap H su ephPk serverPk serverSk =
     (case Suite_dh H ephPk serverSk of
        Inl e \<Rightarrow> Inl e
      | Inr dh \<Rightarrow> extractAndExpandDH H su dh (ephPk @ serverPk))"

definition NewClientContext ::
  "hpke_prims \<Rightarrow> byte_fun option \<Rightarrow> Suite \<Rightarrow> bytes \<Rightarrow> bytes \<Rightarrow> hpke_error + (innerContext \<times> bytes)" where
  "NewClientContext H r su serverPk info =
     (case encap H r su serverPk of
        Inl e \<Rightarrow> Inl e
      | Inr (dhSecret, enc) \<Rightarrow>
          (case keySchedule H su dhSecret info of Inl e \<Rightarrow> Inl e | Inr ctx \<Rightarrow> Inr (ctx, enc)))"

definition NewServerContext ::
  "hpke_prims \<Rightarrow> Suite \<Rightarrow> bytes \<Rightarrow> bytes \<Rightarrow> bytes \<Rightarrow> bytes \<Rightarrow> hpke_error + innerContext" where
  "NewServerContext H su enc serverPk serverSk info =
     (case decap H su enc serverPk serverSk of
        Inl e \<Rightarrow> Inl e
      | Inr dhSecret \<Rightarrow> keySchedule H su dhSecret info)"

section \<open>Messages\<close>

text \<open>The counter is incremented from its last byte on; an overflow leaves it at zero.\<close>

definition incrementCounter :: "bytes \<Rightarrow> bytes" where
  "incrementCounter counter =
     fst (foldr (\<lambda>b (out, carry). let x = unat b + carry in (of_nat (x mod 256) # out, x div 256))
            counter ([], 1))"

definition NextNonce :: "aeadState \<Rightarrow> bytes \<times> aeadState" where
  "NextNonce st =
     (map2 (XOR) (ae_baseNonce st) (ae_counter st), st\<lparr>ae_counter := incrementCounter (ae_counter st)\<rparr>)"

text \<open>Without an outbound state (a suite that only exports) the call dereferences a nil pointer.\<close>

definition EncryptToServer :: "hpke_prims \<Rightarrow> innerContext \<Rightarrow> bytes \<Rightarrow> bytes \<Rightarrow> hpke_error + (bytes \<times> innerContext)" where
  "EncryptToServer H ctx message ad =
     (case ic_outboundState ctx of
        None \<Rightarrow> Inl NilState
      | Some st \<Rightarrow>
          (case NextNonce st of
             (nonce, st') \<Rightarrow> Inr (hk_seal H (ae_aead st) (ae_key st) nonce message ad,
                                 ctx\<lparr>ic_outboundState := Some st'\<rparr>)))"

definition DecryptFromClient :: "hpke_prims \<Rightarrow> innerContext \<Rightarrow> bytes \<Rightarrow> bytes \<Rightarrow> hpke_error + bytes" where
  "DecryptFromClient H ctx ciphertext ad =
     (case ic_outboundState ctx of
        None \<Rightarrow> Inl NilState
      | Some st \<Rightarrow>
          (case hk_open H (ae_aead st) (ae_key st) (fst (NextNonce st)) ciphertext ad of
             None \<Rightarrow> Inl OpenError | Some m \<Rightarrow> Inr m))"

definition NewRawCipher :: "Suite \<Rightarrow> bytes \<Rightarrow> hpke_error + (16 word \<times> bytes)" where
  "NewRawCipher su key =
     (if su_AeadID su \<notin> {AeadAes128Gcm, AeadAes256Gcm, AeadChaCha20Poly1305} \<or>
         \<not> aead_key_ok (su_AeadID su) key
      then Inl UnimplementedAead else Inr (su_AeadID su, key))"

section \<open>Both sides agree\<close>

lemma Suite_Expand_Inr [simp]: "n \<le> 8160 \<Longrightarrow> Suite_Expand H prk info n = Inr (arr n (hk_expand H prk info))"
  by (simp add: Suite_Expand_def)

lemma ScalarBaseMult_length [simp]: "length (ScalarBaseMult P sk) = 32"
  by (simp add: ScalarBaseMult_def)

lemma Suite_dh_commute:
  assumes "dh_correct (hk_P H)" "length a = 32" "length b = 32"
  shows "Suite_dh H (ScalarBaseMult (hk_P H) a) b = Suite_dh H (ScalarBaseMult (hk_P H) b) a"
proof -
  have "map_option (arr 32) (cp_x25519 (hk_P H) b (ScalarBaseMult (hk_P H) a)) =
      map_option (arr 32) (cp_x25519 (hk_P H) a (ScalarBaseMult (hk_P H) b))"
    using assms unfolding dh_correct_def by simp
  then show ?thesis
    using assms(2,3)
    by (cases "cp_x25519 (hk_P H) b (ScalarBaseMult (hk_P H) a)";
        cases "cp_x25519 (hk_P H) a (ScalarBaseMult (hk_P H) b)") (simp_all add: Suite_dh_def)
qed

lemma decap_encap:
  assumes "dh_correct (hk_P H)" "length sk = 32"
    and "encap H r su (ScalarBaseMult (hk_P H) sk) = Inr (dhSecret, enc)"
  shows "decap H su enc (ScalarBaseMult (hk_P H) sk) sk = Inr dhSecret \<and> length enc = 32"
proof -
  obtain f where f: "r = Some f" "enc = ScalarBaseMult (hk_P H) (arr 32 f)"
    using assms(3) by (auto simp: encap_def GenerateKeyPair_def split: option.splits sum.splits)
  have "Suite_dh H (ScalarBaseMult (hk_P H) sk) (arr 32 f) = Suite_dh H enc sk"
    using Suite_dh_commute[OF assms(1,2)] f by simp
  then show ?thesis
    using assms(3) f
    by (auto simp: encap_def decap_def GenerateKeyPair_def split: sum.splits)
qed

lemma contexts_agree:
  assumes "dh_correct (hk_P H)" "length sk = 32"
    and "NewClientContext H r su (ScalarBaseMult (hk_P H) sk) info = Inr (ctx, enc)"
  shows "NewServerContext H su enc (ScalarBaseMult (hk_P H) sk) sk info = Inr ctx \<and> length enc = 32"
proof -
  obtain d where d: "encap H r su (ScalarBaseMult (hk_P H) sk) = Inr (d, enc)"
    and k: "keySchedule H su d info = Inr ctx"
    using assms(3) by (auto simp: NewClientContext_def split: sum.splits)
  show ?thesis using decap_encap[OF assms(1,2) d] k by (simp add: NewServerContext_def)
qed

text \<open>An AEAD: what was sealed opens, and a box is 16 bytes longer than its text.\<close>

definition aead_correct :: "hpke_prims \<Rightarrow> bool" where
  "aead_correct H \<longleftrightarrow> (\<forall>a key nonce m ad.
     hk_open H a key nonce (hk_seal H a key nonce m ad) ad = Some m \<and>
     length (hk_seal H a key nonce m ad) = length m + 16)"

lemma DecryptFromClient_Encrypt:
  assumes "aead_correct H" "EncryptToServer H ctx m ad = Inr (ct, ctx')"
  shows "DecryptFromClient H ctx ct ad = Inr m" "length ct = length m + 16"
    "ic_suite ctx' = ic_suite ctx" "ic_exporterSecret ctx' = ic_exporterSecret ctx"
  using assms
  by (auto simp: EncryptToServer_def DecryptFromClient_def aead_correct_def NextNonce_def
      split: option.splits)

lemma keySchedule_suite: "keySchedule H su d info = Inr ctx \<Longrightarrow> ic_suite ctx = su"
  by (auto simp: keySchedule_def Let_def split: sum.splits)

lemma NewClientContext_suite: "NewClientContext H r su pk info = Inr (ctx, enc) \<Longrightarrow> ic_suite ctx = su"
  by (auto simp: NewClientContext_def split: sum.splits dest: keySchedule_suite)

lemma keySchedule_state:
  assumes "keySchedule H su d info = Inr ctx"
  shows "ic_outboundState ctx = None \<longleftrightarrow> su_AeadID su = AeadExportOnly"
  using assms
  by (auto simp: keySchedule_def outbound_state_def Let_def split: sum.splits if_splits)

end
