(* ===== verification/ODoH.thy ===== *)
theory ODoH
  imports Hpke
begin

text \<open>
  Oblivious DoH (\<^verbatim>\<open>dnscrypt-proxy/oblivious_doh.go\<close>): the configurations that a target publishes, the
  encryption of a query and the decryption of a response. The target itself is not part of the program:
  \<open>target_open\<close> and \<open>target_respond\<close> say what a target does with a message (RFC 9230), and the
  properties relate the proxy to it.
\<close>

section \<open>Configurations\<close>

datatype odoh_error =
    MalformedConfig | NoConfigs | MalformedConfigs | MalformedResponse | SliceOutOfRange
  | HpkeFailed hpke_error

definition odohVersion :: nat where "odohVersion = 0x0001"
definition odohTestVersion :: nat where "odohTestVersion = 0xff06"
definition maxODoHConfigs :: nat where "maxODoHConfigs = 10"

definition encodeLengthValue :: "bytes \<Rightarrow> bytes" where
  "encodeLengthValue b = put_u16 (length b mod 65536) @ b"

text \<open>The randomness is that of the client context made to try the key.\<close>

definition parseODoHTargetConfig ::
  "hpke_prims \<Rightarrow> byte_fun option \<Rightarrow> bytes \<Rightarrow> odoh_error + ODoHTargetConfig" where
  "parseODoHTargetConfig H r config =
     (if length config < 8 then Inl MalformedConfig
      else let kemID = of_nat (be_val (go_slice config 0 2));
               kdfID = of_nat (be_val (go_slice config 2 4));
               aeadID = of_nat (be_val (go_slice config 4 6));
               publicKeyLength = be_val (go_slice config 6 8);
               publicKey = drop 8 config
           in if length publicKey \<noteq> publicKeyLength then Inl MalformedConfig
              else case NewSuite kemID kdfID aeadID of
                     Inl e \<Rightarrow> Inl (HpkeFailed e)
                   | Inr suite \<Rightarrow>
                       (case NewClientContext H r suite publicKey (str_bytes ''odoh query'') of
                          Inl e \<Rightarrow> Inl (HpkeFailed e)
                        | Inr _ \<Rightarrow>
                            (case Suite_Expand H (Suite_Extract H config []) (str_bytes ''odoh key id'') 32 of
                               Inl e \<Rightarrow> Inl (HpkeFailed e)
                             | Inr keyID \<Rightarrow>
                                 Inr \<lparr>odoh_suite = suite, odoh_keyID = encodeLengthValue keyID,
                                      odoh_publicKey = publicKey\<rparr>)))"

text \<open>
  The loop over the configurations. Every iteration consumes at least four bytes, so as many iterations
  as there are bytes are enough.
\<close>

primrec configs_loop ::
  "nat \<Rightarrow> hpke_prims \<Rightarrow> (nat \<Rightarrow> byte_fun option) \<Rightarrow> bytes \<Rightarrow> nat \<Rightarrow> ODoHTargetConfig list \<Rightarrow>
   ODoHTargetConfig list" where
  "configs_loop 0 H rs configs offset targets = targets"
| "configs_loop (Suc fuel) H rs configs offset targets =
     (if offset + 4 > length configs \<or> length targets \<ge> maxODoHConfigs then targets
      else let configVersion = be_val (go_slice configs offset (offset + 2));
               configLength = be_val (go_slice configs (offset + 2) (offset + 4))
           in if offset + 4 + configLength > length configs then targets
              else let targets' =
                     (if configVersion = odohVersion \<or> configVersion = odohTestVersion
                      then case parseODoHTargetConfig H (rs offset)
                                  (go_slice configs (offset + 4) (offset + 4 + configLength)) of
                             Inl _ \<Rightarrow> targets
                           | Inr target \<Rightarrow> targets @ [target]
                      else targets)
                   in configs_loop fuel H rs configs (offset + configLength + 4) targets')"

definition parseODoHTargetConfigs ::
  "hpke_prims \<Rightarrow> (nat \<Rightarrow> byte_fun option) \<Rightarrow> bytes \<Rightarrow> odoh_error + ODoHTargetConfig list" where
  "parseODoHTargetConfigs H rs configs =
     (if length configs \<le> 2 then Inl NoConfigs
      else if length configs \<noteq> be_val (go_slice configs 0 2) + 2 then Inl MalformedConfigs
      else Inr (configs_loop (length configs) H rs configs 2 []))"

section \<open>Queries and responses\<close>

record ODoHQuery =
  oq_suite :: Suite
  oq_ctx :: innerContext
  oq_odohPlaintext :: bytes
  oq_odohMessage :: bytes

definition encryptQuery ::
  "hpke_prims \<Rightarrow> byte_fun option \<Rightarrow> ODoHTargetConfig \<Rightarrow> bytes \<Rightarrow> odoh_error + ODoHQuery" where
  "encryptQuery H r t query =
     (case NewClientContext H r (odoh_suite t) (odoh_publicKey t) (str_bytes ''odoh query'') of
        Inl e \<Rightarrow> Inl (HpkeFailed e)
      | Inr (clientCtx, encryptedSharedSecret) \<Rightarrow>
          (let odohPlaintext = put_u16 (length query mod 65536) @ query @ [0, 0];
               aad = [0x01] @ odoh_keyID t
           in case EncryptToServer H clientCtx odohPlaintext aad of
                Inl e \<Rightarrow> Inl (HpkeFailed e)
              | Inr (ciphertext, clientCtx') \<Rightarrow>
                  Inr \<lparr>oq_suite = odoh_suite t, oq_ctx = clientCtx', oq_odohPlaintext = odohPlaintext,
                       oq_odohMessage = [0x01] @ odoh_keyID t @
                         encodeLengthValue (encryptedSharedSecret @ ciphertext)\<rparr>))"

text \<open>The key and the nonce of a response, from the exporter of the context and the nonce of the target.\<close>

definition response_keys ::
  "hpke_prims \<Rightarrow> Suite \<Rightarrow> innerContext \<Rightarrow> bytes \<Rightarrow> bytes \<Rightarrow> hpke_error + (bytes \<times> bytes)" where
  "response_keys H suite ctx odohPlaintext responseNonceEnc =
     (case export H ctx (str_bytes ''odoh response'') (su_KeyBytes suite) of
        Inl e \<Rightarrow> Inl e
      | Inr secret \<Rightarrow>
          (let prk = Suite_Extract H secret (odohPlaintext @ responseNonceEnc)
           in case Suite_Expand H prk (str_bytes ''odoh key'') (su_KeyBytes suite) of
                Inl e \<Rightarrow> Inl e
              | Inr key \<Rightarrow>
                  (case Suite_Expand H prk (str_bytes ''odoh nonce'') (su_NonceBytes suite) of
                     Inl e \<Rightarrow> Inl e | Inr nonce \<Rightarrow> Inr (key, nonce))))"

definition strip_padding :: "bytes \<Rightarrow> odoh_error + bytes" where
  "strip_padding responsePlaintext =
     (if length responsePlaintext < 2 then Inl MalformedResponse
      else let responseLength = be_val (go_slice responsePlaintext 0 2);
               paddingOffset = 2 + responseLength
           in if paddingOffset + 2 > length responsePlaintext then Inl MalformedResponse
              else let paddingLength = be_val (go_slice responsePlaintext paddingOffset (paddingOffset + 2))
                   in if paddingOffset + 2 + paddingLength \<noteq> length responsePlaintext
                      then Inl MalformedResponse
                      else if \<not> list_all (\<lambda>b. b = 0) (drop (paddingOffset + 2) responsePlaintext)
                      then Inl MalformedResponse
                      else Inr (go_slice responsePlaintext 2 (2 + responseLength)))"

text \<open>
  The upper bound of the slice \<^verbatim>\<open>response[1 : 3+responseNonceLength]\<close> is a \<^verbatim>\<open>uint16\<close>, so it wraps around.
\<close>

definition response_nonce :: "bytes \<Rightarrow> nat \<Rightarrow> bytes option" where
  "response_nonce response responseNonceLength =
     go_slice_opt response 1 ((3 + responseNonceLength) mod 65536)"

definition decryptResponse :: "hpke_prims \<Rightarrow> ODoHQuery \<Rightarrow> bytes \<Rightarrow> odoh_error + bytes" where
  "decryptResponse H q response =
     (if length response < 3 \<or> hd response \<noteq> 0x02 then Inl MalformedResponse
      else let n = be_val (go_slice response 1 3)
           in if length response < 5 + n then Inl MalformedResponse
              else case response_nonce response n of
                     None \<Rightarrow> Inl SliceOutOfRange
                   | Some responseNonceEnc \<Rightarrow>
                       (case response_keys H (oq_suite q) (oq_ctx q) (oq_odohPlaintext q) responseNonceEnc of
                          Inl e \<Rightarrow> Inl (HpkeFailed e)
                        | Inr (key, nonce) \<Rightarrow>
                            (case NewRawCipher (oq_suite q) key of
                               Inl e \<Rightarrow> Inl (HpkeFailed e)
                             | Inr (aid, k) \<Rightarrow>
                                 (let ctLength = be_val (go_slice response (3 + n) (5 + n));
                                      ct = drop (5 + n) response
                                  in if ctLength \<noteq> length ct then Inl MalformedResponse
                                     else case hk_open H aid k nonce ct (take (3 + n) response) of
                                            None \<Rightarrow> Inl (HpkeFailed OpenError)
                                          | Some plain \<Rightarrow> strip_padding plain))))"

section \<open>The target\<close>

text \<open>
  A target with the key pair of \<open>sk\<close> reads the message type, its key identifier, the length and the
  encapsulated key with the ciphertext, and opens it.
\<close>

definition target_open ::
  "hpke_prims \<Rightarrow> ODoHTargetConfig \<Rightarrow> bytes \<Rightarrow> bytes \<Rightarrow> (innerContext \<times> bytes) option" where
  "target_open H t sk message =
     (let header = [0x01] @ odoh_keyID t;
          body = drop (length header) message;
          box = drop 2 body
      in if take (length header) message \<noteq> header \<or> length body < 2 \<or>
            be_val (take 2 body) \<noteq> length box \<or> length box < 32 then None
         else case NewServerContext H (odoh_suite t) (take 32 box) (odoh_publicKey t) sk
                     (str_bytes ''odoh query'') of
                Inl _ \<Rightarrow> None
              | Inr ctx \<Rightarrow>
                  (case DecryptFromClient H ctx (drop 32 box) header of
                     Inl _ \<Rightarrow> None | Inr plain \<Rightarrow> Some (ctx, plain)))"

definition target_respond ::
  "hpke_prims \<Rightarrow> ODoHTargetConfig \<Rightarrow> innerContext \<Rightarrow> bytes \<Rightarrow> bytes \<Rightarrow> nat \<Rightarrow> bytes \<Rightarrow> bytes option" where
  "target_respond H t ctx queryPlaintext responseNonce padding answer =
     (let nonceEnc = encodeLengthValue responseNonce;
          aad = [0x02] @ nonceEnc
      in case response_keys H (odoh_suite t) ctx queryPlaintext nonceEnc of
           Inl _ \<Rightarrow> None
         | Inr (key, nonce) \<Rightarrow>
             Some (aad @ encodeLengthValue (hk_seal H (su_AeadID (odoh_suite t)) key nonce
                (encodeLengthValue answer @ encodeLengthValue (replicate padding 0)) aad)))"

section \<open>Parsing\<close>

lemma configs_loop_fuel:
  assumes "length configs \<le> offset + fuel" "fuel \<le> fuel'"
  shows "configs_loop fuel' H rs configs offset targets = configs_loop fuel H rs configs offset targets"
  using assms
proof (induction fuel arbitrary: fuel' offset targets)
  case 0
  then show ?case by (cases fuel') auto
next
  case (Suc fuel)
  then obtain k where k: "fuel' = Suc k" "fuel \<le> k" by (cases fuel') auto
  have "configs_loop k H rs configs (offset + n + 4) ts = configs_loop fuel H rs configs (offset + n + 4) ts"
    for n ts
    using Suc.prems k by (intro Suc.IH) auto
  then show ?case by (simp add: k Let_def)
qed

lemma configs_loop_bound:
  "length targets \<le> 10 \<Longrightarrow> length (configs_loop fuel H rs configs offset targets) \<le> 10"
  by (induction fuel arbitrary: offset targets)
     (auto simp: Let_def maxODoHConfigs_def split: sum.splits)

section \<open>Round trips\<close>

lemma be_val_u16_mod [simp]: "be_val (put_u16 (n mod 65536)) = n mod 65536"
  by (intro be_val_put_u16) simp

lemma encodeLengthValue_small: "length b < 65536 \<Longrightarrow> encodeLengthValue b = put_u16 (length b) @ b"
  by (simp add: encodeLengthValue_def)

lemma response_keys_length:
  "response_keys H su ctx p e = Inr (key, nonce) \<Longrightarrow> length key = su_KeyBytes su"
  by (auto simp: response_keys_def Let_def Suite_Expand_def split: sum.splits if_splits)

lemma response_keys_Inr:
  "\<exists>key nonce. response_keys H su ctx p e = Inr (key, nonce)"
proof -
  have "su_KeyBytes su \<le> 8160" "su_NonceBytes su \<le> 8160"
    by (auto simp: su_KeyBytes_def su_NonceBytes_def)
  then show ?thesis by (simp add: response_keys_def Let_def export_def labeledExpand_def)
qed

lemma strip_padding_encode:
  assumes "length answer < 65536" "padding < 65536"
  shows "strip_padding (encodeLengthValue answer @ encodeLengthValue (replicate padding 0)) = Inr answer"
proof -
  let ?a = "put_u16 (length answer)" and ?z = "put_u16 padding"
  let ?p = "?a @ answer @ ?z @ replicate padding (0 :: byte)"
  have e: "encodeLengthValue answer @ encodeLengthValue (replicate padding 0) = ?p"
    using assms by (simp add: encodeLengthValue_small)
  have 1: "be_val (go_slice ?p 0 2) = length answer"
    using assms(1) by (simp add: go_slice_keep go_slice_all)
  have 2: "go_slice ?p (2 + length answer) (2 + length answer + 2) = ?z"
    using go_slice_mid[of "?a @ answer" "2 + length answer" "2 + length answer + 2" ?z] by simp
  have 3: "go_slice ?p 2 (2 + length answer) = answer"
    using go_slice_mid[of ?a 2 "2 + length answer" answer] by simp
  have 4: "drop (2 + length answer + 2) ?p = replicate padding 0" by simp
  show ?thesis
    unfolding e strip_padding_def Let_def 1 2 3 4 using assms(2) by (simp add: list_all_iff)
qed

lemma NewRawCipher_ok:
  assumes "su_AeadID su \<in> {AeadAes128Gcm, AeadAes256Gcm, AeadChaCha20Poly1305}" "length key = su_KeyBytes su"
  shows "NewRawCipher su key = Inr (su_AeadID su, key)"
  using assms
  by (auto simp: NewRawCipher_def aead_key_ok_def su_KeyBytes_def AeadAes128Gcm_def AeadAes256Gcm_def
      AeadChaCha20Poly1305_def AeadExportOnly_def)

lemma response_roundtrip:
  assumes "aead_correct H" "su_AeadID (odoh_suite t) \<in> {AeadAes128Gcm, AeadAes256Gcm, AeadChaCha20Poly1305}"
    and q: "oq_suite q = odoh_suite t" "oq_odohPlaintext q = plain"
      "export H (oq_ctx q) = export H ctx"
    and n: "length nonce \<le> 65532" and len: "length answer + padding \<le> 65000"
  shows "\<exists>response. target_respond H t ctx plain nonce padding answer = Some response \<and>
    decryptResponse H q response = Inr answer"
proof -
  let ?ne = "encodeLengthValue nonce"
  let ?text = "encodeLengthValue answer @ encodeLengthValue (replicate padding 0)"
  obtain key rn where k: "response_keys H (odoh_suite t) ctx plain ?ne = Inr (key, rn)"
    using response_keys_Inr by blast
  define ct where "ct = hk_seal H (su_AeadID (odoh_suite t)) key rn ?text ([2] @ ?ne)"
  define response where "response = [2] @ ?ne @ put_u16 (length ct) @ ct"
  have ct: "length ct < 65536" "hk_open H (su_AeadID (odoh_suite t)) key rn ct ([2] @ ?ne) = Some ?text"
    using assms(1) len by (auto simp: aead_correct_def ct_def encodeLengthValue_def)
  have t: "target_respond H t ctx plain nonce padding answer = Some response"
    unfolding target_respond_def Let_def k sum.case prod.case ct_def[symmetric]
      encodeLengthValue_small[OF ct(1)] response_def by simp
  have ne: "?ne = put_u16 (length nonce) @ nonce" using n by (simp add: encodeLengthValue_small)
  have s1: "be_val (go_slice response 1 3) = length nonce"
    using go_slice_mid[of "[2]" 1 3 "put_u16 (length nonce)"] n
    by (simp add: response_def ne)
  have s2: "response_nonce response (length nonce) = Some ?ne"
    using go_slice_mid[of "[2]" 1 "3 + length nonce" ?ne] n
    by (simp add: response_nonce_def go_slice_opt_def response_def ne)
  have s3: "go_slice response (3 + length nonce) (5 + length nonce) = put_u16 (length ct)"
    using go_slice_mid[of "[2] @ ?ne" "3 + length nonce" "5 + length nonce" "put_u16 (length ct)"]
    by (simp add: response_def ne)
  have h: "3 + length nonce = length ([2] @ ?ne)" "5 + length nonce = length ([2] @ ?ne @ put_u16 (length ct))"
    by (simp_all add: ne)
  have s4: "drop (5 + length nonce) response = ct" "take (3 + length nonce) response = [2] @ ?ne"
    unfolding h response_def by simp_all
  have s5: "\<not> (length response < 3 \<or> hd response \<noteq> 2)" "\<not> length response < 5 + length nonce"
    by (simp_all add: response_def ne)
  have keys: "response_keys H (oq_suite q) (oq_ctx q) (oq_odohPlaintext q) ?ne = Inr (key, rn)"
    using k q by (simp add: response_keys_def)
  have raw: "NewRawCipher (oq_suite q) key = Inr (su_AeadID (odoh_suite t), key)"
    using NewRawCipher_ok[OF assms(2) response_keys_length[OF k]] q(1) by simp
  have "decryptResponse H q response = Inr answer"
    unfolding decryptResponse_def Let_def s1 s3 s4 if_not_P[OF s5(1)] if_not_P[OF s5(2)] s2 option.case keys
      sum.case prod.case raw ct(2)
    using ct(1) strip_padding_encode[of answer padding] len by simp
  with t show ?thesis by blast
qed

lemma encryptQuery_Inr:
  assumes "encryptQuery H r t query = Inr q"
  obtains ctx enc ct ctx' where
    "NewClientContext H r (odoh_suite t) (odoh_publicKey t) (str_bytes ''odoh query'') = Inr (ctx, enc)"
    "EncryptToServer H ctx (oq_odohPlaintext q) ([1] @ odoh_keyID t) = Inr (ct, ctx')"
    "oq_odohPlaintext q = put_u16 (length query mod 65536) @ query @ [0, 0]"
    "oq_odohMessage q = [1] @ odoh_keyID t @ encodeLengthValue (enc @ ct)"
    "oq_suite q = odoh_suite t" "oq_ctx q = ctx'"
  using assms by (auto simp: encryptQuery_def Let_def split: sum.splits)

lemma export_cong:
  "ic_suite c = ic_suite d \<Longrightarrow> ic_exporterSecret c = ic_exporterSecret d \<Longrightarrow> export H c = export H d"
  by (auto simp: export_def fun_eq_iff)

lemma client_context_state:
  "NewClientContext H r su pk info = Inr (ctx, enc) \<Longrightarrow>
     (ic_outboundState ctx = None) = (su_AeadID su = AeadExportOnly)"
  using keySchedule_state[of H su] by (auto simp: NewClientContext_def split: sum.splits)

lemma encrypt_not_export_only:
  assumes "NewClientContext H r su pk info = Inr (ctx, enc)" "EncryptToServer H ctx m ad = Inr x"
  shows "su_AeadID su \<noteq> AeadExportOnly"
  using assms(2) client_context_state[OF assms(1)] by (auto simp: EncryptToServer_def split: option.splits)

lemma NewSuite_aead:
  "NewSuite a b c = Inr su \<Longrightarrow> su_AeadID su \<noteq> AeadExportOnly \<Longrightarrow>
     su_AeadID su \<in> {AeadAes128Gcm, AeadAes256Gcm, AeadChaCha20Poly1305}"
  by (auto simp: NewSuite_def su_AeadID_def split: if_splits)

lemma target_open_box:
  assumes "message = ([1] @ odoh_keyID t) @ put_u16 (length (enc @ ct)) @ enc @ ct"
    and "length (enc @ ct) < 65536" "length enc = 32"
    and "NewServerContext H (odoh_suite t) enc (odoh_publicKey t) sk (str_bytes ''odoh query'') = Inr ctx"
    and "DecryptFromClient H ctx ct ([1] @ odoh_keyID t) = Inr plain"
  shows "target_open H t sk message = Some (ctx, plain)"
proof -
  let ?h = "[1] @ odoh_keyID t"
  have 1: "take (length ?h) message = ?h" "drop (length ?h) message = put_u16 (length (enc @ ct)) @ enc @ ct"
    unfolding assms(1) by (simp_all only: append_eq_conv_conj[symmetric] take_append drop_append) simp_all
  have 2: "take 2 (put_u16 (length (enc @ ct)) @ enc @ ct) = put_u16 (length (enc @ ct))"
    "drop 2 (put_u16 (length (enc @ ct)) @ enc @ ct) = enc @ ct"
    "take 32 (enc @ ct) = enc" "drop 32 (enc @ ct) = ct"
    using assms(3) by simp_all
  show ?thesis
    unfolding target_open_def Let_def 1 2 assms(4) sum.case assms(5) be_val_put_u16[OF assms(2)]
    using assms(3) by simp
qed

text \<open>
  C10. An oblivious exchange. A query that \<open>encryptQuery\<close> seals is recovered by the target that owns the key
  (behind its length, with two bytes of empty padding), and whatever that target answers, with any
  nonce of up to 65532 bytes and any padding, \<open>decryptResponse\<close> returns the answer.
\<close>

theorem odoh_exchange:
  assumes "dh_correct (hk_P H)" "aead_correct H" "length sk = 32"
    and t: "odoh_publicKey t = ScalarBaseMult (hk_P H) sk" "NewSuite kemID kdfID aeadID = Inr (odoh_suite t)"
    and q: "encryptQuery H r t query = Inr q" "length query \<le> MaxDNSPacketSize"
    and n: "length nonce \<le> 65532" "length answer + padding \<le> 65000"
  shows "\<exists>ctx response.
    target_open H t sk (oq_odohMessage q) = Some (ctx, put_u16 (length query) @ query @ [0, 0]) \<and>
    target_respond H t ctx (put_u16 (length query) @ query @ [0, 0]) nonce padding answer = Some response \<and>
    decryptResponse H q response = Inr answer"
proof -
  obtain ctx enc ct ctx' where
    c: "NewClientContext H r (odoh_suite t) (odoh_publicKey t) (str_bytes ''odoh query'') = Inr (ctx, enc)"
    and e: "EncryptToServer H ctx (oq_odohPlaintext q) ([1] @ odoh_keyID t) = Inr (ct, ctx')"
    and f: "oq_odohPlaintext q = put_u16 (length query mod 65536) @ query @ [0, 0]"
      "oq_odohMessage q = [1] @ odoh_keyID t @ encodeLengthValue (enc @ ct)"
      "oq_suite q = odoh_suite t" "oq_ctx q = ctx'"
    using q(1) by (rule encryptQuery_Inr)
  have ql: "length query < 65536" using q(2) by (simp add: MaxDNSPacketSize_def)
  have plain: "oq_odohPlaintext q = put_u16 (length query) @ query @ [0, 0]" using f(1) ql by simp
  have s: "NewServerContext H (odoh_suite t) enc (odoh_publicKey t) sk (str_bytes ''odoh query'') = Inr ctx"
    and el: "length enc = 32"
    using contexts_agree[OF assms(1,3) c[unfolded t(1)]] unfolding t(1) by simp_all
  note d = DecryptFromClient_Encrypt[OF assms(2) e]
  have ctl: "length ct = length query + 20" using d(2) plain by simp
  have bl: "length (enc @ ct) < 65536" using ctl el q(2) by (simp add: MaxDNSPacketSize_def)
  have msg: "oq_odohMessage q = ([1] @ odoh_keyID t) @ put_u16 (length (enc @ ct)) @ enc @ ct"
    unfolding f(2) encodeLengthValue_small[OF bl] append_assoc ..
  have op: "target_open H t sk (oq_odohMessage q) = Some (ctx, oq_odohPlaintext q)"
    by (rule target_open_box[OF msg bl el s d(1)])
  have aead: "su_AeadID (odoh_suite t) \<in> {AeadAes128Gcm, AeadAes256Gcm, AeadChaCha20Poly1305}"
    using NewSuite_aead[OF t(2) encrypt_not_export_only[OF c e]] .
  have ex: "export H (oq_ctx q) = export H ctx" unfolding f(4) by (rule export_cong[OF d(3,4)])
  obtain response where
    "target_respond H t ctx (oq_odohPlaintext q) nonce padding answer = Some response"
    "decryptResponse H q response = Inr answer"
    using response_roundtrip[OF assms(2) aead f(3) refl ex n] by blast
  with op show ?thesis unfolding plain by blast
qed

definition example_hpke :: hpke_prims where
  "example_hpke =
     \<lparr>hk_P = example_prims, hk_extract = (\<lambda>s t i. sum_list s + sum_list t),
      hk_expand = (\<lambda>k f i. sum_list k + sum_list f + of_nat i),
      hk_seal = (\<lambda>a k n m ad. m @ replicate 16 (sum_list ad)),
      hk_open = (\<lambda>a k n c ad. if length c \<ge> 16 \<and> drop (length c - 16) c = replicate 16 (sum_list ad)
                               then Some (take (length c - 16) c) else None)\<rparr>"

definition example_target :: ODoHTargetConfig where
  "example_target =
     \<lparr>odoh_suite = (0x0020, 0x0001, 0x0001), odoh_keyID = [0, 1, 9],
      odoh_publicKey = ScalarBaseMult example_prims (replicate 32 3)\<rparr>"

lemma example_hpke_ok: "dh_correct (hk_P example_hpke)" "aead_correct example_hpke"
  using example_dh by (simp_all add: example_hpke_def aead_correct_def)

lemma example_suite: "NewSuite 0x0020 0x0001 0x0001 = Inr (odoh_suite example_target)"
  by (simp add: NewSuite_def example_target_def KemX25519HkdfSha256_def KdfHkdfSha256_def AeadAes128Gcm_def)

lemma example_encrypt: "\<exists>q. encryptQuery example_hpke (Some (\<lambda>i. 5)) example_target [1, 2, 3] = Inr q"
proof -
  have aead: "su_AeadID (odoh_suite example_target) = AeadAes128Gcm"
    by (simp add: su_AeadID_def example_target_def AeadAes128Gcm_def)
  then have k: "su_KeyBytes (odoh_suite example_target) = 16" "su_NonceBytes (odoh_suite example_target) = 12"
    "AeadAes128Gcm \<noteq> AeadExportOnly" "aead_key_ok AeadAes128Gcm (arr 16 f)" for f
    by (simp_all add: su_KeyBytes_def su_NonceBytes_def aead_key_ok_def AeadAes128Gcm_def
        AeadExportOnly_def AeadChaCha20Poly1305_def)
  have "\<exists>ctx enc. NewClientContext example_hpke (Some (\<lambda>i. 5)) (odoh_suite example_target)
      (odoh_publicKey example_target) (str_bytes ''odoh query'') = Inr (ctx, enc)"
    using k aead
    by (simp add: NewClientContext_def encap_def GenerateKeyPair_def Suite_dh_def extractAndExpandDH_def
        labeledExpand_def keySchedule_def Let_def outbound_state_def newAeadState_def su_PrkBytes_def
        su_KemHashBytes_def example_hpke_def example_prims_def example_target_def)
  then obtain ctx enc where c: "NewClientContext example_hpke (Some (\<lambda>i. 5)) (odoh_suite example_target)
      (odoh_publicKey example_target) (str_bytes ''odoh query'') = Inr (ctx, enc)" by blast
  then have "ic_outboundState ctx \<noteq> None" using client_context_state[OF c] aead k(3) by simp
  then show ?thesis using c by (auto simp: encryptQuery_def EncryptToServer_def Let_def split: prod.splits)
qed

theorem odoh_exchange_witness:
  "\<exists>q ctx response. encryptQuery example_hpke (Some (\<lambda>i. 5)) example_target [1, 2, 3] = Inr q \<and>
    target_open example_hpke example_target (replicate 32 3) (oq_odohMessage q) =
      Some (ctx, put_u16 (length [1, 2, 3 :: byte]) @ [1, 2, 3] @ [0, 0]) \<and>
    target_respond example_hpke example_target ctx
      (put_u16 (length [1, 2, 3 :: byte]) @ [1, 2, 3] @ [0, 0]) [4, 5] 6 [7, 8] = Some response \<and>
    decryptResponse example_hpke q response = Inr [7, 8]"
proof -
  obtain q where q: "encryptQuery example_hpke (Some (\<lambda>i. 5)) example_target [1, 2, 3] = Inr q"
    using example_encrypt by blast
  have pk: "odoh_publicKey example_target = ScalarBaseMult (hk_P example_hpke) (replicate 32 3)"
    by (simp add: example_target_def example_hpke_def)
  show ?thesis
    using q odoh_exchange[OF example_hpke_ok _ pk example_suite q, of "[4, 5]" "[7, 8]" 6]
    by (simp add: MaxDNSPacketSize_def)
qed

text \<open>
  A configuration whose AEAD is the export-only identifier is accepted, and every query to that target
  then dereferences the nil AEAD state.
\<close>

lemma export_only_config_panics:
  assumes "parseODoHTargetConfig H r config = Inr t" "go_slice config 4 6 = [0xff, 0xff]"
    and "NewClientContext H r' (odoh_suite t) (odoh_publicKey t) (str_bytes ''odoh query'') = Inr (ctx, enc)"
  shows "encryptQuery H r' t query = Inl (HpkeFailed NilState)"
proof -
  have "be_val (go_slice config 4 6) = 65535" using assms(2) by (simp add: be_val_def)
  then have "su_AeadID (odoh_suite t) = AeadExportOnly"
    using assms(1)
    by (auto simp: parseODoHTargetConfig_def Let_def NewSuite_def su_AeadID_def AeadExportOnly_def
        split: if_splits sum.splits)
  then have "ic_outboundState ctx = None" using client_context_state[OF assms(3)] by simp
  then show ?thesis using assms(3) by (simp add: encryptQuery_def EncryptToServer_def Let_def)
qed

text \<open>
  A response with a nonce of 65533 bytes makes the upper bound of the slice wrap around to zero, and
  the proxy panics.
\<close>

lemma long_nonce_panics:
  assumes "length nonce = 65533" "rest \<noteq> []" "length rest \<ge> 2"
  shows "decryptResponse H q ([2] @ put_u16 65533 @ nonce @ rest) = Inl SliceOutOfRange"
proof -
  have "go_slice ([2] @ put_u16 65533 @ nonce @ rest) 1 3 = put_u16 65533"
    by (rule go_slice_mid) simp_all
  then show ?thesis
    using assms by (simp add: decryptResponse_def response_nonce_def go_slice_opt_def)
qed

end
