(* ===== verification/Plugins.thy ===== *)
theory Plugins
  imports Plugins_State
begin

text \<open>
  The plugin chains (\<^verbatim>\<open>dnscrypt-proxy/plugins.go\<close>). A plugin is a function on the state of the proxy, of
  any type \<open>'w\<close>, the state of the query and the message; it returns whether it failed. The message of a
  query is shared with the field \<^verbatim>\<open>questionMsg\<close> of the state, so that what a query plugin does to
  the message shows there: the chain copies it back after every plugin.
\<close>

type_synonym 'w plugin = "'w \<Rightarrow> PluginsState \<Rightarrow> Msg \<Rightarrow> bool \<times> 'w \<times> PluginsState \<times> Msg"

record 'w PluginsGlobals =
  pg_queryPlugins :: "'w plugin list"
  pg_responsePlugins :: "'w plugin list"
  pg_loggingPlugins :: "'w plugin list"
  pg_refusedCodeInResponses :: bool
  pg_respondWithIPv4 :: "bytes option"
  pg_respondWithIPv6 :: "bytes option"

datatype plugin_error =
    UnpackError | UnexpectedQuestions | InvalidName | PluginFailed | InvalidResponse | PackError

section \<open>The chain\<close>

definition refuse :: "'w PluginsGlobals \<Rightarrow> Msg \<Rightarrow> PluginsState \<Rightarrow> PluginsState" where
  "refuse g msg ps =
     (if ps_action ps = PluginsActionReject
      then ps\<lparr>ps_synthResponse := Some (RefusedResponseFromMessage msg (pg_refusedCodeInResponses g)
                                       (pg_respondWithIPv4 g) (pg_respondWithIPv6 g) (ps_rejectTTL ps))\<rparr>
      else ps)"

primrec plugin_chain ::
  "(Msg \<Rightarrow> PluginsState \<Rightarrow> PluginsState) \<Rightarrow> 'w PluginsGlobals \<Rightarrow> 'w plugin list \<Rightarrow> 'w \<Rightarrow> PluginsState \<Rightarrow>
   Msg \<Rightarrow> bool \<times> 'w \<times> PluginsState \<times> Msg" where
  "plugin_chain share g [] w ps msg = (False, w, ps, msg)"
| "plugin_chain share g (p # rest) w ps msg =
     (case p w ps msg of
        (failed, w1, ps1, msg1) \<Rightarrow>
          if failed then (True, w1, (share msg1 ps1)\<lparr>ps_action := PluginsActionDrop\<rparr>, msg1)
          else if ps_action ps1 \<noteq> PluginsActionContinue
          then (False, w1, refuse g msg1 (share msg1 ps1), msg1)
          else plugin_chain share g rest w1 (share msg1 ps1) msg1)"

definition share_question :: "Msg \<Rightarrow> PluginsState \<Rightarrow> PluginsState" where
  "share_question msg ps = ps\<lparr>ps_questionMsg := Some msg\<rparr>"

definition padding_length :: "nat \<Rightarrow> nat" where
  "padding_length n = 63 - ((n + 63) mod 64)"

text \<open>
  The closure that selects the server is a function on the variables it captures, of any type \<open>'v\<close>; it
  returns whether the query needs padding.
\<close>

definition pad_query ::
  "dns_lib \<Rightarrow> ('v \<Rightarrow> bool \<times> 'v) option \<Rightarrow> bytes \<Rightarrow> Msg \<Rightarrow> 'v \<Rightarrow> PluginsState \<Rightarrow>
   bytes \<times> 'v \<times> PluginsState" where
  "pad_query L getServerInfo packet2 msg v ps =
     (case (if ps_action ps = PluginsActionContinue then getServerInfo else None) of
        None \<Rightarrow> (packet2, v, ps)
      | Some f \<Rightarrow>
          (case f v of
             (needsEDNS0Padding, v1) \<Rightarrow>
               if \<not> needsEDNS0Padding then (packet2, v1, ps)
               else case addEDNS0PaddingIfNoneFound L msg packet2 (padding_length (length packet2)) of
                      (Some padded, msg') \<Rightarrow> (padded, v1, share_question msg' ps)
                    | (None, msg') \<Rightarrow> (packet2, v1, share_question msg' ps)))"

definition ApplyQueryPlugins ::
  "dns_lib \<Rightarrow> 'w PluginsGlobals \<Rightarrow> ('v \<Rightarrow> bool \<times> 'v) option \<Rightarrow> bytes \<Rightarrow> 'v \<Rightarrow> 'w \<Rightarrow> PluginsState \<Rightarrow>
   (plugin_error + bytes) \<times> 'v \<times> 'w \<times> PluginsState" where
  "ApplyQueryPlugins L g getServerInfo packet v w ps =
     (case dl_Unpack L packet of
        None \<Rightarrow> (Inl UnpackError, v, w, ps)
      | Some msg \<Rightarrow>
          if length (m_Question msg) \<noteq> 1 then (Inl UnexpectedQuestions, v, w, ps)
          else case NormalizeQName (q_Name (hd (m_Question msg))) of
                 None \<Rightarrow> (Inl InvalidName, v, w, ps)
               | Some qName \<Rightarrow>
                   (case plugin_chain share_question g (pg_queryPlugins g) w
                           (ps\<lparr>ps_qName := qName, ps_questionMsg := Some msg\<rparr>) msg of
                      (failed, w1, ps1, msg1) \<Rightarrow>
                        if failed then (Inl PluginFailed, v, w1, ps1)
                        else case dl_Pack L msg1 of
                               None \<Rightarrow> (Inl PackError, v, w1, ps1)
                             | Some packet2 \<Rightarrow>
                                 (case pad_query L getServerInfo packet2 msg1 v ps1 of
                                    (out, v2, ps2) \<Rightarrow> (Inr out, v2, w1, ps2))))"

definition rcode_return :: "8 word \<Rightarrow> PluginsReturnCode" where
  "rcode_return rc =
     (if rc = of_nat RcodeSuccess then PluginsReturnCodePass
      else if rc = of_nat RcodeNameError then PluginsReturnCodeNXDomain
      else if rc = of_nat RcodeServerFailure then PluginsReturnCodeServFail
      else PluginsReturnCodeResponseError)"

definition keep_question :: "Msg \<Rightarrow> PluginsState \<Rightarrow> PluginsState" where
  "keep_question msg ps = ps"

definition ApplyResponsePlugins ::
  "dns_lib \<Rightarrow> 'w PluginsGlobals \<Rightarrow> bytes \<Rightarrow> 'w \<Rightarrow> PluginsState \<Rightarrow>
   (plugin_error + bytes) \<times> 'w \<times> PluginsState" where
  "ApplyResponsePlugins L g packet w ps =
     (case dl_Unpack L packet of
        None \<Rightarrow> (Inl UnpackError, w, ps)
      | Some msg0 \<Rightarrow>
          if validateResponseForQuery L (ps_questionMsg ps) (Some msg0) \<noteq> None
          then (Inl InvalidResponse, w, ps)
          else case plugin_chain keep_question g (pg_responsePlugins g) w
                      (ps\<lparr>ps_returnCode := rcode_return (Rcode packet)\<rparr>) (snd (removeEDNS0Options msg0)) of
                 (failed, w1, ps1, msg) \<Rightarrow>
                   if failed then (Inl PluginFailed, w1, ps1)
                   else if validateResponseForQuery L (ps_questionMsg ps1) (Some msg) \<noteq> None
                   then (Inl InvalidResponse, w1, ps1)
                   else case dl_Pack L msg of
                          None \<Rightarrow> (Inl PackError, w1, ps1)
                        | Some out \<Rightarrow> (Inr out, w1, ps1))"

primrec logging_chain :: "'w plugin list \<Rightarrow> 'w \<Rightarrow> PluginsState \<Rightarrow> Msg \<Rightarrow> 'w \<times> PluginsState" where
  "logging_chain [] w ps msg = (w, ps)"
| "logging_chain (p # rest) w ps msg =
     (case p w ps msg of
        (failed, w1, ps1, msg1) \<Rightarrow>
          if failed then (w1, share_question msg1 ps1)
          else logging_chain rest w1 (share_question msg1 ps1) msg1)"

definition ApplyLoggingPlugins ::
  "'w PluginsGlobals \<Rightarrow> go_time \<Rightarrow> 'w \<Rightarrow> PluginsState \<Rightarrow> 'w \<times> PluginsState" where
  "ApplyLoggingPlugins g now w ps =
     (if pg_loggingPlugins g = [] then (w, ps)
      else let ps1 = ps\<lparr>ps_requestEnd := now\<rparr>
           in case ps_questionMsg ps1 of
                None \<Rightarrow> (w, ps1)
              | Some questionMsg \<Rightarrow> logging_chain (pg_loggingPlugins g) w ps1 questionMsg)"

section \<open>The identity of a query\<close>

definition identity :: "Msg \<Rightarrow> 16 word \<times> Question list" where
  "identity msg = (m_ID msg, m_Question msg)"

definition ps_identity :: "PluginsState \<Rightarrow> (16 word \<times> Question list) option" where
  "ps_identity ps = map_option identity (ps_questionMsg ps)"

lemma identity_simps [simp]:
  "identity (msg\<lparr>m_Pseudo := x\<rparr>) = identity msg" "identity (msg\<lparr>m_UDPSize := y\<rparr>) = identity msg"
  "identity (msg\<lparr>m_Answer := z\<rparr>) = identity msg" "identity (msg\<lparr>m_Security := a\<rparr>) = identity msg"
  by (simp_all add: identity_def)

lemma ps_identity_simps [simp]:
  "ps_identity (ps\<lparr>ps_action := a\<rparr>) = ps_identity ps"
  "ps_identity (ps\<lparr>ps_returnCode := r\<rparr>) = ps_identity ps"
  "ps_identity (ps\<lparr>ps_synthResponse := s\<rparr>) = ps_identity ps"
  "ps_identity (ps\<lparr>ps_exchange := e\<rparr>) = ps_identity ps"
  "ps_identity (ps\<lparr>ps_requestEnd := n\<rparr>) = ps_identity ps"
  "ps_identity (ps\<lparr>ps_exchangeStart := t\<rparr>) = ps_identity ps"
  "ps_identity (ps\<lparr>ps_serverName := i\<rparr>) = ps_identity ps"
  "ps_identity (ps\<lparr>ps_relayName := j\<rparr>) = ps_identity ps"
  "ps_identity (share_question msg ps) = Some (identity msg)"
  by (simp_all add: ps_identity_def share_question_def)

lemma ps_identity_refuse [simp]: "ps_identity (refuse g msg ps) = ps_identity ps"
  by (simp add: refuse_def)

lemma validate_identity:
  "map_option identity a = map_option identity b \<Longrightarrow>
     validateResponseForQuery L a c = validateResponseForQuery L b c"
  by (cases a; cases b)
     (auto simp: identity_def validateResponseForQuery_def validateResponseQuestion_def split: option.splits)

text \<open>
  The contract of a plugin: it leaves the identifier and the question of the message and of the query
  as they are. It may change anything else.
\<close>

locale identity_plugin =
  fixes p :: "'w plugin"
  assumes keeps: "p w ps msg = (failed, w', ps', msg') \<Longrightarrow>
    identity msg' = identity msg \<and> ps_identity ps' = ps_identity ps"

lemmas identity_pluginD = identity_plugin.keeps

definition plugins_ok :: "'w PluginsGlobals \<Rightarrow> bool" where
  "plugins_ok g \<longleftrightarrow> list_all identity_plugin
     (pg_queryPlugins g @ pg_responsePlugins g @ pg_loggingPlugins g)"

lemma query_chain_identity:
  assumes "list_all identity_plugin plugins" "ps_identity ps = Some (identity msg)"
    and "plugin_chain share_question g plugins w ps msg = (failed, w', ps', msg')"
  shows "identity msg' = identity msg \<and> ps_identity ps' = Some (identity msg)"
  using assms
proof (induction plugins arbitrary: w ps msg)
  case (Cons p rest)
  obtain f w1 ps1 msg1 where p: "p w ps msg = (f, w1, ps1, msg1)" by (metis prod_cases4)
  have k: "identity msg1 = identity msg" using identity_pluginD[where p = p, OF _ p] Cons.prems(1) by simp
  show ?case
    using Cons.prems(1,3) Cons.IH[of "share_question msg1 ps1" msg1 w1] k
    by (auto simp: p split: if_splits)
qed simp

lemma response_chain_identity:
  assumes "list_all identity_plugin plugins"
    and "plugin_chain keep_question g plugins w ps msg = (failed, w', ps', msg')"
  shows "ps_identity ps' = ps_identity ps"
  using assms
proof (induction plugins arbitrary: w ps msg)
  case (Cons p rest)
  obtain f w1 ps1 msg1 where p: "p w ps msg = (f, w1, ps1, msg1)" by (metis prod_cases4)
  have k: "ps_identity ps1 = ps_identity ps" using identity_pluginD[where p = p, OF _ p] Cons.prems(1) by simp
  show ?case
    using Cons.prems(1,2) Cons.IH[of w1 ps1 msg1] k by (auto simp: p keep_question_def split: if_splits)
qed simp

lemma logging_chain_identity:
  assumes "list_all identity_plugin plugins" "ps_identity ps = Some (identity msg)"
    and "logging_chain plugins w ps msg = (w', ps')"
  shows "ps_identity ps' = Some (identity msg)"
  using assms
proof (induction plugins arbitrary: w ps msg)
  case (Cons p rest)
  obtain f w1 ps1 msg1 where p: "p w ps msg = (f, w1, ps1, msg1)" by (metis prod_cases4)
  have k: "identity msg1 = identity msg" using identity_pluginD[where p = p, OF _ p] Cons.prems(1) by simp
  show ?case
    using Cons.prems(1,3) Cons.IH[of "share_question msg1 ps1" msg1 w1] k
    by (auto simp: p split: if_splits)
qed simp

lemma ApplyLoggingPlugins_identity:
  assumes "plugins_ok g" "ApplyLoggingPlugins g now w ps = (w', ps')"
  shows "ps_identity ps' = ps_identity ps"
proof (cases "ps_questionMsg ps")
  case None
  then show ?thesis using assms(2) by (auto simp: ApplyLoggingPlugins_def split: if_splits)
next
  case (Some msg)
  have ok: "list_all identity_plugin (pg_loggingPlugins g)" using assms(1) by (simp add: plugins_ok_def)
  have "ps_identity (ps\<lparr>ps_requestEnd := now\<rparr>) = Some (identity msg)" using Some by (simp add: ps_identity_def)
  note step = logging_chain_identity[OF ok this]
  show ?thesis
    using assms(2) Some step
    by (auto simp: ApplyLoggingPlugins_def ps_identity_def split: if_splits)
qed

lemma addEDNS0Padding_identity:
  "addEDNS0PaddingIfNoneFound L msg packet n = (r, msg') \<Longrightarrow> identity msg' = identity msg"
  by (auto simp: addEDNS0PaddingIfNoneFound_def Let_def split: if_splits option.splits)

lemma pad_query_identity:
  assumes "pad_query L gsi packet msg v ps = (out, v', ps')" "ps_identity ps = Some (identity msg)"
  shows "ps_identity ps' = Some (identity msg)"
  using assms
  by (auto simp: pad_query_def dest!: addEDNS0Padding_identity split: option.splits prod.splits if_splits)

lemma ApplyQueryPlugins_identity:
  assumes "plugins_ok g" "ApplyQueryPlugins L g gsi packet v w ps = (Inr out, v', w', ps')"
  shows "\<exists>msg. dl_Unpack L packet = Some msg \<and> length (m_Question msg) = 1 \<and>
    ps_identity ps' = Some (identity msg)"
proof -
  obtain msg qName f w1 ps1 msg1 packet2 where
    u: "dl_Unpack L packet = Some msg" "length (m_Question msg) = 1"
    and c: "plugin_chain share_question g (pg_queryPlugins g) w
      (ps\<lparr>ps_qName := qName, ps_questionMsg := Some msg\<rparr>) msg = (f, w1, ps1, msg1)"
    and d: "pad_query L gsi packet2 msg1 v ps1 = (out, v', ps')"
    using assms(2)
    by (auto simp: ApplyQueryPlugins_def split: option.splits if_splits prod.splits)
  have ok: "list_all identity_plugin (pg_queryPlugins g)" using assms(1) by (simp add: plugins_ok_def)
  have "identity msg1 = identity msg \<and> ps_identity ps1 = Some (identity msg)"
    using query_chain_identity[OF ok _ c] by (simp add: ps_identity_def)
  then have "ps_identity ps' = Some (identity msg)" using pad_query_identity[OF d] by simp
  with u show ?thesis by blast
qed

text \<open>A response that leaves the chain is the packing of a message that answers the query.\<close>

lemma ApplyResponsePlugins_valid:
  assumes "plugins_ok g" "ApplyResponsePlugins L g packet w ps = (Inr out, w', ps')"
  shows "ps_identity ps' = ps_identity ps \<and>
    (\<exists>m. validateResponseForQuery L (ps_questionMsg ps) (Some m) = None \<and> dl_Pack L m = Some out)"
proof -
  obtain f m msg0 where
    c: "plugin_chain keep_question g (pg_responsePlugins g) w
      (ps\<lparr>ps_returnCode := rcode_return (Rcode packet)\<rparr>) (snd (removeEDNS0Options msg0)) = (f, w', ps', m)"
    and v: "validateResponseForQuery L (ps_questionMsg ps') (Some m) = None" "dl_Pack L m = Some out"
    using assms(2)
    by (auto simp: ApplyResponsePlugins_def split: option.splits if_splits prod.splits)
  have ok: "list_all identity_plugin (pg_responsePlugins g)" using assms(1) by (simp add: plugins_ok_def)
  have i: "ps_identity ps' = ps_identity ps" using response_chain_identity[OF ok c] by simp
  then have "validateResponseForQuery L (ps_questionMsg ps) (Some m) = None"
    using v(1) validate_identity[of "ps_questionMsg ps'" "ps_questionMsg ps"] by (simp add: ps_identity_def)
  with i v(2) show ?thesis by blast
qed

end
