(* ===== verification/Exchange.thy ===== *)
theory Exchange
  imports Servers_Info Crypto Conn_Pool ODoH Plugins "HOL-Library.Monad_Syntax"
begin

text \<open>
  The exchange of a query with a server: \<^verbatim>\<open>dnscrypt-proxy/proxy.go\<close> from \<open>prepareForRelay\<close> to
  \<open>exchangeWithTCPServer\<close>, and the three protocols of \<^verbatim>\<open>dnscrypt-proxy/query_processing.go\<close>. What the
  network, the clock and the random source do is the record \<open>net_events\<close>; settings and
  third-party code are the record \<open>proxy_cfg\<close>; the state of the proxy is the record \<open>world\<close>. An operation
  returns \<open>None\<close> where the program ends with a fatal error or a panic.
\<close>

section \<open>State and environment\<close>

text \<open>
  The sockets of the pool are followed with the clients that hold them (\<open>pool_sys\<close>). \<open>w_wire\<close> lists what
  was written to upstream addresses, \<open>w_replies\<close> what was sent to clients, \<open>w_monitored\<close> the calls of the
  monitoring interface, each in the order of time.
\<close>

record 'p world =
  w_px :: Proxy
  w_servers :: ServersInfo
  w_udp :: pool_sys
  w_wire :: "(net_addr \<times> bytes) list"
  w_replies :: "bytes list"
  w_monitored :: "PluginsState list"
  w_plugins :: 'p

record 'p proxy_cfg =
  pc_L :: dns_lib
  pc_P :: crypto_prims
  pc_H :: hpke_prims
  pc_query :: query_config
  pc_globals :: "'p PluginsGlobals"
  pc_proxyDialer :: bool
  pc_monitoring :: bool
  pc_addrString :: "net_addr \<Rightarrow> string"

record udp_try =
  ut_write :: "exchange_error option"
  ut_read :: "exchange_error + bytes"

record FetchTrace =
  ft_UsedHTTP3 :: bool
  ft_QUICFallback :: bool
  ft_ConnReused :: bool
  ft_NegotiatedProto :: string

text \<open>
  The outcome of an HTTP request: the body, the status, whether the TLS handshake is complete (\<open>None\<close>
  without TLS state), the trace and the error.
\<close>

record http_result =
  hr_body :: bytes
  hr_code :: nat
  hr_tls :: "bool option"
  hr_trace :: "FetchTrace option"
  hr_err :: "exchange_error option"

record net_events =
  nv_clock :: "nat \<Rightarrow> go_time"
  nv_draws :: draws
  nv_entropy :: "nat \<Rightarrow> entropy"
  nv_dial :: "exchange_error + conn"
  nv_deadline :: "exchange_error option"
  nv_try :: "nat \<Rightarrow> udp_try"
  nv_tcpDial :: "exchange_error option"
  nv_tcpDeadline :: "exchange_error option"
  nv_tcpWrite :: "exchange_error option"
  nv_tcpRead :: "nat list \<times> bytes"
  nv_tcpReadErr :: exchange_error
  nv_http :: "bytes \<Rightarrow> http_result"
  nv_odohTarget :: nat
  nv_odohEntropy :: "byte_fun option"
  nv_refetch :: "exchange_error + ServerInfo"

text \<open>The object a server pointer refers to, written back under its name.\<close>

definition put_server :: "ServerInfo \<Rightarrow> 'p world \<Rightarrow> 'p world" where
  "put_server s w =
     w\<lparr>w_servers := (w_servers w)\<lparr>sv_inner := update_server (si_Name s) (\<lambda>_. s) (sv_inner (w_servers w))\<rparr>\<rparr>"

text \<open>A cryptographic error ends the program or is an error that is not a timeout.\<close>

definition crypto_outcome :: "crypto_error + 'a \<Rightarrow> (exchange_error + 'a) option" where
  "crypto_outcome r =
     (case r of
        Inl e \<Rightarrow> if e = CryptoPanic \<or> e = FatalExit then None else Some (Inl OtherError)
      | Inr x \<Rightarrow> Some (Inr x))"

definition odoh_outcome :: "odoh_error + 'a \<Rightarrow> (exchange_error + 'a) option" where
  "odoh_outcome r =
     (case r of
        Inl e \<Rightarrow> if e = SliceOutOfRange \<or> e = HpkeFailed NilState then None else Some (Inl OtherError)
      | Inr x \<Rightarrow> Some (Inr x))"

section \<open>Exchanges over UDP and TCP\<close>

definition prepareForRelay :: "bytes \<Rightarrow> nat \<Rightarrow> bytes \<Rightarrow> bytes" where
  "prepareForRelay ip port encryptedQuery =
     [0xff, 0xff, 0xff, 0xff, 0xff, 0xff, 0xff, 0xff, 0x00, 0x00] @
     (case To16 ip of None \<Rightarrow> [] | Some ip16 \<Rightarrow> ip16) @ put_u16 (port mod 65536) @ encryptedQuery"

definition dnscrypt_relay :: "ServerInfo \<Rightarrow> DNSCryptRelay option" where
  "dnscrypt_relay s = (case si_Relay s of None \<Rightarrow> None | Some relay \<Rightarrow> rl_Dnscrypt relay)"

definition upstream_udp :: "ServerInfo \<Rightarrow> net_addr" where
  "upstream_udp s = (case dnscrypt_relay s of None \<Rightarrow> si_UDPAddr s | Some r \<Rightarrow> RelayUDPAddr r)"

definition upstream_tcp :: "ServerInfo \<Rightarrow> net_addr" where
  "upstream_tcp s = (case dnscrypt_relay s of None \<Rightarrow> si_TCPAddr s | Some r \<Rightarrow> RelayTCPAddr r)"

definition relay_query :: "ServerInfo \<Rightarrow> net_addr \<Rightarrow> bytes \<Rightarrow> bytes" where
  "relay_query s addr query =
     (case dnscrypt_relay s of
        None \<Rightarrow> query | Some _ \<Rightarrow> prepareForRelay (na_ip addr) (na_port addr) query)"

text \<open>
  The loop of two tries: the number of datagrams written and the datagram read, cut to the buffer. A
  failed write ends the exchange, a failed read is tried again.
\<close>

primrec udp_tries :: "nat \<Rightarrow> (nat \<Rightarrow> udp_try) \<Rightarrow> exchange_error \<Rightarrow> nat \<times> (exchange_error + bytes)" where
  "udp_tries 0 ev readErr = (0, Inl readErr)"
| "udp_tries (Suc tries) ev readErr =
     (case ut_write (ev (1 - tries)) of
        Some e \<Rightarrow> (0, Inl e)
      | None \<Rightarrow>
          (case ut_read (ev (1 - tries)) of
             Inr datagram \<Rightarrow> (1, Inr (take MaxDNSPacketSize datagram))
           | Inl e \<Rightarrow> (case udp_tries tries ev e of (n, r) \<Rightarrow> (Suc n, r))))"

definition decrypt_step ::
  "'p proxy_cfg \<Rightarrow> net_events \<Rightarrow> enc_result \<Rightarrow> bytes \<Rightarrow> ServerInfo \<Rightarrow> 'p world \<Rightarrow>
   ((exchange_error + bytes) \<times> ServerInfo \<times> 'p world) option" where
  "decrypt_step C ev r response s w =
     (case Decrypt (pc_P C) (w_px w) (nv_clock ev 4) s (er_sharedKey r) response (er_clientNonce r)
             (er_queryEpoch r) of
        (res, s') \<Rightarrow> map_option (\<lambda>x. (x, s', put_server s' w)) (crypto_outcome res))"

definition udp_get :: "string \<Rightarrow> exchange_error + conn \<Rightarrow> pool_sys \<Rightarrow> (exchange_error + conn \<times> bool) \<times> pool_sys" where
  "udp_get addr dial sys =
     (case pool_Get addr (case dial of Inl _ \<Rightarrow> None | Inr c \<Rightarrow> Some c) (sys_pool sys) of
        (None, p) \<Rightarrow> (Inl (case dial of Inl e \<Rightarrow> e | Inr _ \<Rightarrow> OtherError), sys\<lparr>sys_pool := p\<rparr>)
      | (Some (c, reused), p) \<Rightarrow>
          (Inr (c, reused),
           sys\<lparr>sys_pool := p, sys_held := c # sys_held sys,
               sys_open := (if reused then sys_open sys else c # sys_open sys)\<rparr>))"

definition udp_discard :: "conn \<Rightarrow> pool_sys \<Rightarrow> pool_sys" where
  "udp_discard c sys =
     sys\<lparr>sys_held := remove1 c (sys_held sys),
         sys_open := close_conns (pool_Discard c) (sys_open sys)\<rparr>"

definition udp_put :: "string \<Rightarrow> go_time \<Rightarrow> conn \<Rightarrow> pool_sys \<Rightarrow> pool_sys" where
  "udp_put addr now c sys =
     (case pool_Put addr now c (sys_pool sys) of
        (p, cs) \<Rightarrow> sys\<lparr>sys_pool := p, sys_held := remove1 c (sys_held sys),
                          sys_open := close_conns cs (sys_open sys)\<rparr>)"

definition exchangeWithUDPServerViaProxy ::
  "'p proxy_cfg \<Rightarrow> net_events \<Rightarrow> enc_result \<Rightarrow> ServerInfo \<Rightarrow> 'p world \<Rightarrow>
   ((exchange_error + bytes) \<times> bool \<times> ServerInfo \<times> 'p world) option" where
  "exchangeWithUDPServerViaProxy C ev r s w =
     (case nv_dial ev of
        Inl e \<Rightarrow> Some (Inl e, False, s, w)
      | Inr _ \<Rightarrow>
          (case nv_deadline ev of
             Some e \<Rightarrow> Some (Inl e, False, s, w)
           | None \<Rightarrow>
               (case udp_tries 2 (nv_try ev) OtherError of
                  (n, res) \<Rightarrow>
                    (let w1 = w\<lparr>w_wire := w_wire w @
                           replicate n (upstream_udp s, relay_query s (si_UDPAddr s) (er_encrypted r))\<rparr>
                     in case res of
                          Inl e \<Rightarrow> Some (Inl e, False, s, w1)
                        | Inr response \<Rightarrow>
                            map_option (\<lambda>(x, s', w'). (x, False, s', w')) (decrypt_step C ev r response s w1)))))"

definition exchangeWithUDPServer ::
  "'p proxy_cfg \<Rightarrow> net_events \<Rightarrow> enc_result \<Rightarrow> ServerInfo \<Rightarrow> 'p world \<Rightarrow>
   ((exchange_error + bytes) \<times> bool \<times> ServerInfo \<times> 'p world) option" where
  "exchangeWithUDPServer C ev r s w =
     (if pc_proxyDialer C then exchangeWithUDPServerViaProxy C ev r s w
      else let addr = pc_addrString C (upstream_udp s)
           in case udp_get addr (nv_dial ev) (w_udp w) of
                (Inl e, sys) \<Rightarrow> Some (Inl e, False, s, w\<lparr>w_udp := sys\<rparr>)
              | (Inr (pc, connReused), sys) \<Rightarrow>
                  (case nv_deadline ev of
                     Some e \<Rightarrow> Some (Inl e, False, s, w\<lparr>w_udp := udp_discard pc sys\<rparr>)
                   | None \<Rightarrow>
                       (case udp_tries 2 (nv_try ev) OtherError of
                          (n, res) \<Rightarrow>
                            (let w1 = w\<lparr>w_wire := w_wire w @
                                   replicate n (upstream_udp s,
                                     relay_query s (si_UDPAddr s) (er_encrypted r))\<rparr>
                             in case res of
                                  Inl e \<Rightarrow> Some (Inl e, False, s, w1\<lparr>w_udp := udp_discard pc sys\<rparr>)
                                | Inr response \<Rightarrow>
                                    map_option (\<lambda>(x, s', w'). (x, connReused, s', w'))
                                      (decrypt_step C ev r response s
                                         (w1\<lparr>w_udp := udp_put addr (nv_clock ev 3) pc sys\<rparr>))))))"

definition exchangeWithTCPServer ::
  "'p proxy_cfg \<Rightarrow> net_events \<Rightarrow> enc_result \<Rightarrow> ServerInfo \<Rightarrow> 'p world \<Rightarrow>
   ((exchange_error + bytes) \<times> ServerInfo \<times> 'p world) option" where
  "exchangeWithTCPServer C ev r s w =
     (case nv_tcpDial ev of
        Some e \<Rightarrow> Some (Inl e, s, w)
      | None \<Rightarrow>
          (case nv_tcpDeadline ev of
             Some e \<Rightarrow> Some (Inl e, s, w)
           | None \<Rightarrow>
               (case PrefixWithSize (relay_query s (si_TCPAddr s) (er_encrypted r)) of
                  Inl _ \<Rightarrow> Some (Inl OtherError, s, w)
                | Inr framed \<Rightarrow>
                    (case nv_tcpWrite ev of
                       Some e \<Rightarrow> Some (Inl e, s, w)
                     | None \<Rightarrow>
                         (let w1 = w\<lparr>w_wire := w_wire w @ [(upstream_tcp s, framed)]\<rparr>
                          in case ReadPrefixed (fst (nv_tcpRead ev)) (snd (nv_tcpRead ev)) of
                               Inl e \<Rightarrow> Some (Inl (if e = ReadError then nv_tcpReadErr ev else OtherError), s, w1)
                             | Inr response \<Rightarrow> decrypt_step C ev r response s w1)))))"

end
