(* ===== verification/Query.thy ===== *)
theory Query
  imports Exchange
begin

text \<open>
  The path of a query through the proxy: \<^verbatim>\<open>dnscrypt-proxy/query_processing.go\<close> and
  \<open>processIncomingQuery\<close> of \<^verbatim>\<open>dnscrypt-proxy/proxy.go\<close>, from the packet of the client to the reply, the
  log and the feedback to the scheduler.
\<close>

section \<open>Helpers\<close>

definition validateQuery :: "bytes \<Rightarrow> bool" where
  "validateQuery query \<longleftrightarrow>
     \<not> length query < MinDNSPacketSize \<and> \<not> length query > MaxDNSPacketSize"

definition applyHTTPFetchTrace :: "PluginsState \<Rightarrow> FetchTrace option \<Rightarrow> bool \<Rightarrow> PluginsState" where
  "applyHTTPFetchTrace ps ft odoh =
     (case ft of
        None \<Rightarrow> ps
      | Some f \<Rightarrow>
          ps\<lparr>ps_exchange := (ps_exchange ps)\<lparr>eo_QUICFallback := ft_QUICFallback f,
               eo_ConnReused := ft_ConnReused f,
               eo_Transport := (if odoh then TransportODoH
                                else if ft_UsedHTTP3 f \<or> ft_NegotiatedProto f = ''h3'' then TransportDoHH3
                                else TransportDoHH2)\<rparr>\<rparr>)"

definition handleSynthesizedResponse ::
  "dns_lib \<Rightarrow> PluginsState \<Rightarrow> Msg \<Rightarrow> bytes option \<times> PluginsState" where
  "handleSynthesizedResponse L ps synth =
     (if validateResponseForQuery L (ps_questionMsg ps) (Some synth) \<noteq> None
      then (None, ps\<lparr>ps_returnCode := PluginsReturnCodeParseError\<rparr>)
      else case dl_Pack L synth of
             None \<Rightarrow> (None, ps\<lparr>ps_returnCode := PluginsReturnCodeParseError\<rparr>)
           | Some packet \<Rightarrow> (Some packet, ps))"

definition log_query ::
  "'p proxy_cfg \<Rightarrow> net_events \<Rightarrow> PluginsState \<Rightarrow> 'p world \<Rightarrow> PluginsState \<times> 'p world" where
  "log_query C ev ps w =
     (case ApplyLoggingPlugins (pc_globals C) (nv_clock ev 8) (w_plugins w) ps of
        (p, ps') \<Rightarrow> (ps', w\<lparr>w_plugins := p\<rparr>))"

definition log_code ::
  "'p proxy_cfg \<Rightarrow> net_events \<Rightarrow> PluginsReturnCode \<Rightarrow> PluginsState \<Rightarrow> 'p world \<Rightarrow>
   PluginsState \<times> 'p world" where
  "log_code C ev code ps w = log_query C ev (ps\<lparr>ps_returnCode := code\<rparr>) w"

definition stale_response :: "dns_lib \<Rightarrow> PluginsState \<Rightarrow> bytes option" where
  "stale_response L ps = (case ps_stale ps of None \<Rightarrow> None | Some staleMsg \<Rightarrow> dl_Pack L staleMsg)"

type_synonym 'p exchange_result = "((exchange_error + bytes) \<times> PluginsState \<times> 'p world) option"

section \<open>DNSCrypt\<close>

definition encrypt_step ::
  "'p proxy_cfg \<Rightarrow> net_events \<Rightarrow> nat \<Rightarrow> bytes \<Rightarrow> string \<Rightarrow> ServerInfo \<Rightarrow> 'p world \<Rightarrow>
   ((exchange_error + enc_result) \<times> ServerInfo \<times> 'p world) option" where
  "encrypt_step C ev k query serverProto s w =
     (case Encrypt (pc_P C) (w_px w) (nv_entropy ev k) (nv_clock ev k) s query serverProto of
        (res, s') \<Rightarrow> map_option (\<lambda>x. (x, s', put_server s' w)) (crypto_outcome res))"

definition tcp_exchange ::
  "'p proxy_cfg \<Rightarrow> net_events \<Rightarrow> enc_result \<Rightarrow> PluginsState \<Rightarrow> ServerInfo \<Rightarrow> 'p world \<Rightarrow> 'p exchange_result" where
  "tcp_exchange C ev r ps s w =
     map_option
       (\<lambda>(res, s', w'). (res, ps\<lparr>ps_exchange := (ps_exchange ps)\<lparr>eo_Transport := TransportDNSCryptTCP,
            eo_ConnReused := False\<rparr>\<rparr>, w'))
       (exchangeWithTCPServer C ev r s w)"

text \<open>
  Over UDP a truncated response or a timeout leads to a second attempt over TCP. The second component
  tells whether the failure is that of encrypting the query again, which is reported on its own.
\<close>

definition upstream_truncated :: "exchange_error + bytes \<Rightarrow> bool" where
  "upstream_truncated res =
     (case res of
        Inl _ \<Rightarrow> False
      | Inr response \<Rightarrow> length response \<ge> MinDNSPacketSize \<and> HasTCFlag response)"

definition note_udp :: "bool \<Rightarrow> exchange_error + bytes \<Rightarrow> PluginsState \<Rightarrow> PluginsState" where
  "note_udp connReused res ps =
     ps\<lparr>ps_exchange := (ps_exchange ps)\<lparr>eo_ConnReused := connReused,
          eo_UpstreamTruncated := (upstream_truncated res \<or> eo_UpstreamTruncated (ps_exchange ps))\<rparr>\<rparr>"

definition note_fallback :: "PluginsState \<Rightarrow> PluginsState" where
  "note_fallback ps = ps\<lparr>ps_exchange := (ps_exchange ps)\<lparr>eo_TCPFallback := True\<rparr>\<rparr>"

definition retry_tcp ::
  "'p proxy_cfg \<Rightarrow> net_events \<Rightarrow> bytes \<Rightarrow> PluginsState \<Rightarrow> ServerInfo \<Rightarrow> 'p world \<Rightarrow>
   ((exchange_error + bytes) \<times> bool \<times> PluginsState \<times> 'p world) option" where
  "retry_tcp C ev query ps s w =
     do {
       (enc, s2, w2) \<leftarrow> encrypt_step C ev 2 query ''tcp'' s w;
       (case enc of
          Inl e \<Rightarrow> Some (Inl e, True, note_fallback ps, w2)
        | Inr r2 \<Rightarrow> map_option (\<lambda>(x, p, w'). (x, False, p, w')) (tcp_exchange C ev r2 (note_fallback ps) s2 w2))
     }"

definition udp_exchange ::
  "'p proxy_cfg \<Rightarrow> net_events \<Rightarrow> bytes \<Rightarrow> enc_result \<Rightarrow> PluginsState \<Rightarrow> ServerInfo \<Rightarrow> 'p world \<Rightarrow>
   ((exchange_error + bytes) \<times> bool \<times> PluginsState \<times> 'p world) option" where
  "udp_exchange C ev query r ps s w =
     do {
       (res, connReused, s1, w1) \<leftarrow> exchangeWithUDPServer C ev r s w;
       (if upstream_truncated res \<or> res = Inl TimeoutError
        then retry_tcp C ev query (note_udp connReused res ps) s1 w1
        else Some (res, False, note_udp connReused res ps, w1))
     }"

definition finish_dnscrypt ::
  "'p proxy_cfg \<Rightarrow> net_events \<Rightarrow> exchange_error + bytes \<Rightarrow> PluginsState \<Rightarrow> 'p world \<Rightarrow>
   (exchange_error + bytes) \<times> PluginsState \<times> 'p world" where
  "finish_dnscrypt C ev res ps w =
     (case res of
        Inr response \<Rightarrow> (Inr response, ps, w)
      | Inl e \<Rightarrow>
          (case stale_response (pc_L C) ps of
             Some stale \<Rightarrow> (Inr stale, ps, w)
           | None \<Rightarrow>
               (case log_code C ev (if e = TimeoutError then PluginsReturnCodeServerTimeout
                                    else PluginsReturnCodeNetworkError) ps w of
                  (ps', w') \<Rightarrow> (Inl e, ps', w'))))"

definition processDNSCryptQuery ::
  "'p proxy_cfg \<Rightarrow> net_events \<Rightarrow> bytes \<Rightarrow> string \<Rightarrow> ServerInfo \<Rightarrow> PluginsState \<Rightarrow> 'p world \<Rightarrow>
   'p exchange_result" where
  "processDNSCryptQuery C ev query serverProto s ps w =
     do {
       (res0, s0, w0) \<leftarrow> encrypt_step C ev 0 query serverProto s w;
       (res1, proto1, s1, w1) \<leftarrow>
         (if isl res0 \<and> serverProto = ''udp''
          then map_option (\<lambda>(x, s', w'). (x, ''tcp'', s', w')) (encrypt_step C ev 1 query ''tcp'' s0 w0)
          else Some (res0, serverProto, s0, w0));
       (case res1 of
          Inl e \<Rightarrow> (case log_code C ev PluginsReturnCodeParseError ps w1 of (ps', w') \<Rightarrow> Some (Inl e, ps', w'))
        | Inr r \<Rightarrow>
            do {
              let s2 = noticeBegin (nv_clock ev 5) s1;
              let w2 = put_server s2 w1;
              let ps2 = ps\<lparr>ps_exchange := (ps_exchange ps)\<lparr>eo_Transport := TransportDNSCryptUDP\<rparr>\<rparr>;
              (res, encFailed, ps3, w3) \<leftarrow>
                (if proto1 = ''udp'' then udp_exchange C ev query r ps2 s2 w2
                 else map_option (\<lambda>(x, p, w'). (x, False, p, w')) (tcp_exchange C ev r ps2 s2 w2));
              Some (if encFailed
                    then (case log_code C ev PluginsReturnCodeParseError ps3 w3 of (ps', w') \<Rightarrow> (res, ps', w'))
                    else finish_dnscrypt C ev res ps3 w3)
            })
     }"

section \<open>DoH\<close>

text \<open>
  The identifier of the query is zero while it is on its way; the server's copy is restored in the
  response.
\<close>

definition restore_id :: "nat \<Rightarrow> bytes \<Rightarrow> bytes" where
  "restore_id tid response =
     (if length response \<ge> MinDNSPacketSize then SetTransactionID response tid else response)"

text \<open>Without an error the result is the nil response, an empty one.\<close>

definition nil_result :: "exchange_error option \<Rightarrow> exchange_error + bytes" where
  "nil_result err = (case err of None \<Rightarrow> Inr [] | Some e \<Rightarrow> Inl e)"

definition processDoHQuery ::
  "'p proxy_cfg \<Rightarrow> net_events \<Rightarrow> bytes \<Rightarrow> ServerInfo \<Rightarrow> PluginsState \<Rightarrow> 'p world \<Rightarrow> 'p exchange_result" where
  "processDoHQuery C ev query s ps w =
     (let tid = TransactionID query;
          w1 = put_server (noticeBegin (nv_clock ev 5) s) w;
          http = nv_http ev (SetTransactionID query 0);
          ps1 = applyHTTPFetchTrace ps (hr_trace http) False
      in if hr_err http = None \<and> hr_tls http = Some True
         then Some (Inr (restore_id tid (hr_body http)), ps1, w1)
         else case stale_response (pc_L C) ps1 of
                Some stale \<Rightarrow> Some (Inr stale, ps1, w1)
              | None \<Rightarrow>
                  (case log_code C ev PluginsReturnCodeNetworkError ps1 w1 of
                     (ps', w') \<Rightarrow> Some (nil_result (hr_err http), ps', w')))"

section \<open>Oblivious DoH\<close>

text \<open>
  \<^verbatim>\<open>refreshServer\<close>: the information of the server is fetched, its shared key computed and it is installed.
  A server that reports another name is fatal.
\<close>

definition refreshServer ::
  "'p proxy_cfg \<Rightarrow> net_events \<Rightarrow> string \<Rightarrow> ServerStamp \<Rightarrow> 'p world \<Rightarrow> (exchange_error option \<times> 'p world) option" where
  "refreshServer C ev name stamp w =
     (case nv_refetch ev of
        Inl e \<Rightarrow> Some (Some e, w)
      | Inr new \<Rightarrow>
          if si_Name new \<noteq> name then None
          else case recomputeServerSharedKeyLocked (pc_P C) (nv_entropy ev 3) (w_px w) new of
                 Inl _ \<Rightarrow> None
               | Inr new' \<Rightarrow> Some (None, w\<lparr>w_servers := install_server new' stamp (w_servers w)\<rparr>))"

definition refreshODoHKey ::
  "'p proxy_cfg \<Rightarrow> net_events \<Rightarrow> string \<Rightarrow> ServerStamp \<Rightarrow> 'p world \<Rightarrow> (exchange_error option \<times> 'p world) option" where
  "refreshODoHKey C ev name stamp w =
     (case beginODoHRefresh (nv_clock ev 6) name (10 * second) (w_servers w) of
        (claimed, sv) \<Rightarrow>
          if \<not> claimed then Some (None, w\<lparr>w_servers := sv\<rparr>)
          else do {
            (err, w1) \<leftarrow> refreshServer C ev name stamp (w\<lparr>w_servers := sv\<rparr>);
            Some (err, w1\<lparr>w_servers := endODoHRefresh (nv_clock ev 7) name (err = None) (w_servers w1)\<rparr>)
          })"

definition odoh_key_refresh ::
  "'p proxy_cfg \<Rightarrow> net_events \<Rightarrow> http_result \<Rightarrow> ServerInfo \<Rightarrow> 'p world \<Rightarrow>
   (exchange_error option \<times> 'p world) option" where
  "odoh_key_refresh C ev http s w =
     (if hr_code http = 401 \<or> (hr_code http = 200 \<and> hr_body http = [])
      then case find (\<lambda>r. rs_name r = si_Name s) (sv_registeredServers (w_servers w)) of
             None \<Rightarrow> Some (hr_err http, w)
           | Some registered \<Rightarrow>
               do {
                 (refreshErr, w1) \<leftarrow> refreshODoHKey C ev (si_Name s) (rs_stamp registered) w;
                 Some (if refreshErr = None then hr_err http else refreshErr, w1)
               }
      else Some (hr_err http, w))"

definition processODoHQuery ::
  "'p proxy_cfg \<Rightarrow> net_events \<Rightarrow> bytes \<Rightarrow> ServerInfo \<Rightarrow> PluginsState \<Rightarrow> 'p world \<Rightarrow> 'p exchange_result" where
  "processODoHQuery C ev query s ps w =
     (if si_odohTargetConfigs s = [] then Some (Inr [], ps, w)
      else let tid = TransactionID query;
               s1 = noticeBegin (nv_clock ev 5) s;
               w1 = put_server s1 w;
               target = si_odohTargetConfigs s !
                          Intn (nv_odohTarget ev) (length (si_odohTargetConfigs s))
           in do {
                enc \<leftarrow> odoh_outcome (encryptQuery (pc_H C) (nv_odohEntropy ev) target query);
                (case enc of
                   Inl e \<Rightarrow> Some (Inl e, ps, w1)
                 | Inr odohQuery \<Rightarrow>
                     (let http = nv_http ev (oq_odohMessage odohQuery);
                          ps1 = applyHTTPFetchTrace ps (hr_trace http) True
                      in if hr_err http = None \<and> hr_body http \<noteq> [] \<and> hr_code http = 200
                         then do {
                           dec \<leftarrow> odoh_outcome (decryptResponse (pc_H C) odohQuery (hr_body http));
                           Some (map_sum id (restore_id tid) dec, ps1, w1)
                         }
                         else do {
                           (err, w2) \<leftarrow> odoh_key_refresh C ev http s1 w1;
                           (case log_code C ev PluginsReturnCodeNetworkError ps1 w2 of
                              (ps', w') \<Rightarrow> Some (nil_result err, ps', w'))
                         }))
              })"

section \<open>The exchange\<close>

definition dispatch_query ::
  "'p proxy_cfg \<Rightarrow> net_events \<Rightarrow> bytes \<Rightarrow> string \<Rightarrow> ServerInfo \<Rightarrow> PluginsState \<Rightarrow> 'p world \<Rightarrow>
   'p exchange_result" where
  "dispatch_query C ev query serverProto s ps w =
     (if si_Proto s = StampProtoTypeDNSCrypt then processDNSCryptQuery C ev query serverProto s ps w
      else if si_Proto s = StampProtoTypeDoH then processDoHQuery C ev query s ps w
      else if si_Proto s = StampProtoTypeODoHTarget then processODoHQuery C ev query s ps w
      else None)"

text \<open>An unsupported protocol is fatal. A result of \<open>None\<close> inside is the nil response.\<close>

definition handleDNSExchange ::
  "'p proxy_cfg \<Rightarrow> net_events \<Rightarrow> bytes \<Rightarrow> string \<Rightarrow> ServerInfo \<Rightarrow> PluginsState \<Rightarrow> 'p world \<Rightarrow>
   ((exchange_error + bytes option) \<times> PluginsState \<times> 'p world) option" where
  "handleDNSExchange C ev query serverProto s ps0 w =
     (let ps = ps0\<lparr>ps_exchangeStart := nv_clock ev 9\<rparr>
      in do {
        (res, ps1, w1) \<leftarrow>
          dispatch_query C ev query serverProto s ps w;
        (case res of
           Inl e \<Rightarrow> Some (Inl e, ps1, w1)
         | Inr response \<Rightarrow>
             if length response < MinDNSPacketSize \<or> length response > MaxDNSPacketSize
             then (case log_code C ev PluginsReturnCodeParseError ps1 w1 of
                     (ps', w') \<Rightarrow> Some (Inr None, ps', w'))
             else Some (Inr (Some response), ps1, w1))
      })"

section \<open>Plugins on the response\<close>

definition processPlugins ::
  "'p proxy_cfg \<Rightarrow> net_events \<Rightarrow> bytes \<Rightarrow> PluginsState \<Rightarrow> 'p world \<Rightarrow>
   (exchange_error + bytes) \<times> PluginsState \<times> 'p world" where
  "processPlugins C ev response ps w =
     (case ApplyResponsePlugins (pc_L C) (pc_globals C) response (w_plugins w) ps of
        (Inl _, p1, ps1) \<Rightarrow>
          (case log_code C ev PluginsReturnCodeParseError ps1 (w\<lparr>w_plugins := p1\<rparr>) of
             (ps', w') \<Rightarrow> (Inl OtherError, ps', w'))
      | (Inr response1, p1, ps1) \<Rightarrow>
          (let w1 = w\<lparr>w_plugins := p1\<rparr>
           in if ps_action ps1 = PluginsActionDrop
              then (case log_code C ev PluginsReturnCodeDrop ps1 w1 of
                      (ps', w') \<Rightarrow> (Inr response1, ps', w'))
              else case ps_synthResponse ps1 of
                     None \<Rightarrow> (Inr response1, ps1, w1)
                   | Some synth \<Rightarrow>
                       (case handleSynthesizedResponse (pc_L C) ps1 synth of
                          (None, ps2) \<Rightarrow>
                            (case log_query C ev ps2 w1 of (ps', w') \<Rightarrow> (Inl OtherError, ps', w'))
                        | (Some response2, ps2) \<Rightarrow> (Inr response2, ps2, w1))))"

section \<open>The reply\<close>

definition size_code :: "bytes \<Rightarrow> PluginsReturnCode" where
  "size_code response =
     (if response = [] then PluginsReturnCodeNotReady else PluginsReturnCodeParseError)"

definition adjust_estimator :: "bytes \<Rightarrow> QuestionSizeEstimator \<Rightarrow> QuestionSizeEstimator" where
  "adjust_estimator response e =
     (if HasTCFlag response then blindAdjust e
      else adjust (int ResponseOverhead + int (length response)) e)"

definition send_udp :: "bytes \<Rightarrow> 'p world \<Rightarrow> 'p world" where
  "send_udp response w =
     w\<lparr>w_replies := w_replies w @ [response],
       w_px := (w_px w)\<lparr>px_questionSizeEstimator :=
                 adjust_estimator response (px_questionSizeEstimator (w_px w))\<rparr>\<rparr>"

definition sendResponse ::
  "'p proxy_cfg \<Rightarrow> net_events \<Rightarrow> bytes \<Rightarrow> string \<Rightarrow> bool \<Rightarrow> PluginsState \<Rightarrow> 'p world \<Rightarrow>
   PluginsState \<times> 'p world" where
  "sendResponse C ev response clientProto hasConn ps w =
     (if length response < MinDNSPacketSize \<or> length response > MaxDNSPacketSize
      then log_code C ev (size_code response) ps w
      else if clientProto = ''udp''
      then if int (length response) > ps_maxUnencryptedUDPSafePayloadSize ps
           then case TruncatedResponse (pc_L C) response of
                  None \<Rightarrow> log_code C ev PluginsReturnCodeParseError ps w
                | Some truncated \<Rightarrow>
                    (ps\<lparr>ps_exchange := (ps_exchange ps)\<lparr>eo_LocalTruncated := True\<rparr>\<rparr>,
                     send_udp truncated w)
           else (ps, send_udp response w)
      else if clientProto = ''tcp''
      then case PrefixWithSize response of
             Inl _ \<Rightarrow> log_code C ev PluginsReturnCodeParseError ps w
           | Inr framed \<Rightarrow> (ps, if hasConn then w\<lparr>w_replies := w_replies w @ [framed]\<rparr> else w)
      else (ps, w))"

definition updateMonitoringMetrics :: "'p proxy_cfg \<Rightarrow> PluginsState \<Rightarrow> 'p world \<Rightarrow> 'p world" where
  "updateMonitoringMetrics C ps w =
     (if pc_monitoring C \<and> ps_questionMsg ps \<noteq> None
      then w\<lparr>w_monitored := w_monitored w @ [ps]\<rparr> else w)"

section \<open>The whole query\<close>

text \<open>
  The variables that the closure of \<open>processIncomingQuery\<close> captures: the selected server and the server
  set, \<open>None\<close> once the selection does not return.
\<close>

type_synonym captured = "ServerInfo option \<times> ServersInfo option"

definition needs_padding :: "ServerInfo \<Rightarrow> bool" where
  "needs_padding s \<longleftrightarrow> si_Proto s = StampProtoTypeDoH \<or> si_Proto s = StampProtoTypeTLS"

definition get_server :: "net_events \<Rightarrow> captured \<Rightarrow> captured" where
  "get_server ev v =
     (case v of
        (None, Some sv) \<Rightarrow>
          (case getOne (nv_clock ev 10) (nv_draws ev) sv of
             None \<Rightarrow> (None, None) | Some (s, sv') \<Rightarrow> (s, Some sv'))
      | _ \<Rightarrow> v)"

definition getServerInfo :: "net_events \<Rightarrow> captured \<Rightarrow> bool \<times> captured" where
  "getServerInfo ev v =
     (let v' = get_server ev v
      in ((case fst v' of None \<Rightarrow> False | Some s \<Rightarrow> needs_padding s), v'))"

text \<open>The deferred feedback.\<close>

definition feedback ::
  "'p proxy_cfg \<Rightarrow> net_events \<Rightarrow> ServerInfo option \<Rightarrow> bytes \<Rightarrow> exchange_error option \<Rightarrow> PluginsState \<Rightarrow>
   'p world \<Rightarrow> bytes \<times> 'p world" where
  "feedback C ev server response queryErr ps w =
     (response,
      if server \<noteq> None \<and> \<not> time_is_zero (ps_exchangeStart ps)
      then w\<lparr>w_servers := observeOutcome (pc_L C) (qc_timeout (pc_query C)) (nv_clock ev 11) ps response
                queryErr (w_servers w)\<rparr>
      else w)"

text \<open>Validation of the size of the response, the reply, the log and the monitoring.\<close>

definition reply_step ::
  "'p proxy_cfg \<Rightarrow> net_events \<Rightarrow> ServerInfo option \<Rightarrow> string \<Rightarrow> bool \<Rightarrow> bytes \<Rightarrow> PluginsState \<Rightarrow> 'p world \<Rightarrow>
   bytes \<times> 'p world" where
  "reply_step C ev server clientProto hasConn response ps w =
     (if length response < MinDNSPacketSize \<or> length response > MaxDNSPacketSize
      then case log_code C ev (size_code response) ps w of
             (ps', w') \<Rightarrow> feedback C ev server response (Some OtherError) ps' w'
      else case sendResponse C ev response clientProto hasConn ps w of
             (ps1, w1) \<Rightarrow>
               (case log_query C ev ps1 w1 of
                  (ps2, w2) \<Rightarrow>
                    feedback C ev server response None ps2 (updateMonitoringMetrics C ps2 w2)))"

definition ask_server ::
  "'p proxy_cfg \<Rightarrow> net_events \<Rightarrow> bytes \<Rightarrow> string \<Rightarrow> string \<Rightarrow> bool \<Rightarrow> captured \<Rightarrow> PluginsState \<Rightarrow> 'p world \<Rightarrow>
   (bytes \<times> 'p world) option" where
  "ask_server C ev query clientProto serverProto hasConn v ps w =
     (case get_server ev v of
        (_, None) \<Rightarrow> None
      | (None, Some sv) \<Rightarrow> Some (reply_step C ev None clientProto hasConn [] ps (w\<lparr>w_servers := sv\<rparr>))
      | (Some s, Some sv) \<Rightarrow>
          (let ps1 = ps\<lparr>ps_serverName := si_Name s,
                        ps_relayName := (case si_Relay s of None \<Rightarrow> ps_relayName ps | Some r \<Rightarrow> rl_Name r)\<rparr>
           in do {
                (res, ps2, w2) \<leftarrow> handleDNSExchange C ev query serverProto s ps1 (w\<lparr>w_servers := sv\<rparr>);
                (case res of
                   Inl e \<Rightarrow> Some (feedback C ev (Some s) [] (Some e) ps2 w2)
                 | Inr None \<Rightarrow> Some (feedback C ev (Some s) [] None ps2 w2)
                 | Inr (Some response) \<Rightarrow>
                     (case processPlugins C ev response ps2 w2 of
                        (Inl e, ps3, w3) \<Rightarrow> Some (feedback C ev (Some s) [] (Some e) ps3 w3)
                      | (Inr response1, ps3, w3) \<Rightarrow>
                          Some (reply_step C ev (Some s) clientProto hasConn response1 ps3 w3)))
              }))"

text \<open>What follows the query plugins: their verdict, a synthesized response or the exchange.\<close>

definition answer_query ::
  "'p proxy_cfg \<Rightarrow> net_events \<Rightarrow> bytes \<Rightarrow> string \<Rightarrow> string \<Rightarrow> bool \<Rightarrow> bool \<Rightarrow> ServerInfo option \<Rightarrow> PluginsState \<Rightarrow>
   'p world \<Rightarrow> (bytes \<times> 'p world) option" where
  "answer_query C ev query clientProto serverProto hasConn onlyCached server ps w =
     (if \<not> validateQuery query then Some (feedback C ev server [] None ps w)
      else if ps_action ps = PluginsActionDrop
      then (case log_code C ev PluginsReturnCodeDrop ps w of
              (ps', w') \<Rightarrow> Some (feedback C ev server [] None ps' w'))
      else case (case ps_synthResponse ps of
                   None \<Rightarrow> (Some [], ps)
                 | Some synth \<Rightarrow> handleSynthesizedResponse (pc_L C) ps synth) of
             (None, ps2) \<Rightarrow> Some (feedback C ev server [] None ps2 w)
           | (Some response, ps2) \<Rightarrow>
               if response \<noteq> []
               then Some (reply_step C ev (if onlyCached then None else server) clientProto hasConn
                            response ps2 w)
               else if onlyCached then Some (feedback C ev server [] None ps2 w)
               else ask_server C ev query clientProto serverProto hasConn (server, Some (w_servers w)) ps2 w)"

definition processIncomingQuery ::
  "'p proxy_cfg \<Rightarrow> net_events \<Rightarrow> string \<Rightarrow> string \<Rightarrow> bytes \<Rightarrow> bytes option \<Rightarrow> bool \<Rightarrow> go_time \<Rightarrow> bool \<Rightarrow>
   'p world \<Rightarrow> (bytes \<times> 'p world) option" where
  "processIncomingQuery C ev clientProto serverProto query clientAddr hasConn start onlyCached w =
     (if \<not> validateQuery query then Some ([], w)
      else case ApplyQueryPlugins (pc_L C) (pc_globals C) (Some (getServerInfo ev)) query
                  (None, Some (w_servers w)) (w_plugins w)
                  (NewPluginsState (pc_query C) clientProto clientAddr serverProto start) of
             (res, (server, servers), p, ps) \<Rightarrow>
               (case servers of
                  None \<Rightarrow> None
                | Some sv \<Rightarrow>
                    (let w1 = w\<lparr>w_servers := sv, w_plugins := p\<rparr>
                     in case res of
                          Inl _ \<Rightarrow>
                            (case log_code C ev PluginsReturnCodeDrop (ps\<lparr>ps_action := PluginsActionDrop\<rparr>) w1 of
                               (ps', w') \<Rightarrow> Some (feedback C ev server [] None ps' w'))
                        | Inr query1 \<Rightarrow>
                            answer_query C ev query1 clientProto serverProto hasConn onlyCached server ps w1)))"

end
