(* ===== verification/Query_Props.thy ===== *)
theory Query_Props
  imports Query
begin

text \<open>
  What holds of a whole query: the replies that clients get, the sockets, and the server set after
  \<open>processIncomingQuery\<close>.
\<close>

section \<open>What the steps leave alone\<close>

lemma put_server_fields [simp]:
  "w_replies (put_server s w) = w_replies w" "w_udp (put_server s w) = w_udp w"
  "w_plugins (put_server s w) = w_plugins w" "w_wire (put_server s w) = w_wire w"
  by (simp_all add: put_server_def)

lemma log_query_frame:
  assumes "log_query C ev ps w = (ps', w')"
  shows "w_replies w' = w_replies w" "w_udp w' = w_udp w" "w_servers w' = w_servers w" "w_wire w' = w_wire w"
  using assms by (auto simp: log_query_def split: prod.splits)

lemma log_query_identity:
  assumes "plugins_ok (pc_globals C)" "log_query C ev ps w = (ps', w')"
  shows "ps_identity ps' = ps_identity ps"
  using assms ApplyLoggingPlugins_identity[OF assms(1)] by (auto simp: log_query_def split: prod.splits)

lemma log_code_frame:
  assumes "log_code C ev code ps w = (ps', w')"
  shows "w_replies w' = w_replies w" "w_udp w' = w_udp w" "w_servers w' = w_servers w" "w_wire w' = w_wire w"
  using log_query_frame[OF assms[unfolded log_code_def]] by simp_all

lemma log_code_identity:
  assumes "plugins_ok (pc_globals C)" "log_code C ev code ps w = (ps', w')"
  shows "ps_identity ps' = ps_identity ps"
  using log_query_identity[OF assms(1) assms(2)[unfolded log_code_def]] by simp

lemma log_code_all:
  assumes "plugins_ok (pc_globals C)" "log_code C ev code ps w = (ps', w')"
  shows "w_replies w' = w_replies w \<and> w_udp w' = w_udp w \<and> w_servers w' = w_servers w \<and>
    ps_identity ps' = ps_identity ps"
  using log_code_frame[OF assms(2)] log_code_identity[OF assms] by simp

lemma decrypt_step_replies:
  "decrypt_step C ev r response s w = Some (x, s', w') \<Longrightarrow> w_replies w' = w_replies w \<and> w_udp w' = w_udp w"
  by (auto simp: decrypt_step_def split: prod.splits)

lemma encrypt_step_replies:
  "encrypt_step C ev k query proto s w = Some (x, s', w') \<Longrightarrow> w_replies w' = w_replies w \<and> w_udp w' = w_udp w"
  by (auto simp: encrypt_step_def split: prod.splits)

lemma exchangeWithUDPServer_replies:
  assumes "exchangeWithUDPServer C ev r s w = Some (x, b, s', w')"
  shows "w_replies w' = w_replies w"
  using assms
  by (auto simp: exchangeWithUDPServer_def exchangeWithUDPServerViaProxy_def Let_def
      dest!: decrypt_step_replies split: if_splits prod.splits sum.splits option.splits)

lemma exchangeWithTCPServer_replies:
  assumes "exchangeWithTCPServer C ev r s w = Some (x, s', w')"
  shows "w_replies w' = w_replies w \<and> w_udp w' = w_udp w"
  using assms
  by (auto simp: exchangeWithTCPServer_def Let_def
      dest!: decrypt_step_replies split: if_splits prod.splits sum.splits option.splits)

lemma tcp_exchange_frame:
  assumes "tcp_exchange C ev r ps s w = Some (x, ps', w')"
  shows "w_replies w' = w_replies w \<and> w_udp w' = w_udp w \<and> ps_identity ps' = ps_identity ps"
  using assms by (auto simp: tcp_exchange_def dest!: exchangeWithTCPServer_replies)

lemma note_identity [simp]:
  "ps_identity (note_udp b res ps) = ps_identity ps" "ps_identity (note_fallback ps) = ps_identity ps"
  by (simp_all add: note_udp_def note_fallback_def)

lemma retry_tcp_frame:
  assumes "retry_tcp C ev query ps s w = Some (x, b, ps', w')"
  shows "w_replies w' = w_replies w \<and> w_udp w' = w_udp w \<and> ps_identity ps' = ps_identity ps"
proof -
  obtain enc s2 w2 where e: "encrypt_step C ev 2 query ''tcp'' s w = Some (enc, s2, w2)"
    using assms by (auto simp: retry_tcp_def bind_eq_Some_conv)
  show ?thesis
    using assms e encrypt_step_replies[OF e]
    by (cases enc) (auto simp: retry_tcp_def dest!: tcp_exchange_frame)
qed

lemma udp_exchange_frame:
  assumes "udp_exchange C ev query r ps s w = Some (x, b, ps', w')"
  shows "w_replies w' = w_replies w \<and> ps_identity ps' = ps_identity ps"
  using assms
  by (auto simp: udp_exchange_def bind_eq_Some_conv dest!: exchangeWithUDPServer_replies retry_tcp_frame
      split: if_splits)

lemma finish_dnscrypt_frame:
  assumes "plugins_ok (pc_globals C)" "finish_dnscrypt C ev res ps w = (x, ps', w')"
  shows "w_replies w' = w_replies w \<and> w_udp w' = w_udp w \<and> w_servers w' = w_servers w \<and>
    ps_identity ps' = ps_identity ps"
  using assms
  by (auto simp: finish_dnscrypt_def dest: log_code_frame log_code_identity
      split: sum.splits option.splits prod.splits)

lemma processDNSCryptQuery_frame:
  assumes ok: "plugins_ok (pc_globals C)"
    and run: "processDNSCryptQuery C ev query proto s ps w = Some (x, ps', w')"
  shows "w_replies w' = w_replies w \<and> ps_identity ps' = ps_identity ps"
proof -
  obtain res0 s0 w0 where 0: "encrypt_step C ev 0 query proto s w = Some (res0, s0, w0)"
    using run by (auto simp: processDNSCryptQuery_def bind_eq_Some_conv)
  obtain res1 proto1 s1 w1 where 1: "(if isl res0 \<and> proto = ''udp''
          then map_option (\<lambda>(x, s', w'). (x, ''tcp'', s', w')) (encrypt_step C ev 1 query ''tcp'' s0 w0)
          else Some (res0, proto, s0, w0)) = Some (res1, proto1, s1, w1)"
    using run 0 by (auto simp: processDNSCryptQuery_def bind_eq_Some_conv)
  have r1: "w_replies w1 = w_replies w"
    using 1 encrypt_step_replies[OF 0] by (auto dest!: encrypt_step_replies split: if_split_asm)
  show ?thesis
  proof (cases res1)
    case (Inl e)
    then show ?thesis
      using run 0 1 r1
      by (auto simp: processDNSCryptQuery_def dest!: log_code_all[OF ok] split: prod.split_asm)
  next
    case (Inr r)
    let ?s2 = "noticeBegin (nv_clock ev 5) s1"
    let ?ps2 = "ps\<lparr>ps_exchange := (ps_exchange ps)\<lparr>eo_Transport := TransportDNSCryptUDP\<rparr>\<rparr>"
    obtain res b ps3 w3 where 3: "(if proto1 = ''udp'' then udp_exchange C ev query r ?ps2 ?s2 (put_server ?s2 w1)
        else map_option (\<lambda>(x, p, w'). (x, False, p, w')) (tcp_exchange C ev r ?ps2 ?s2 (put_server ?s2 w1)))
        = Some (res, b, ps3, w3)"
      and out: "(if b then (case log_code C ev PluginsReturnCodeParseError ps3 w3 of (ps', w') \<Rightarrow> (res, ps', w'))
        else finish_dnscrypt C ev res ps3 w3) = (x, ps', w')"
      using run 0 1 Inr unfolding processDNSCryptQuery_def by (auto simp: bind_eq_Some_conv Let_def)
    have "w_replies w3 = w_replies w1 \<and> ps_identity ps3 = ps_identity ps"
      using 3 by (auto dest!: udp_exchange_frame tcp_exchange_frame split: if_split_asm)
    then show ?thesis
      using out r1
      by (auto dest!: log_code_all[OF ok] finish_dnscrypt_frame[OF ok] split: if_split_asm prod.split_asm)
  qed
qed

lemma applyHTTPFetchTrace_identity [simp]: "ps_identity (applyHTTPFetchTrace ps ft odoh) = ps_identity ps"
  by (simp add: applyHTTPFetchTrace_def split: option.split)

lemma processDoHQuery_frame:
  assumes "plugins_ok (pc_globals C)" "processDoHQuery C ev query s ps w = Some (x, ps', w')"
  shows "w_replies w' = w_replies w \<and> w_udp w' = w_udp w \<and> ps_identity ps' = ps_identity ps"
  using assms(2)
  by (auto simp: processDoHQuery_def Let_def dest!: log_code_all[OF assms(1)]
      split: if_split_asm option.split_asm prod.split_asm)

lemma refreshServer_frame:
  "refreshServer C ev name stamp w = Some (err, w') \<Longrightarrow> w_replies w' = w_replies w \<and> w_udp w' = w_udp w"
  by (auto simp: refreshServer_def split: sum.split_asm if_split_asm)

lemma refreshODoHKey_frame:
  assumes "refreshODoHKey C ev name stamp w = Some (err, w')"
  shows "w_replies w' = w_replies w \<and> w_udp w' = w_udp w"
  using assms
  by (auto simp: refreshODoHKey_def bind_eq_Some_conv dest!: refreshServer_frame
      split: prod.split_asm if_split_asm)

lemma odoh_key_refresh_frame:
  assumes "odoh_key_refresh C ev http s w = Some (err, w')"
  shows "w_replies w' = w_replies w \<and> w_udp w' = w_udp w"
  using assms
  by (auto simp: odoh_key_refresh_def bind_eq_Some_conv dest!: refreshODoHKey_frame
      split: option.split_asm if_split_asm)

lemma processODoHQuery_frame:
  assumes "plugins_ok (pc_globals C)" "processODoHQuery C ev query s ps w = Some (x, ps', w')"
  shows "w_replies w' = w_replies w \<and> w_udp w' = w_udp w \<and> ps_identity ps' = ps_identity ps"
proof (cases "si_odohTargetConfigs s = []")
  case True
  then show ?thesis using assms(2) by (simp add: processODoHQuery_def)
next
  case False
  let ?target = "si_odohTargetConfigs s ! Intn (nv_odohTarget ev) (length (si_odohTargetConfigs s))"
  obtain enc where e: "odoh_outcome (encryptQuery (pc_H C) (nv_odohEntropy ev) ?target query) = Some enc"
    using assms(2) False by (auto simp: processODoHQuery_def Let_def bind_eq_Some_conv)
  show ?thesis
  proof (cases enc)
    case (Inl a)
    then show ?thesis using assms(2) False e by (auto simp: processODoHQuery_def Let_def)
  next
    case (Inr q)
    show ?thesis
      using assms(2) False e Inr
      by (auto simp: processODoHQuery_def Let_def bind_eq_Some_conv
          dest!: log_code_all[OF assms(1)] odoh_key_refresh_frame
          split: if_split_asm prod.split_asm sum.split_asm)
  qed
qed

lemma dispatch_query_frame:
  assumes "plugins_ok (pc_globals C)" "dispatch_query C ev query proto s ps w = Some (x, ps', w')"
  shows "w_replies w' = w_replies w \<and> ps_identity ps' = ps_identity ps"
  using assms processDNSCryptQuery_frame processDoHQuery_frame processODoHQuery_frame
  unfolding dispatch_query_def by (metis option.distinct(1))

lemma handleDNSExchange_frame:
  assumes ok: "plugins_ok (pc_globals C)"
    and run: "handleDNSExchange C ev query proto s ps w = Some (x, ps', w')"
  shows "w_replies w' = w_replies w \<and> ps_identity ps' = ps_identity ps"
proof -
  let ?ps = "ps\<lparr>ps_exchangeStart := nv_clock ev 9\<rparr>"
  obtain res ps1 w1 where 1: "dispatch_query C ev query proto s ?ps w = Some (res, ps1, w1)"
    using run by (auto simp: handleDNSExchange_def Let_def bind_eq_Some_conv)
  have f: "w_replies w1 = w_replies w \<and> ps_identity ps1 = ps_identity ps"
    using dispatch_query_frame[OF ok 1] by simp
  show ?thesis
    using run f 1 unfolding handleDNSExchange_def Let_def
    by (cases res) (auto dest!: log_code_all[OF ok] split: if_split_asm prod.split_asm)
qed

section \<open>Replies\<close>

text \<open>A reply is the packet, its truncation or the packet behind its length.\<close>

definition reply_of :: "dns_lib \<Rightarrow> bytes \<Rightarrow> bytes \<Rightarrow> bool" where
  "reply_of L packet r \<longleftrightarrow>
     r = packet \<or> TruncatedResponse L packet = Some r \<or> PrefixWithSize packet = Inr r"

definition answered :: "dns_lib \<Rightarrow> Msg option \<Rightarrow> bytes \<Rightarrow> bool" where
  "answered L q packet \<longleftrightarrow>
     (\<exists>m. validateResponseForQuery L q (Some m) = None \<and> dl_Pack L m = Some packet)"

lemma answered_identity: "map_option identity a = map_option identity b \<Longrightarrow> answered L a p = answered L b p"
  by (simp add: answered_def validate_identity[of a b])

lemma sendResponse_replies:
  assumes "sendResponse C ev response proto hasConn ps w = (ps', w')"
  shows "w_replies w' = w_replies w \<or> (\<exists>r. w_replies w' = w_replies w @ [r] \<and> reply_of (pc_L C) response r)"
  using assms
  by (auto simp: sendResponse_def send_udp_def reply_of_def dest: log_code_frame(1)
      split: if_split_asm option.split_asm sum.split_asm)

lemma feedback_frame [simp]:
  "w_replies (snd (feedback C ev server response err ps w)) = w_replies w"
  "w_udp (snd (feedback C ev server response err ps w)) = w_udp w"
  by (simp_all add: feedback_def)

lemma updateMonitoringMetrics_frame [simp]:
  "w_replies (updateMonitoringMetrics C ps w) = w_replies w"
  "w_udp (updateMonitoringMetrics C ps w) = w_udp w"
  "w_servers (updateMonitoringMetrics C ps w) = w_servers w"
  by (simp_all add: updateMonitoringMetrics_def)

lemma reply_step_replies:
  assumes "reply_step C ev server proto hasConn response ps w = (x, w')"
  shows "w_replies w' = w_replies w \<or> (\<exists>r. w_replies w' = w_replies w @ [r] \<and> reply_of (pc_L C) response r)"
proof (cases "length response < MinDNSPacketSize \<or> length response > MaxDNSPacketSize")
  case True
  obtain ps1 w1 where l: "log_code C ev (size_code response) ps w = (ps1, w1)" by fastforce
  have "w' = snd (feedback C ev server response (Some OtherError) ps1 w1)"
    using assms True l by (simp add: reply_step_def)
  then show ?thesis using log_code_frame(1)[OF l] by simp
next
  case False
  obtain ps1 w1 where s: "sendResponse C ev response proto hasConn ps w = (ps1, w1)" by fastforce
  obtain ps2 w2 where l: "log_query C ev ps1 w1 = (ps2, w2)" by fastforce
  have "w' = snd (feedback C ev server response None ps2 (updateMonitoringMetrics C ps2 w2))"
    using assms False s l by (simp add: reply_step_def)
  then show ?thesis using sendResponse_replies[OF s] log_query_frame(1)[OF l] by simp
qed

lemma handleSynthesizedResponse_answered:
  assumes "handleSynthesizedResponse L ps synth = (Some packet, ps')"
  shows "ps' = ps \<and> answered L (ps_questionMsg ps) packet"
  using assms by (auto simp: handleSynthesizedResponse_def answered_def split: if_split_asm option.split_asm)

lemma processPlugins_replies:
  assumes "processPlugins C ev response ps w = (x, ps', w')"
  shows "w_replies w' = w_replies w"
  using assms
  by (auto simp: processPlugins_def Let_def dest!: log_code_frame(1) log_query_frame(1)
      split: prod.split_asm if_split_asm option.split_asm sum.split_asm)

lemma processPlugins_answered:
  assumes ok: "plugins_ok (pc_globals C)" and run: "processPlugins C ev response ps w = (Inr out, ps', w')"
  shows "w_replies w' = w_replies w \<and> answered (pc_L C) (ps_questionMsg ps) out"
proof -
  obtain res p1 ps1 where a: "ApplyResponsePlugins (pc_L C) (pc_globals C) response (w_plugins w) ps = (res, p1, ps1)"
    by (metis prod_cases3)
  show ?thesis
  proof (cases res)
    case (Inl e)
    then show ?thesis using run a by (auto simp: processPlugins_def split: prod.split_asm)
  next
    case (Inr r1)
    have i: "ps_identity ps1 = ps_identity ps" and v: "answered (pc_L C) (ps_questionMsg ps) r1"
      using ApplyResponsePlugins_valid[OF ok] a Inr by (auto simp: answered_def)
    have eq: "answered (pc_L C) (ps_questionMsg ps1) p = answered (pc_L C) (ps_questionMsg ps) p" for p
      by (rule answered_identity[OF i[unfolded ps_identity_def]])
    show ?thesis
      using run a Inr v eq
      by (auto simp: processPlugins_def Let_def
          dest!: log_code_frame(1) log_query_frame(1) handleSynthesizedResponse_answered
          split: prod.split_asm if_split_asm option.split_asm)
  qed
qed

text \<open>At most one reply, and it answers the query \<open>q\<close>.\<close>

definition replies_ok :: "dns_lib \<Rightarrow> Msg option \<Rightarrow> bytes list \<Rightarrow> bytes list \<Rightarrow> bool" where
  "replies_ok L q before after \<longleftrightarrow>
     after = before \<or> (\<exists>packet r. after = before @ [r] \<and> reply_of L packet r \<and> answered L q packet)"

lemma reply_step_ok:
  assumes "reply_step C ev server proto hasConn response ps w = (x, w')"
    and "answered (pc_L C) q response \<or> response = []"
  shows "replies_ok (pc_L C) q (w_replies w) (w_replies w')"
proof (cases "response = []")
  case True
  then have "w_replies w' = w_replies w"
    using assms(1)
    by (auto simp: reply_step_def feedback_def MinDNSPacketSize_def dest: log_code_frame(1) split: prod.split_asm)
  then show ?thesis by (simp add: replies_ok_def)
next
  case False
  then show ?thesis using reply_step_replies[OF assms(1)] assms(2) by (auto simp: replies_ok_def)
qed

lemma ask_server_ok:
  assumes ok: "plugins_ok (pc_globals C)"
    and run: "ask_server C ev query cproto sproto hasConn v ps w = Some (x, w')"
  shows "replies_ok (pc_L C) (ps_questionMsg ps) (w_replies w) (w_replies w')"
proof -
  obtain server sv where g: "get_server ev v = (server, Some sv)"
    using run by (auto simp: ask_server_def split: prod.split_asm option.split_asm)
  show ?thesis
  proof (cases server)
    case None
    then have "reply_step C ev None cproto hasConn [] ps (w\<lparr>w_servers := sv\<rparr>) = (x, w')"
      using run g by (simp add: ask_server_def)
    then show ?thesis using reply_step_ok by fastforce
  next
    case (Some s)
    define ps1 where "ps1 = ps\<lparr>ps_serverName := si_Name s,
        ps_relayName := (case si_Relay s of None \<Rightarrow> ps_relayName ps | Some r \<Rightarrow> rl_Name r)\<rparr>"
    obtain res ps2 w2 where h: "handleDNSExchange C ev query sproto s ps1 (w\<lparr>w_servers := sv\<rparr>) = Some (res, ps2, w2)"
      using run g Some by (auto simp: ask_server_def ps1_def Let_def bind_eq_Some_conv)
    have f: "w_replies w2 = w_replies w" "ps_identity ps2 = ps_identity ps"
      using handleDNSExchange_frame[OF ok h] by (simp_all add: ps1_def)
    note run' = run[unfolded ask_server_def g Some prod.case option.case Let_def, folded ps1_def, unfolded h]
    show ?thesis
    proof (cases "\<exists>response. res = Inr (Some response)")
      case False
      then have "w_replies w' = w_replies w2"
        using run' by (cases res) (auto simp: feedback_def split: option.split_asm)
      then show ?thesis using f by (simp add: replies_ok_def)
    next
      case True
      then obtain response where r: "res = Inr (Some response)" by blast
      obtain res3 ps3 w3 where p: "processPlugins C ev response ps2 w2 = (res3, ps3, w3)" by (metis prod_cases3)
      show ?thesis
      proof (cases res3)
        case (Inl e)
        then have "w_replies w' = w_replies w3" using run' r p by (auto simp: feedback_def)
        moreover have "w_replies w3 = w_replies w2" using processPlugins_replies[OF p] .
        ultimately show ?thesis using f by (simp add: replies_ok_def)
      next
        case (Inr out)
        have a: "w_replies w3 = w_replies w2" "answered (pc_L C) (ps_questionMsg ps) out"
          using processPlugins_answered[OF ok p[unfolded Inr]]
            answered_identity[OF f(2)[unfolded ps_identity_def]] by simp_all
        have "reply_step C ev (Some s) cproto hasConn out ps3 w3 = (x, w')"
          using run' r p Inr by simp
        then show ?thesis using reply_step_ok a f(1) by fastforce
      qed
    qed
  qed
qed

lemma answer_query_ok:
  assumes ok: "plugins_ok (pc_globals C)"
    and run: "answer_query C ev query cproto sproto hasConn onlyCached server ps w = Some (x, w')"
  shows "replies_ok (pc_L C) (ps_questionMsg ps) (w_replies w) (w_replies w')"
proof -
  define synth where "synth = (case ps_synthResponse ps of
      None \<Rightarrow> (Some [], ps) | Some synth \<Rightarrow> handleSynthesizedResponse (pc_L C) ps synth)"
  have s: "ps2 = ps \<and> (response = [] \<or> answered (pc_L C) (ps_questionMsg ps) response)"
    if "synth = (Some response, ps2)" for response ps2
    using that handleSynthesizedResponse_answered by (auto simp: synth_def split: option.split_asm)
  show ?thesis
  proof (cases "validateQuery query \<and> ps_action ps \<noteq> PluginsActionDrop \<and> (\<exists>response. fst synth = Some response)")
    case False
    then show ?thesis
      using run unfolding answer_query_def synth_def[symmetric]
      by (auto simp: replies_ok_def feedback_def dest!: log_code_frame(1)
          split: if_split_asm prod.split_asm option.split_asm)
  next
    case True
    then obtain response where r: "synth = (Some response, ps)" using s by (metis prod.collapse)
    have run': "(if response \<noteq> []
               then Some (reply_step C ev (if onlyCached then None else server) cproto hasConn response ps w)
               else if onlyCached then Some (feedback C ev server [] None ps w)
               else ask_server C ev query cproto sproto hasConn (server, Some (w_servers w)) ps w) = Some (x, w')"
      using run True r unfolding answer_query_def synth_def[symmetric] by simp
    show ?thesis
    proof (cases "response = []")
      case True
      show ?thesis
      proof (cases onlyCached)
        case c: True
        then show ?thesis using run' True by (auto simp: feedback_def replies_ok_def)
      next
        case False
        then show ?thesis using run' True by (intro ask_server_ok[OF ok]) simp
      qed
    next
      case False
      then have "reply_step C ev (if onlyCached then None else server) cproto hasConn response ps w = (x, w')"
        using run' by simp
      then show ?thesis using reply_step_ok s[OF r] by blast
    qed
  qed
qed

text \<open>
  C1. Replies. Whatever the servers, the network and the plugins do, processing one query of a client sends
  at most one reply, and a reply is made from a message that is a response with the identifier and the
  question (name, type and class) of the client's query: the packed message, its truncation, or the packed
  message behind its length. Only the plugins have to leave the identifier and the question alone.
\<close>

theorem replies_answer_query:
  assumes ok: "plugins_ok (pc_globals C)"
    and run: "processIncomingQuery C ev cproto sproto query clientAddr hasConn start onlyCached w = Some (x, w')"
  shows "replies_ok (pc_L C) (dl_Unpack (pc_L C) query) (w_replies w) (w_replies w')"
proof -
  let ?ps0 = "NewPluginsState (pc_query C) cproto clientAddr sproto start"
  obtain res server svo p ps where a: "ApplyQueryPlugins (pc_L C) (pc_globals C) (Some (getServerInfo ev)) query
      (None, Some (w_servers w)) (w_plugins w) ?ps0 = (res, (server, svo), p, ps)"
    by (metis prod.exhaust)
  show ?thesis
  proof (cases "validateQuery query \<and> (\<exists>query1. res = Inr query1)")
    case False
    then show ?thesis
      using run a
      by (auto simp: processIncomingQuery_def Let_def replies_ok_def feedback_def dest!: log_code_frame(1)
          split: if_split_asm option.split_asm sum.split_asm prod.split_asm)
  next
    case True
    then obtain query1 where q1: "res = Inr query1" by blast
    obtain msg where m: "dl_Unpack (pc_L C) query = Some msg" "ps_identity ps = Some (identity msg)"
      using ApplyQueryPlugins_identity[OF ok] a q1 by fast
    obtain sv where sv: "svo = Some sv" using run a True by (cases svo) (auto simp: processIncomingQuery_def)
    have "answer_query C ev query1 cproto sproto hasConn onlyCached server ps
        (w\<lparr>w_servers := sv, w_plugins := p\<rparr>) = Some (x, w')"
      using run a True q1 sv by (simp add: processIncomingQuery_def)
    then have "replies_ok (pc_L C) (ps_questionMsg ps) (w_replies w) (w_replies w')"
      using answer_query_ok[OF ok] by fastforce
    then show ?thesis
      using answered_identity[of "ps_questionMsg ps" "Some msg"] m
      by (simp add: replies_ok_def ps_identity_def)
  qed
qed

section \<open>Servers and sockets\<close>

text \<open>
  The invariant of the state: that of the server set and that of the sockets, with the sockets that
  others hold meanwhile.
\<close>

definition world_ok :: "conn list \<Rightarrow> 'p world \<Rightarrow> bool" where
  "world_ok held w \<longleftrightarrow> servers_inv (w_servers w) \<and> pool_sys_inv (w_udp w) \<and> sys_held (w_udp w) = held"

text \<open>A socket that is dialled is not one of the open ones; a fetched server has not been used yet.\<close>

definition events_ok :: "net_events \<Rightarrow> 'p world \<Rightarrow> bool" where
  "events_ok ev w \<longleftrightarrow> (\<forall>c. nv_dial ev = Inr c \<longrightarrow> c \<notin> set (sys_open (w_udp w))) \<and>
     (\<forall>s. nv_refetch ev = Inr s \<longrightarrow> si_totalQueries s = 0 \<and> si_failedQueries s = 0)"

lemma world_ok_cong:
  "w_servers w' = w_servers w \<Longrightarrow> w_udp w' = w_udp w \<Longrightarrow> world_ok held w' = world_ok held w"
  by (simp add: world_ok_def)

lemma events_ok_cong: "w_udp w' = w_udp w \<Longrightarrow> events_ok ev w' = events_ok ev w"
  by (simp add: events_ok_def)

lemma counters_ok_pqSession [simp]: "counters_ok (s\<lparr>si_pqSession := x\<rparr>) = counters_ok s"
  by (simp add: counters_ok_def)

lemma counters_ok_noticeBegin [simp]: "counters_ok (noticeBegin now s) = counters_ok s"
  by (simp add: counters_ok_def noticeBegin_def)

lemma encryptPQ_counters: "counters_ok (snd (encryptPQ P px en now s packet proto)) = counters_ok s"
  by (simp add: encryptPQ_def Let_def split: option.split prod.split sum.split)

lemma Encrypt_counters:
  assumes "Encrypt P px en now s packet proto = (r, s')" "counters_ok s"
  shows "counters_ok s'"
proof -
  have "s' = s \<or> s' = snd (encryptPQ P px en now s packet proto)"
    using assms(1) by (auto simp: Encrypt_def split: if_split_asm prod.split_asm sum.split_asm)
  then show ?thesis using encryptPQ_counters assms(2) by auto
qed

lemma pqProcessControl_counters:
  "counters_ok s \<Longrightarrow> counters_ok (pqProcessControl P px now s k n control e)"
  by (simp add: pqProcessControl_def Let_def)

lemma Decrypt_counters:
  assumes "Decrypt P px now s k enc n e = (r, s')" "counters_ok s"
  shows "counters_ok s'"
  using assms pqProcessControl_counters
  by (auto simp: Decrypt_def pqStripControl_def Let_def
      split: if_split_asm sum.split_asm prod.split_asm)

lemma names_put [simp]: "map si_Name (update_server (si_Name s) (\<lambda>_. s) ss) = map si_Name ss"
  by (induction ss) auto

lemma put_server_ok:
  assumes "world_ok held w" "counters_ok s"
  shows "world_ok held (put_server s w)"
proof -
  let ?inner = "update_server (si_Name s) (\<lambda>_. s) (sv_inner (w_servers w))"
  have names: "map si_Name ?inner = map si_Name (sv_inner (w_servers w))"
    by simp
  have c: "\<forall>t \<in> set ?inner. counters_ok t"
    using assms by (auto simp: world_ok_def servers_inv_def dest!: set_update_server)
  have m: "sv_metrics (w_servers w) (si_Name t) \<noteq> None" if "t \<in> set ?inner" for t
  proof -
    have "si_Name t \<in> set (map si_Name (sv_inner (w_servers w)))" using that names by (metis image_eqI set_map)
    then show ?thesis using assms(1) by (auto simp: world_ok_def servers_inv_def)
  qed
  show ?thesis using assms(1) names c m by (simp add: world_ok_def servers_inv_def put_server_def)
qed

lemma encrypt_step_ok:
  assumes "encrypt_step C ev k query proto s w = Some (x, s', w')" "world_ok held w" "counters_ok s"
  shows "world_ok held w' \<and> counters_ok s'"
  using assms Encrypt_counters by (fastforce simp: encrypt_step_def intro: put_server_ok split: prod.split_asm)

lemma encrypt_step_all:
  assumes "encrypt_step C ev k query proto s w = Some (x, s', w')" "world_ok held w" "counters_ok s"
  shows "world_ok held w' \<and> counters_ok s' \<and> w_udp w' = w_udp w"
  using encrypt_step_ok[OF assms] encrypt_step_replies[OF assms(1)] by blast

lemma decrypt_step_ok:
  assumes "decrypt_step C ev r response s w = Some (x, s', w')" "world_ok held w" "counters_ok s"
  shows "world_ok held w' \<and> counters_ok s'"
  using assms Decrypt_counters by (fastforce simp: decrypt_step_def intro: put_server_ok split: prod.split_asm)

lemma udp_get_ok:
  assumes "udp_get addr dial sys = (res, sys')" "pool_sys_inv sys" "\<forall>c. dial = Inr c \<longrightarrow> c \<notin> set (sys_open sys)"
  shows "pool_sys_inv sys' \<and>
    sys_held sys' = (case res of Inl _ \<Rightarrow> sys_held sys | Inr (c, _) \<Rightarrow> c # sys_held sys)"
proof -
  let ?d = "case dial of Inl _ \<Rightarrow> None | Inr c \<Rightarrow> Some c"
  obtain g p where g: "pool_Get addr ?d (sys_pool sys) = (g, p)" by fastforce
  show ?thesis
  proof (cases g)
    case None
    then have "p = sys_pool sys" using g by (auto simp: pool_Get_def Let_def split: if_split_asm)
    then show ?thesis using assms(1,2) g None by (auto simp: udp_get_def)
  next
    case (Some cr)
    obtain c b where c: "cr = (c, b)" by fastforce
    have "pool_step sys sys'"
    proof (cases b)
      case True
      then show ?thesis
        using assms(1) g Some c step_reuse[of addr ?d sys c p] by (simp add: udp_get_def)
    next
      case False
      then have "dial = Inr c"
        using g Some c by (auto simp: pool_Get_def Let_def split: if_split_asm sum.split_asm)
      then show ?thesis
        using assms(1,3) g Some c False step_dial[of addr ?d sys c p] by (simp add: udp_get_def)
    qed
    then have "pool_sys_inv sys'" using pool_sys_inv_step assms(2) by blast
    then show ?thesis using assms(1) g Some c by (auto simp: udp_get_def)
  qed
qed

lemma udp_discard_ok:
  assumes "pool_sys_inv sys" "sys_held sys = c # held"
  shows "pool_sys_inv (udp_discard c sys)" "sys_held (udp_discard c sys) = held"
proof -
  have "pool_step sys (udp_discard c sys)"
    unfolding udp_discard_def by (rule step_discard) (simp add: assms(2))
  then show "pool_sys_inv (udp_discard c sys)" using pool_sys_inv_step assms(1) by blast
qed (simp add: udp_discard_def assms(2))

lemma udp_put_ok:
  assumes "pool_sys_inv sys" "sys_held sys = c # held"
  shows "pool_sys_inv (udp_put addr now c sys)" "sys_held (udp_put addr now c sys) = held"
proof -
  obtain p cs where p: "pool_Put addr now c (sys_pool sys) = (p, cs)" by fastforce
  have "pool_step sys (udp_put addr now c sys)"
    using step_put[OF _ p] assms(2) by (simp add: udp_put_def p)
  then show "pool_sys_inv (udp_put addr now c sys)" using pool_sys_inv_step assms(1) by blast
qed (simp add: udp_put_def assms(2) split: prod.split)

lemma exchangeWithUDPServer_ok:
  assumes run: "exchangeWithUDPServer C ev r s w = Some (x, b, s', w')"
    and ok: "world_ok held w" "events_ok ev w" "counters_ok s"
  shows "world_ok held w' \<and> counters_ok s'"
proof (cases "pc_proxyDialer C")
  case True
  then show ?thesis
    using run ok
    by (auto simp: exchangeWithUDPServer_def exchangeWithUDPServerViaProxy_def Let_def world_ok_def
        dest!: decrypt_step_ok[where held = held]
        split: sum.split_asm option.split_asm prod.split_asm)
next
  case False
  let ?addr = "pc_addrString C (upstream_udp s)"
  obtain res sys where g: "udp_get ?addr (nv_dial ev) (w_udp w) = (res, sys)" by fastforce
  have sys: "pool_sys_inv sys" "sys_held sys = (case res of Inl _ \<Rightarrow> held | Inr (c, _) \<Rightarrow> c # held)"
    using udp_get_ok[OF g] ok by (auto simp: world_ok_def events_ok_def)
  show ?thesis
  proof (cases res)
    case (Inl e)
    then show ?thesis using run False g sys ok by (auto simp: exchangeWithUDPServer_def world_ok_def)
  next
    case (Inr cr)
    obtain c reused where c: "cr = (c, reused)" by fastforce
    have h: "sys_held sys = c # held" using sys Inr c by simp
    have sv: "servers_inv (w_servers w)" using ok(1) by (simp add: world_ok_def)
    note d = udp_discard_ok[OF sys(1) h] and p = udp_put_ok[OF sys(1) h, of ?addr "nv_clock ev 3"]
    show ?thesis
      using run False g Inr c d p sv ok(3)
      by (auto simp: exchangeWithUDPServer_def Let_def world_ok_def
          dest!: decrypt_step_ok[where held = held, unfolded world_ok_def]
          split: sum.split_asm option.split_asm prod.split_asm)
  qed
qed

lemma exchangeWithTCPServer_ok:
  assumes "exchangeWithTCPServer C ev r s w = Some (x, s', w')" "world_ok held w" "counters_ok s"
  shows "world_ok held w'"
  using assms
  by (auto simp: exchangeWithTCPServer_def Let_def world_ok_def
      dest!: decrypt_step_ok[where held = held, unfolded world_ok_def]
      split: sum.split_asm option.split_asm if_split_asm)

lemma log_query_ok:
  assumes "log_query C ev ps w = (ps', w')"
  shows "world_ok held w' = world_ok held w"
  using log_query_frame[OF assms] world_ok_cong by blast

lemma log_code_ok: "log_code C ev code ps w = (ps', w') \<Longrightarrow> world_ok held w' = world_ok held w"
  unfolding log_code_def by (rule log_query_ok)

lemma tcp_exchange_ok:
  assumes "tcp_exchange C ev r ps s w = Some (x, ps', w')" "world_ok held w" "counters_ok s"
  shows "world_ok held w'"
  using assms by (auto simp: tcp_exchange_def dest!: exchangeWithTCPServer_ok)

lemma retry_tcp_ok:
  assumes "retry_tcp C ev query ps s w = Some (x, b, ps', w')" "world_ok held w" "counters_ok s"
  shows "world_ok held w'"
proof -
  obtain enc s2 w2 where e: "encrypt_step C ev 2 query ''tcp'' s w = Some (enc, s2, w2)"
    using assms(1) by (auto simp: retry_tcp_def bind_eq_Some_conv)
  show ?thesis
    using assms(1) e encrypt_step_ok[OF e assms(2,3)]
    by (cases enc) (auto simp: retry_tcp_def dest!: tcp_exchange_ok)
qed

lemma udp_exchange_ok:
  assumes "udp_exchange C ev query r ps s w = Some (x, b, ps', w')"
    and ok: "world_ok held w" "events_ok ev w" "counters_ok s"
  shows "world_ok held w'"
proof -
  obtain res reused s1 w1 where u: "exchangeWithUDPServer C ev r s w = Some (res, reused, s1, w1)"
    using assms(1) by (auto simp: udp_exchange_def bind_eq_Some_conv)
  show ?thesis
    using assms(1) u exchangeWithUDPServer_ok[OF u ok]
    by (auto simp: udp_exchange_def dest!: retry_tcp_ok[where held = held] split: if_split_asm)
qed

lemma finish_dnscrypt_ok:
  assumes "finish_dnscrypt C ev res ps w = (x, ps', w')"
  shows "world_ok held w' = world_ok held w"
  using assms log_code_ok by (fastforce simp: finish_dnscrypt_def split: sum.split_asm option.split_asm prod.split_asm)

lemma processDNSCryptQuery_ok:
  assumes run: "processDNSCryptQuery C ev query proto s ps w = Some (x, ps', w')"
    and ok: "world_ok held w" "events_ok ev w" "counters_ok s"
  shows "world_ok held w'"
proof -
  obtain res0 s0 w0 where 0: "encrypt_step C ev 0 query proto s w = Some (res0, s0, w0)"
    using run by (auto simp: processDNSCryptQuery_def bind_eq_Some_conv)
  obtain res1 proto1 s1 w1 where 1: "(if isl res0 \<and> proto = ''udp''
          then map_option (\<lambda>(x, s', w'). (x, ''tcp'', s', w')) (encrypt_step C ev 1 query ''tcp'' s0 w0)
          else Some (res0, proto, s0, w0)) = Some (res1, proto1, s1, w1)"
    using run 0 by (auto simp: processDNSCryptQuery_def bind_eq_Some_conv)
  note 00 = encrypt_step_all[OF 0 ok(1,3)]
  have "world_ok held w1 \<and> counters_ok s1 \<and> w_udp w1 = w_udp w"
    using 1 00 by (auto dest!: encrypt_step_all[where held = held] split: if_split_asm)
  then have ok1: "world_ok held w1" "counters_ok s1" "events_ok ev w1" using ok(2) events_ok_cong by blast+
  show ?thesis
  proof (cases res1)
    case (Inl e)
    then show ?thesis
      using run 0 1 ok1 log_code_ok by (fastforce simp: processDNSCryptQuery_def split: prod.split_asm)
  next
    case (Inr r)
    let ?s2 = "noticeBegin (nv_clock ev 5) s1"
    let ?w2 = "put_server ?s2 w1"
    let ?ps2 = "ps\<lparr>ps_exchange := (ps_exchange ps)\<lparr>eo_Transport := TransportDNSCryptUDP\<rparr>\<rparr>"
    obtain res b ps3 w3 where 3: "(if proto1 = ''udp'' then udp_exchange C ev query r ?ps2 ?s2 ?w2
        else map_option (\<lambda>(x, p, w'). (x, False, p, w')) (tcp_exchange C ev r ?ps2 ?s2 ?w2))
        = Some (res, b, ps3, w3)"
      and out: "(if b then (case log_code C ev PluginsReturnCodeParseError ps3 w3 of (ps', w') \<Rightarrow> (res, ps', w'))
        else finish_dnscrypt C ev res ps3 w3) = (x, ps', w')"
      using run 0 1 Inr unfolding processDNSCryptQuery_def by (auto simp: bind_eq_Some_conv Let_def)
    have ok2: "world_ok held ?w2" "events_ok ev ?w2" "counters_ok ?s2"
      using ok1 put_server_ok[of held w1 ?s2] events_ok_cong[of ?w2 w1] by simp_all
    have "world_ok held w3"
      using 3 udp_exchange_ok[OF _ ok2] tcp_exchange_ok[OF _ ok2(1,3)] by (auto split: if_split_asm)
    then show ?thesis
      using out log_code_ok finish_dnscrypt_ok by (fastforce split: if_split_asm prod.split_asm)
  qed
qed

lemma processDoHQuery_ok:
  assumes "processDoHQuery C ev query s ps w = Some (x, ps', w')" "world_ok held w" "counters_ok s"
  shows "world_ok held w'"
proof -
  have "world_ok held (put_server (noticeBegin (nv_clock ev 5) s) w)"
    using put_server_ok assms(2,3) counters_ok_noticeBegin by blast
  then show ?thesis
    using assms(1) log_code_ok
    by (fastforce simp: processDoHQuery_def Let_def split: if_split_asm option.split_asm prod.split_asm)
qed

lemma recompute_counters:
  "recomputeServerSharedKeyLocked P en px s = Inr s' \<Longrightarrow>
     si_totalQueries s' = si_totalQueries s \<and> si_failedQueries s' = si_failedQueries s"
  by (auto simp: recomputeServerSharedKeyLocked_def split: if_split_asm sum.split_asm)

lemma world_ok_servers: "world_ok held w \<Longrightarrow> servers_step (w_servers w) sv \<Longrightarrow> world_ok held (w\<lparr>w_servers := sv\<rparr>)"
  using servers_step_inv by (auto simp: world_ok_def)

lemma refreshServer_ok:
  assumes "refreshServer C ev name stamp w = Some (err, w')" "world_ok held w" "events_ok ev w"
  shows "world_ok held w' \<and> w_udp w' = w_udp w"
proof (cases "nv_refetch ev")
  case (Inl e)
  then show ?thesis using assms by (auto simp: refreshServer_def)
next
  case (Inr new)
  show ?thesis
  proof (cases "recomputeServerSharedKeyLocked (pc_P C) (nv_entropy ev 3) (w_px w) new")
    case (Inl e)
    then show ?thesis using assms(1) Inr by (auto simp: refreshServer_def split: if_split_asm)
  next
    case k: (Inr new')
    have "servers_step (w_servers w) (install_server new' stamp (w_servers w))"
      using recompute_counters[OF k] assms(3) Inr by (intro step_install) (auto simp: events_ok_def)
    moreover have "w' = w\<lparr>w_servers := install_server new' stamp (w_servers w)\<rparr>"
      using assms(1) Inr k by (auto simp: refreshServer_def split: if_split_asm)
    ultimately show ?thesis using world_ok_servers[OF assms(2)] by simp
  qed
qed

lemma refreshODoHKey_ok:
  assumes "refreshODoHKey C ev name stamp w = Some (err, w')" "world_ok held w" "events_ok ev w"
  shows "world_ok held w'"
proof -
  obtain claimed sv where b: "beginODoHRefresh (nv_clock ev 6) name (10 * second) (w_servers w) = (claimed, sv)"
    by fastforce
  let ?w1 = "w\<lparr>w_servers := sv\<rparr>"
  have "servers_step (w_servers w) sv" using step_begin[of "w_servers w"] b by (metis snd_conv)
  then have ok1: "world_ok held ?w1" "events_ok ev ?w1"
    using world_ok_servers[OF assms(2)] assms(3) by (simp_all add: events_ok_def)
  show ?thesis
  proof (cases claimed)
    case False
    then show ?thesis using assms(1) b ok1 by (auto simp: refreshODoHKey_def)
  next
    case True
    obtain w2 where r: "refreshServer C ev name stamp ?w1 = Some (err, w2)"
      and w': "w' = w2\<lparr>w_servers := endODoHRefresh (nv_clock ev 7) name (err = None) (w_servers w2)\<rparr>"
      using assms(1) b True by (auto simp: refreshODoHKey_def bind_eq_Some_conv)
    show ?thesis unfolding w' using refreshServer_ok[OF r ok1] by (intro world_ok_servers step_end) simp
  qed
qed

lemma odoh_key_refresh_ok:
  assumes "odoh_key_refresh C ev http s w = Some (err, w')" "world_ok held w" "events_ok ev w"
  shows "world_ok held w'"
  using assms
  by (auto simp: odoh_key_refresh_def bind_eq_Some_conv dest: refreshODoHKey_ok
      split: option.split_asm if_split_asm)

lemma processODoHQuery_ok:
  assumes run: "processODoHQuery C ev query s ps w = Some (x, ps', w')"
    and ok: "world_ok held w" "events_ok ev w" "counters_ok s"
  shows "world_ok held w'"
proof (cases "si_odohTargetConfigs s = []")
  case True
  then show ?thesis using run ok by (simp add: processODoHQuery_def)
next
  case False
  let ?target = "si_odohTargetConfigs s ! Intn (nv_odohTarget ev) (length (si_odohTargetConfigs s))"
  let ?w1 = "put_server (noticeBegin (nv_clock ev 5) s) w"
  have ok1: "world_ok held ?w1" "events_ok ev ?w1"
    using put_server_ok[OF ok(1)] ok(2,3) events_ok_cong[of ?w1 w] by simp_all
  obtain enc where e: "odoh_outcome (encryptQuery (pc_H C) (nv_odohEntropy ev) ?target query) = Some enc"
    using run False by (auto simp: processODoHQuery_def Let_def bind_eq_Some_conv)
  show ?thesis
  proof (cases enc)
    case (Inl a)
    then show ?thesis using run False e ok1 by (auto simp: processODoHQuery_def Let_def)
  next
    case (Inr q)
    show ?thesis
      using run False e Inr ok1 odoh_key_refresh_ok[OF _ ok1]
      by (auto simp: processODoHQuery_def Let_def bind_eq_Some_conv log_code_ok
          split: if_split_asm prod.split_asm)
  qed
qed

lemma handleDNSExchange_ok:
  assumes run: "handleDNSExchange C ev query proto s ps w = Some (x, ps', w')"
    and ok: "world_ok held w" "events_ok ev w" "counters_ok s"
  shows "world_ok held w'"
proof -
  let ?ps = "ps\<lparr>ps_exchangeStart := nv_clock ev 9\<rparr>"
  obtain res ps1 w1 where 1: "dispatch_query C ev query proto s ?ps w = Some (res, ps1, w1)"
    using run by (auto simp: handleDNSExchange_def Let_def bind_eq_Some_conv)
  have "world_ok held w1"
    using 1 ok processDNSCryptQuery_ok[OF _ ok] processDoHQuery_ok[OF _ ok(1,3)] processODoHQuery_ok[OF _ ok]
    by (auto simp: dispatch_query_def split: if_split_asm)
  then show ?thesis
    using run 1 unfolding handleDNSExchange_def Let_def
    by (cases res) (auto simp: log_code_ok split: if_split_asm prod.split_asm)
qed

lemma processPlugins_ok:
  assumes "processPlugins C ev response ps w = (x, ps', w')"
  shows "world_ok held w' = world_ok held w"
proof -
  have "world_ok held (w\<lparr>w_plugins := p\<rparr>) = world_ok held w" for p by (simp add: world_ok_def)
  then show ?thesis
    using assms
    by (auto simp: processPlugins_def Let_def log_code_ok log_query_ok
        split: prod.split_asm if_split_asm option.split_asm sum.split_asm)
qed

lemma sendResponse_ok:
  assumes "sendResponse C ev response proto hasConn ps w = (ps', w')"
  shows "world_ok held w' = world_ok held w"
proof -
  have "world_ok held (w\<lparr>w_replies := r\<rparr>) = world_ok held w" "world_ok held (send_udp b w) = world_ok held w"
    for r b by (simp_all add: world_ok_def send_udp_def)
  then show ?thesis
    using assms
    by (auto simp: sendResponse_def log_code_ok split: if_split_asm option.split_asm sum.split_asm)
qed

lemma feedback_ok: "feedback C ev server response err ps w = (x, w') \<Longrightarrow> world_ok held w \<Longrightarrow> world_ok held w'"
  using world_ok_servers[OF _ step_observe] by (auto simp: feedback_def split: if_split_asm)

lemma reply_step_world:
  assumes "reply_step C ev server proto hasConn response ps w = (x, w')" "world_ok held w"
  shows "world_ok held w'"
proof -
  have m: "world_ok held (updateMonitoringMetrics C p v) = world_ok held v" for p v
    by (rule world_ok_cong) simp_all
  show ?thesis
    using assms
    by (auto simp: reply_step_def m sendResponse_ok log_query_ok log_code_ok dest!: feedback_ok[where held = held]
        split: if_split_asm prod.split_asm)
qed

definition captured_ok :: "captured \<Rightarrow> bool" where
  "captured_ok v \<longleftrightarrow> (\<forall>sv. snd v = Some sv \<longrightarrow> servers_inv sv \<and> (\<forall>s. fst v = Some s \<longrightarrow> counters_ok s))"

lemma get_server_ok:
  assumes "captured_ok v"
  shows "captured_ok (get_server ev v)"
proof (cases "\<exists>sv res sv'. v = (None, Some sv) \<and> getOne (nv_clock ev 10) (nv_draws ev) sv = Some (res, sv')")
  case False
  then show ?thesis
    using assms by (auto simp: get_server_def captured_ok_def split: prod.split option.split)
next
  case True
  then obtain sv res sv' where v: "v = (None, Some sv)" "getOne (nv_clock ev 10) (nv_draws ev) sv = Some (res, sv')"
    by blast
  have inv: "servers_inv sv" using assms v by (simp add: captured_ok_def)
  then have inv': "servers_inv sv'" using getOne_inv v(2) by blast
  have "s \<in> set (sv_inner sv')" if "res = Some s" for s
    using getOne_spec[OF _ _ v(2)] inv that v(2) by (cases "sv_inner sv = []") (auto simp: servers_inv_def getOne_def)
  then show ?thesis using inv' v by (auto simp: get_server_def captured_ok_def servers_inv_def)
qed

lemma pad_query_captured: "pad_query L (Some f) packet msg v ps = (out, v', ps') \<Longrightarrow> v' = v \<or> v' = snd (f v)"
  by (auto simp: pad_query_def split: option.split_asm prod.split_asm if_split_asm)

lemma ApplyQueryPlugins_captured:
  assumes "ApplyQueryPlugins L g (Some f) packet v w ps = (res, v', w', ps')"
  shows "v' = v \<or> v' = snd (f v)"
  using assms
  by (auto simp: ApplyQueryPlugins_def dest!: pad_query_captured
      split: option.split_asm if_split_asm prod.split_asm)

lemma ask_server_world:
  assumes run: "ask_server C ev query cproto sproto hasConn v ps w = Some (x, w')"
    and ok: "world_ok held w" "events_ok ev w" "captured_ok v"
  shows "world_ok held w'"
proof -
  obtain server sv where g: "get_server ev v = (server, Some sv)"
    using run by (auto simp: ask_server_def split: prod.split_asm option.split_asm)
  have "captured_ok (server, Some sv)" using get_server_ok[OF ok(3), of ev] g by simp
  then have sv: "servers_inv sv" "\<forall>s. server = Some s \<longrightarrow> counters_ok s" by (simp_all add: captured_ok_def)
  let ?w = "w\<lparr>w_servers := sv\<rparr>"
  have okw: "world_ok held ?w" "events_ok ev ?w" using ok sv by (simp_all add: world_ok_def events_ok_def)
  show ?thesis
  proof (cases server)
    case None
    then have "reply_step C ev None cproto hasConn [] ps ?w = (x, w')"
      using run g by (simp add: ask_server_def)
    then show ?thesis using reply_step_world okw(1) by blast
  next
    case (Some s)
    define ps1 where "ps1 = ps\<lparr>ps_serverName := si_Name s,
        ps_relayName := (case si_Relay s of None \<Rightarrow> ps_relayName ps | Some r \<Rightarrow> rl_Name r)\<rparr>"
    obtain res ps2 w2 where h: "handleDNSExchange C ev query sproto s ps1 ?w = Some (res, ps2, w2)"
      using run g Some by (auto simp: ask_server_def ps1_def Let_def bind_eq_Some_conv)
    have w2: "world_ok held w2" using handleDNSExchange_ok[OF h okw] sv Some by simp
    note run' = run[unfolded ask_server_def g Some prod.case option.case Let_def, folded ps1_def, unfolded h]
    show ?thesis
      using run' w2
      by (cases res)
         (auto simp: processPlugins_ok dest!: feedback_ok[where held = held] reply_step_world[where held = held]
           split: option.split_asm prod.split_asm sum.split_asm)
  qed
qed

lemma answer_query_world:
  assumes run: "answer_query C ev query cproto sproto hasConn onlyCached server ps w = Some (x, w')"
    and ok: "world_ok held w" "events_ok ev w" "captured_ok (server, Some (w_servers w))"
  shows "world_ok held w'"
  using run ok
  by (auto simp: answer_query_def log_code_ok dest!: feedback_ok[where held = held] reply_step_world[where held = held]
        ask_server_world[where held = held]
      split: if_split_asm prod.split_asm option.split_asm)

text \<open>
  C2. A query keeps the state of the proxy in order. If the invariant of the server set (distinct names,
  consistent counters, a metric store for every server, a usable strategy) and that of the UDP sockets hold
  before a query, they hold after it, on every path through plugins, protocols, fallbacks and errors, and
  the query has given back every socket it took.
\<close>

theorem query_keeps_invariants:
  assumes run: "processIncomingQuery C ev cproto sproto query clientAddr hasConn start onlyCached w = Some (x, w')"
    and inv: "servers_inv (w_servers w)" "pool_sys_inv (w_udp w)" and ev: "events_ok ev w"
  shows "servers_inv (w_servers w') \<and> pool_sys_inv (w_udp w') \<and> sys_held (w_udp w') = sys_held (w_udp w)"
proof -
  let ?held = "sys_held (w_udp w)"
  let ?v = "(None, Some (w_servers w))"
  obtain res server svo p ps where a: "ApplyQueryPlugins (pc_L C) (pc_globals C) (Some (getServerInfo ev)) query
      ?v (w_plugins w) (NewPluginsState (pc_query C) cproto clientAddr sproto start) = (res, (server, svo), p, ps)"
    by (metis prod.exhaust)
  have "captured_ok ?v" using inv by (simp add: captured_ok_def)
  then have c: "captured_ok (server, svo)"
    using ApplyQueryPlugins_captured[OF a] get_server_ok[of ?v ev] by (auto simp: getServerInfo_def Let_def)
  have "world_ok ?held w'"
  proof (cases "validateQuery query")
    case False
    then show ?thesis using run inv by (simp add: processIncomingQuery_def world_ok_def)
  next
    case True
    obtain sv where sv: "svo = Some sv" using run a True by (cases svo) (auto simp: processIncomingQuery_def)
    let ?w1 = "w\<lparr>w_servers := sv, w_plugins := p\<rparr>"
    have ok1: "world_ok ?held ?w1" "events_ok ev ?w1" "captured_ok (server, Some (w_servers ?w1))"
      using inv ev c sv by (simp_all add: world_ok_def events_ok_def captured_ok_def)
    show ?thesis
      using run a True sv ok1 answer_query_world[OF _ ok1]
      by (cases res) (auto simp: processIncomingQuery_def log_code_ok dest!: feedback_ok[where held = ?held]
          split: prod.split_asm)
  qed
  then show ?thesis by (simp add: world_ok_def)
qed

section \<open>An example\<close>

text \<open>A proxy whose only plugin refuses every query.\<close>

definition example_reject :: "unit plugin" where
  "example_reject w ps msg = (False, w, ps\<lparr>ps_action := PluginsActionReject\<rparr>, msg)"

interpretation example_reject: identity_plugin example_reject
  by unfold_locales (auto simp: example_reject_def)

definition example_query_lib :: dns_lib where
  "example_query_lib = example_lib\<lparr>dl_Unpack :=
     (\<lambda>b. Some (zero_Msg\<lparr>m_Question := [\<lparr>q_Name = ''a.'', q_Type = 1, q_Class = 1\<rparr>]\<rparr>))\<rparr>"

definition example_cfg :: "unit proxy_cfg" where
  "example_cfg =
     \<lparr>pc_L = example_query_lib, pc_P = example_prims, pc_H = example_hpke,
      pc_query = \<lparr>qc_cacheNegMinTTL = 60, qc_cacheNegMaxTTL = 600, qc_cacheMinTTL = 60,
        qc_cacheMaxTTL = 86400, qc_rejectTTL = 600, qc_timeout = 5 * second\<rparr>,
      pc_globals = \<lparr>pg_queryPlugins = [example_reject], pg_responsePlugins = [], pg_loggingPlugins = [],
        pg_refusedCodeInResponses = True, pg_respondWithIPv4 = None, pg_respondWithIPv6 = None\<rparr>,
      pc_proxyDialer = False, pc_monitoring = False, pc_addrString = (\<lambda>a. [])\<rparr>"

definition example_events :: net_events where
  "example_events =
     \<lparr>nv_clock = (\<lambda>k. 1000), nv_draws = example_draws, nv_entropy = (\<lambda>k. example_entropy),
      nv_dial = Inl OtherError, nv_deadline = None,
      nv_try = (\<lambda>k. \<lparr>ut_write = None, ut_read = Inl TimeoutError\<rparr>), nv_tcpDial = None, nv_tcpDeadline = None,
      nv_tcpWrite = None, nv_tcpRead = ([], []), nv_tcpReadErr = TimeoutError,
      nv_http = (\<lambda>b. \<lparr>hr_body = [], hr_code = 500, hr_tls = None, hr_trace = None, hr_err = Some OtherError\<rparr>),
      nv_odohTarget = 0, nv_odohEntropy = None, nv_refetch = Inl OtherError\<rparr>"

definition example_world :: "unit world" where
  "example_world =
     \<lparr>w_px = example_proxy, w_servers = example_servers, w_udp = pool_start, w_wire = [], w_replies = [],
      w_monitored = [], w_plugins = ()\<rparr>"

lemma example_cfg_fields:
  "pc_L example_cfg = example_query_lib" "pg_queryPlugins (pc_globals example_cfg) = [example_reject]"
  "pg_responsePlugins (pc_globals example_cfg) = []" "pg_loggingPlugins (pc_globals example_cfg) = []"
  "pg_refusedCodeInResponses (pc_globals example_cfg) = True" "pc_monitoring example_cfg = False"
  by (simp_all add: example_cfg_def)

definition example_question :: Msg where
  "example_question = zero_Msg\<lparr>m_Question := [\<lparr>q_Name = ''a.'', q_Type = 1, q_Class = 1\<rparr>]\<rparr>"

lemma example_lib_fields:
  "dl_Unpack example_query_lib b = Some example_question"
  "dl_Pack example_query_lib m = dl_Pack example_lib m" "dl_EqualName example_query_lib = (=)"
  by (simp_all add: example_query_lib_def example_lib_def example_question_def)

lemma example_pack: "m_Pseudo m = [] \<Longrightarrow> dl_Pack example_query_lib m = Some (replicate 32 0)"
  by (simp add: example_lib_fields(2)) (simp add: example_lib_def)

lemma example_name: "NormalizeQName ''a.'' = Some ''a''"
  by (simp add: NormalizeQName_def trim_dot_def is_upper_def lower_char_def Let_def)

lemma example_chain:
  "ApplyQueryPlugins example_query_lib (pc_globals example_cfg) f query v () ps =
     (Inr (replicate 32 0), v, (),
      refuse (pc_globals example_cfg) example_question
        (ps\<lparr>ps_qName := ''a'', ps_questionMsg := Some example_question, ps_action := PluginsActionReject\<rparr>))"
  by (simp add: ApplyQueryPlugins_def example_cfg_fields example_lib_fields(1) example_question_def
      example_name example_reject_def share_question_def pad_query_def refuse_def example_pack zero_Msg_def)

lemma example_synth:
  fixes ps :: PluginsState
  defines "ps1 \<equiv> refuse (pc_globals example_cfg) example_question
        (ps\<lparr>ps_qName := ''a'', ps_questionMsg := Some example_question, ps_action := PluginsActionReject\<rparr>)"
  shows "\<exists>synth. ps_synthResponse ps1 = Some synth \<and>
    handleSynthesizedResponse example_query_lib ps1 synth = (Some (replicate 32 0), ps1)"
    "ps_action ps1 = PluginsActionReject"
    "ps_maxUnencryptedUDPSafePayloadSize ps1 = ps_maxUnencryptedUDPSafePayloadSize ps"
  by (simp_all add: ps1_def refuse_def example_cfg_fields handleSynthesizedResponse_def example_lib_fields(3)
      example_pack RefusedResponseFromMessage_def EmptyResponseFromMessage_def add_ede_def
      example_question_def zero_Msg_def validateResponseForQuery_def validateResponseQuestion_def)

lemma example_query:
  "\<exists>x w'. processIncomingQuery example_cfg example_events ''udp'' ''udp'' (replicate 20 0) None True 1 False
     example_world = Some (x, w') \<and> length (w_replies w') = 1"
proof -
  let ?ps0 = "NewPluginsState (pc_query example_cfg) ''udp'' None ''udp'' 1"
  define ps1 where "ps1 = refuse (pc_globals example_cfg) example_question
        (?ps0\<lparr>ps_qName := ''a'', ps_questionMsg := Some example_question, ps_action := PluginsActionReject\<rparr>)"
  note s = example_synth[of ?ps0, folded ps1_def]
  have u: "w_plugins example_world = ()" "w_replies example_world = []" by (simp_all add: example_world_def)
  have "sendResponse example_cfg example_events (replicate 32 0) ''udp'' True ps1 w = (ps1, send_udp (replicate 32 0) w)"
    for w :: "unit world"
    using s(3) by (simp add: sendResponse_def NewPluginsState_def MinDNSPacketSize_def MaxDNSPacketSize_def
        MaxDNSUDPSafePacketSize_def)
  then show ?thesis
    using s(1,2) u
    by (auto simp: processIncomingQuery_def answer_query_def validateQuery_def example_chain ps1_def[symmetric]
        MinDNSPacketSize_def MaxDNSPacketSize_def example_cfg_fields(1) reply_step_def log_query_def
        ApplyLoggingPlugins_def example_cfg_fields(4) send_udp_def feedback_def updateMonitoringMetrics_def
        Let_def example_cfg_fields(6))
qed

theorem replies_answer_query_witness:
  "\<exists>x w'. processIncomingQuery example_cfg example_events ''udp'' ''udp'' (replicate 20 0) None True 1 False
     example_world = Some (x, w') \<and> length (w_replies w') = 1 \<and>
     replies_ok (pc_L example_cfg) (dl_Unpack (pc_L example_cfg) (replicate 20 0)) (w_replies example_world)
       (w_replies w')"
proof -
  obtain x w' where run: "processIncomingQuery example_cfg example_events ''udp'' ''udp'' (replicate 20 0) None
      True 1 False example_world = Some (x, w')" "length (w_replies w') = 1"
    using example_query by blast
  have ok: "plugins_ok (pc_globals example_cfg)"
    by (simp add: plugins_ok_def example_cfg_fields example_reject.identity_plugin_axioms)
  show ?thesis using run replies_answer_query[OF ok run(1)] by blast
qed

theorem query_keeps_invariants_witness:
  "\<exists>x w'. processIncomingQuery example_cfg example_events ''udp'' ''udp'' (replicate 20 0) None True 1 False
     example_world = Some (x, w') \<and> servers_inv (w_servers w') \<and> pool_sys_inv (w_udp w') \<and>
     sys_held (w_udp w') = []"
proof -
  obtain x w' where run: "processIncomingQuery example_cfg example_events ''udp'' ''udp'' (replicate 20 0) None
      True 1 False example_world = Some (x, w')"
    using example_query by blast
  have "servers_reachable (NewServersInfo\<lparr>sv_lbStrategy := LBStrategyP2\<rparr>)"
    using servers_init[where lb = LBStrategyP2 and est = True and w = metricsWindow]
    by (simp add: strategy_ok_def NewServersInfo_def)
  then have "servers_reachable example_servers"
    unfolding example_servers_def by (auto intro!: servers_next[OF _ step_install] simp: zero_ServerInfo_def)
  then have inv: "servers_inv (w_servers example_world)" "pool_sys_inv (w_udp example_world)"
    "events_ok example_events example_world" "sys_held (w_udp example_world) = []"
    using servers_reachable_inv pool_sys_inv_start
    by (simp_all add: example_world_def events_ok_def example_events_def pool_start_def)
  show ?thesis using run query_keeps_invariants[OF run inv(1-3)] inv(4) by simp
qed

end
