(* ===== verification/Sieve.thy ===== *)
theory Sieve
  imports Go_Prelude
begin

text \<open>
  The SIEVE cache behind the response cache (vendored \<^verbatim>\<open>go-sieve-cache\<close>): a table of bounded size with a
  scanning hand that evicts an entry not visited since the last pass, and its sharded form. The packed
  bits of \<^verbatim>\<open>BitSet\<close> are a list of Booleans.
\<close>

section \<open>The set of visited entries\<close>

type_synonym BitSet = "bool list"

definition NewBitSet :: "nat \<Rightarrow> BitSet" where
  "NewBitSet capacity = replicate capacity False"

definition bit_resize :: "nat \<Rightarrow> BitSet \<Rightarrow> BitSet" where
  "bit_resize newSize b = b @ replicate (newSize - length b) False"

definition bit_Set :: "nat \<Rightarrow> bool \<Rightarrow> BitSet \<Rightarrow> BitSet" where
  "bit_Set index v b = (if index \<ge> length b then bit_resize (index + 1) b else b)[index := v]"

definition bit_Get :: "BitSet \<Rightarrow> nat \<Rightarrow> bool" where
  "bit_Get b index = (if index \<ge> length b then False else b ! index)"

definition bit_Append :: "bool \<Rightarrow> BitSet \<Rightarrow> BitSet" where
  "bit_Append v b = bit_Set (length b) v b"

definition bit_Truncate :: "nat \<Rightarrow> BitSet \<Rightarrow> BitSet" where
  "bit_Truncate newSize b = (if newSize \<ge> length b then b else take newSize b)"

lemma bit_Get_Set [simp]: "bit_Get (bit_Set i v b) j = (if i = j then v else bit_Get b j)"
  by (auto simp: bit_Get_def bit_Set_def bit_resize_def nth_append)

section \<open>The cache\<close>

record ('k, 'v) SieveCache =
  sc_indices :: "'k \<rightharpoonup> nat"
  sc_nodes :: "('k \<times> 'v) list"
  sc_visited :: BitSet
  sc_capacity :: nat
  sc_hand :: nat
  sc_handInitialized :: bool

definition sieve_New :: "nat \<Rightarrow> ('k, 'v) SieveCache option" where
  "sieve_New capacity =
     (if capacity = 0 then None
      else Some \<lparr>sc_indices = Map.empty, sc_nodes = [], sc_visited = NewBitSet capacity,
                 sc_capacity = capacity, sc_hand = 0, sc_handInitialized = False\<rparr>)"

definition sieve_Get :: "'k \<Rightarrow> ('k, 'v) SieveCache \<Rightarrow> 'v option \<times> ('k, 'v) SieveCache" where
  "sieve_Get key c =
     (case sc_indices c key of
        None \<Rightarrow> (None, c)
      | Some idx \<Rightarrow>
          (Some (snd (sc_nodes c ! idx)), c\<lparr>sc_visited := bit_Set idx True (sc_visited c)\<rparr>))"

text \<open>The scan of \<open>Evict\<close> over \<open>n\<close> entries: the entry found, if any, and the flags it leaves.\<close>

function evict_scan :: "nat \<Rightarrow> nat \<Rightarrow> nat \<Rightarrow> bool \<Rightarrow> BitSet \<Rightarrow> nat option \<times> BitSet" where
  "evict_scan n start cur wrapped visited =
     (if \<not> bit_Get visited cur then (Some cur, visited)
      else let visited' = bit_Set cur False visited
           in if cur + 1 < n
              then (if cur + 1 = start then (None, visited')
                    else evict_scan n start (cur + 1) wrapped visited')
              else if wrapped \<or> cur \<ge> n then (None, visited')
              else if start = 0 then (None, visited')
              else evict_scan n start 0 True visited')"
  by pat_completeness auto
termination
  by (relation "measure (\<lambda>(n, start, cur, wrapped, visited). (if wrapped then 0 else n) + (n - cur))") auto

declare evict_scan.simps [simp del]

text \<open>The removal of the entry at an index, by moving the last entry to its place.\<close>

definition swap_remove :: "nat \<Rightarrow> ('k, 'v) SieveCache \<Rightarrow> ('k, 'v) SieveCache" where
  "swap_remove evictIdx c =
     (let lastIdx = length (sc_nodes c) - 1;
          indices = (sc_indices c)(fst (sc_nodes c ! evictIdx) := None)
      in if evictIdx = lastIdx
         then c\<lparr>sc_indices := indices, sc_nodes := butlast (sc_nodes c),
                sc_visited := bit_Truncate lastIdx (sc_visited c)\<rparr>
         else let lastNode = sc_nodes c ! lastIdx
              in c\<lparr>sc_indices := indices(fst lastNode \<mapsto> evictIdx),
                   sc_nodes := butlast ((sc_nodes c)[evictIdx := lastNode]),
                   sc_visited := bit_Truncate lastIdx
                     (bit_Set evictIdx (bit_Get (sc_visited c) lastIdx) (sc_visited c))\<rparr>)"

definition move_hand :: "nat \<Rightarrow> ('k, 'v) SieveCache \<Rightarrow> ('k, 'v) SieveCache" where
  "move_hand evictIdx c =
     (let lastIdx = length (sc_nodes c) - 1
      in if evictIdx = lastIdx
         then if length (sc_nodes c) > 1 then c\<lparr>sc_hand := 0, sc_handInitialized := True\<rparr>
              else c\<lparr>sc_handInitialized := False\<rparr>
         else c\<lparr>sc_hand := (if evictIdx < lastIdx then evictIdx else 0), sc_handInitialized := True\<rparr>)"

text \<open>Whether an entry was evicted, and the cache.\<close>

definition Evict :: "('k, 'v) SieveCache \<Rightarrow> bool \<times> ('k, 'v) SieveCache" where
  "Evict c =
     (if sc_nodes c = [] then (False, c)
      else let start = (if sc_handInitialized c then sc_hand c else 0)
           in case evict_scan (length (sc_nodes c)) start start False (sc_visited c) of
                (None, visited) \<Rightarrow> (False, c\<lparr>sc_visited := visited\<rparr>)
              | (Some evictIdx, visited) \<Rightarrow>
                  (True, swap_remove evictIdx (move_hand evictIdx (c\<lparr>sc_visited := visited\<rparr>))))"

definition make_room :: "('k, 'v) SieveCache \<Rightarrow> ('k, 'v) SieveCache" where
  "make_room c =
     (if length (sc_nodes c) \<ge> sc_capacity c
      then (case Evict c of (evicted, c1) \<Rightarrow> if evicted then c1 else snd (Evict c1))
      else c)"

definition sieve_Insert :: "'k \<Rightarrow> 'v \<Rightarrow> ('k, 'v) SieveCache \<Rightarrow> ('k, 'v) SieveCache" where
  "sieve_Insert key v c =
     (case sc_indices c key of
        Some idx \<Rightarrow>
          c\<lparr>sc_visited := bit_Set idx True (sc_visited c), sc_nodes := (sc_nodes c)[idx := (fst (sc_nodes c ! idx), v)]\<rparr>
      | None \<Rightarrow>
          let c1 = make_room c
          in c1\<lparr>sc_nodes := sc_nodes c1 @ [(key, v)], sc_visited := bit_Append False (sc_visited c1),
                sc_indices := (sc_indices c1)(key \<mapsto> length (sc_nodes c1))\<rparr>)"

section \<open>The interface of a bounded cache\<close>

text \<open>
  A cache holds at most what was put into it: an insertion stores its entry and may forget others, but
  never changes them; a lookup changes nothing that can be observed. A history is a list of operations on
  keys, lookups and insertions of a value.
\<close>

fun touch ::
  "('k \<Rightarrow> 'c \<Rightarrow> 'v option \<times> 'c) \<Rightarrow> ('k \<Rightarrow> 'v \<Rightarrow> 'c \<Rightarrow> 'c) \<Rightarrow> 'k \<times> 'v option \<Rightarrow> 'c \<Rightarrow> 'c" where
  "touch get ins (k, None) c = snd (get k c)"
| "touch get ins (k, Some v) c = ins k v c"

fun stored :: "('k \<rightharpoonup> 'v) \<Rightarrow> ('k \<times> 'v option) list \<Rightarrow> 'k \<rightharpoonup> 'v" where
  "stored m [] = m"
| "stored m ((k, None) # log) = stored m log"
| "stored m ((k, Some v) # log) = stored (m(k \<mapsto> v)) log"

lemma map_le_iff: "m \<subseteq>\<^sub>m m' \<longleftrightarrow> (\<forall>x y. m x = Some y \<longrightarrow> m' x = Some y)"
  by (force simp: map_le_def dom_def)

lemma stored_mono: "m \<subseteq>\<^sub>m m' \<Longrightarrow> stored m log \<subseteq>\<^sub>m stored m' log"
  by (induction m log arbitrary: m' rule: stored.induct) (auto intro: map_le_upd)

locale bounded_cache =
  fixes get :: "'k \<Rightarrow> 'c \<Rightarrow> 'v option \<times> 'c"
    and ins :: "'k \<Rightarrow> 'v \<Rightarrow> 'c \<Rightarrow> 'c"
    and inv :: "'c \<Rightarrow> bool"
    and contents :: "'c \<Rightarrow> 'k \<rightharpoonup> 'v"
    and bound :: nat
  assumes inv_get: "inv c \<Longrightarrow> inv (snd (get k c))"
    and contents_get: "inv c \<Longrightarrow> contents (snd (get k c)) = contents c"
    and get_value: "inv c \<Longrightarrow> fst (get k c) = contents c k"
    and inv_ins: "inv c \<Longrightarrow> inv (ins k v c)"
    and contents_ins: "inv c \<Longrightarrow> contents (ins k v c) k = Some v"
    and ins_forgets: "inv c \<Longrightarrow> contents (ins k v c) \<subseteq>\<^sub>m (contents c)(k \<mapsto> v)"
    and within: "inv c \<Longrightarrow> finite (dom (contents c)) \<and> card (dom (contents c)) \<le> bound"
begin

lemma get_after_ins: "inv c \<Longrightarrow> fst (get k (ins k v c)) = Some v"
  by (simp add: get_value inv_ins contents_ins)

text \<open>After any operations, what is found for a key is what was inserted last under it.\<close>

lemma inv_history: "inv c \<Longrightarrow> inv (fold (touch get ins) log c)"
  proof (induction log arbitrary: c)
  case (Cons e log)
  then show ?case by (cases e; cases "snd e") (auto simp: inv_ins inv_get)
qed simp

lemma contents_history: "inv c \<Longrightarrow> contents (fold (touch get ins) log c) \<subseteq>\<^sub>m stored (contents c) log"
proof (induction log arbitrary: c)
  case (Cons e log)
  obtain k w where e: "e = (k, w)" by (cases e)
  show ?case
  proof (cases w)
    case None
    then show ?thesis using Cons.IH[OF inv_get[OF Cons.prems]] e by (simp add: contents_get[OF Cons.prems])
  next
    case (Some v)
    have "contents (fold (touch get ins) log (ins k v c)) \<subseteq>\<^sub>m stored (contents (ins k v c)) log"
      by (rule Cons.IH[OF inv_ins[OF Cons.prems]])
    also have "\<dots> \<subseteq>\<^sub>m stored ((contents c)(k \<mapsto> v)) log" by (rule stored_mono[OF ins_forgets[OF Cons.prems]])
    finally (map_le_trans) show ?thesis using e Some by simp
  qed
qed simp

end

section \<open>The cache keeps its invariant\<close>

definition indexed :: "('k \<rightharpoonup> nat) \<Rightarrow> ('k \<times> 'v) list \<Rightarrow> bool" where
  "indexed ix nodes \<longleftrightarrow> (\<forall>k i. ix k = Some i \<longleftrightarrow> i < length nodes \<and> fst (nodes ! i) = k)"

definition sieve_ok :: "('k, 'v) SieveCache \<Rightarrow> bool" where
  "sieve_ok c \<longleftrightarrow>
     indexed (sc_indices c) (sc_nodes c) \<and> 0 < sc_capacity c \<and> length (sc_nodes c) \<le> sc_capacity c \<and>
     (sc_handInitialized c \<longrightarrow> sc_hand c < length (sc_nodes c))"

definition sieve_contents :: "('k, 'v) SieveCache \<Rightarrow> 'k \<rightharpoonup> 'v" where
  "sieve_contents c = map_of (sc_nodes c)"

text \<open>An index determines the table: its keys are distinct.\<close>

lemma indexed_nth_eq: "indexed ix nodes \<Longrightarrow> i < length nodes \<Longrightarrow> j < length nodes \<Longrightarrow> fst (nodes ! i) = fst (nodes ! j) \<Longrightarrow> i = j"
  unfolding indexed_def by (metis option.inject)

lemma indexed_distinct: "indexed ix nodes \<Longrightarrow> distinct (map fst nodes)"
  by (auto simp: distinct_conv_nth dest: indexed_nth_eq)

lemma indexed_Some: "indexed ix nodes \<Longrightarrow> ix k = Some i \<Longrightarrow> map_of nodes k = Some (snd (nodes ! i))"
proof -
  assume a: "indexed ix nodes" and "ix k = Some i"
  then have i: "i < length nodes" "nodes ! i = (k, snd (nodes ! i))" by (auto simp: indexed_def intro: prod_eqI)
  then have "(k, snd (nodes ! i)) \<in> set nodes" using nth_mem[OF i(1)] by simp
  then show ?thesis by (rule map_of_is_SomeI[OF indexed_distinct[OF a]])
qed

lemma indexed_None: "indexed ix nodes \<Longrightarrow> map_of nodes k = None \<longleftrightarrow> ix k = None"
proof -
  assume a: "indexed ix nodes"
  have "ix k = None" if "k \<notin> fst ` set nodes"
  proof (rule ccontr)
    assume "ix k \<noteq> None"
    then obtain i where "i < length nodes" "fst (nodes ! i) = k" using a by (auto simp: indexed_def)
    then show False using that by force
  qed
  moreover have "k \<notin> fst ` set nodes" if "ix k = None"
  proof
    assume "k \<in> fst ` set nodes"
    then obtain i where "i < length nodes" "fst (nodes ! i) = k" by (auto simp: in_set_conv_nth)
    then have "ix k = Some i" using a by (simp add: indexed_def)
    then show False using that by simp
  qed
  ultimately show ?thesis unfolding map_of_eq_None_iff by blast
qed

lemma indexed_lookup: "indexed ix nodes \<Longrightarrow> map_of nodes k = map_option (\<lambda>i. snd (nodes ! i)) (ix k)"
  using indexed_Some[of ix nodes k] indexed_None[of ix nodes k] by (cases "ix k") auto

lemma indexed_append: "indexed ix nodes \<Longrightarrow> ix k = None \<Longrightarrow> indexed (ix(k \<mapsto> length nodes)) (nodes @ [(k, v)])"
  unfolding indexed_def
  by (auto simp: nth_append less_Suc_eq split: if_splits) (metis option.distinct(1))

lemma indexed_update: "indexed ix nodes \<Longrightarrow> i < length nodes \<Longrightarrow> indexed ix (nodes[i := (fst (nodes ! i), v)])"
  unfolding indexed_def by (auto simp: nth_list_update split: if_splits)

lemma indexed_butlast:
  assumes a: "indexed ix nodes" and "nodes \<noteq> []"
  shows "indexed (ix(fst (nodes ! (length nodes - 1)) := None)) (butlast nodes)"
  unfolding indexed_def
proof (intro allI)
  fix k j
  let ?n = "length nodes - 1"
  have n: "?n < length nodes" using assms(2) by simp
  have k_n: "j = ?n" if "j < length nodes" "fst (nodes ! j) = fst (nodes ! ?n)"
    using indexed_nth_eq[OF a that(1) n that(2)] .
  have ix: "ix k = Some j \<longleftrightarrow> j < length nodes \<and> fst (nodes ! j) = k" using a by (simp add: indexed_def)
  show "(ix(fst (nodes ! ?n) := None)) k = Some j \<longleftrightarrow> j < length (butlast nodes) \<and> fst (butlast nodes ! j) = k"
  proof (cases "j < ?n")
    case True
    then show ?thesis using ix k_n by (auto simp: nth_butlast)
  next
    case False
    then have "j = ?n \<or> \<not> j < length nodes" by auto
    then show ?thesis using ix False by auto
  qed
qed

lemma indexed_swap:
  assumes a: "indexed ix nodes" and i: "i < length nodes - 1"
  shows "indexed ((ix(fst (nodes ! i) := None))(fst (nodes ! (length nodes - 1)) \<mapsto> i))
    (butlast (nodes[i := nodes ! (length nodes - 1)]))"
  unfolding indexed_def
proof (intro allI)
  fix k j
  let ?n = "length nodes - 1"
  have n: "?n < length nodes" and il: "i < length nodes" using i by auto
  have ne: "fst (nodes ! i) \<noteq> fst (nodes ! ?n)" using indexed_nth_eq[OF a il n] i by auto
  have k_i: "j = i" if "j < length nodes" "fst (nodes ! j) = fst (nodes ! i)" using indexed_nth_eq[OF a that(1) il that(2)] .
  have k_n: "j = ?n" if "j < length nodes" "fst (nodes ! j) = fst (nodes ! ?n)" using indexed_nth_eq[OF a that(1) n that(2)] .
  have nth: "butlast (nodes[i := nodes ! ?n]) ! j = (if j = i then nodes ! ?n else nodes ! j)" if "j < ?n"
    using that i by (simp add: nth_butlast nth_list_update)
  have ix: "ix k = Some j \<longleftrightarrow> j < length nodes \<and> fst (nodes ! j) = k" using a by (simp add: indexed_def)
  show "((ix(fst (nodes ! i) := None))(fst (nodes ! ?n) \<mapsto> i)) k = Some j \<longleftrightarrow>
      j < length (butlast (nodes[i := nodes ! ?n])) \<and> fst (butlast (nodes[i := nodes ! ?n]) ! j) = k"
  proof (cases "j < ?n")
    case True
    then show ?thesis using nth[OF True] ix ne k_i k_n i by auto
  next
    case False
    then have "j = ?n \<or> \<not> j < length nodes" by auto
    then show ?thesis using ix False i by auto
  qed
qed

lemma map_of_subset: "set xs \<subseteq> set ys \<Longrightarrow> distinct (map fst ys) \<Longrightarrow> map_of xs \<subseteq>\<^sub>m map_of ys"
  unfolding map_le_def using map_of_SomeD map_of_is_SomeI by (fastforce simp: dom_def)

text \<open>The scan finds an entry, or has cleared every flag.\<close>

lemma evict_scan_found: "evict_scan n start cur wrapped visited = (Some i, visited') \<Longrightarrow> cur < n \<Longrightarrow> i < n"
proof (induction n start cur wrapped visited rule: evict_scan.induct)
  case (1 n start cur wrapped visited)
  from 1(3) show ?case
    by (subst (asm) evict_scan.simps) (use 1 in \<open>auto simp: Let_def split: if_splits\<close>)
qed

lemma evict_scan_clears:
  "evict_scan n start cur wrapped visited = (None, visited') \<Longrightarrow> start < n \<Longrightarrow>
     (if wrapped then cur < start \<and> (\<forall>i. (start \<le> i \<and> i < n \<or> i < cur) \<longrightarrow> \<not> bit_Get visited i)
      else start \<le> cur \<and> cur < n \<and> (\<forall>i. start \<le> i \<and> i < cur \<longrightarrow> \<not> bit_Get visited i)) \<Longrightarrow>
     \<forall>i < n. \<not> bit_Get visited' i"
proof (induction n start cur wrapped visited rule: evict_scan.induct)
  case (1 n start cur wrapped visited)
  let ?v = "bit_Set cur False visited"
  have visited: "bit_Get visited cur" using 1(3) by (subst (asm) evict_scan.simps) (auto split: if_splits)
  note unfolded = 1(3)[unfolded evict_scan.simps[of n start cur wrapped visited]]
  consider (last) "cur + 1 < n" "cur + 1 = start" | (go) "cur + 1 < n" "cur + 1 \<noteq> start"
    | (stop) "\<not> cur + 1 < n" "wrapped \<or> start = 0 \<or> cur \<ge> n" | (wrap) "\<not> cur + 1 < n" "\<not> wrapped" "start \<noteq> 0" "cur < n"
    by linarith
  then show ?case
  proof cases
    case last
    then have v: "visited' = ?v" using unfolded visited by (simp add: Let_def)
    have "wrapped" using 1(5) last by (auto split: if_splits)
    then have clear: "\<not> bit_Get visited i" if "start \<le> i \<and> i < n \<or> i < cur" for i using 1(5) that by auto
    show ?thesis
    proof (intro allI impI)
      fix i assume "i < n"
      then have "i = cur \<or> start \<le> i \<and> i < n \<or> i < cur" using last by linarith
      then show "\<not> bit_Get visited' i" using clear[of i] v by auto
    qed
  next
    case go
    then have "evict_scan n start (cur + 1) wrapped ?v = (None, visited')"
      using unfolded visited by (simp add: Let_def)
    then show ?thesis using 1(1)[OF _ refl go] visited 1(4,5) go by (auto simp: less_Suc_eq split: if_splits)
  next
    case stop
    then have v: "visited' = ?v" using unfolded visited by (auto simp: Let_def split: if_splits)
    have "\<not> wrapped" using 1(4,5) stop(1) by (auto split: if_splits)
    then have "start = 0" "cur + 1 = n" using 1(5) stop by auto
    then show ?thesis using 1(5) v \<open>\<not> wrapped\<close> by (auto simp: less_Suc_eq)
  next
    case wrap
    then have "evict_scan n start 0 True ?v = (None, visited')"
      using unfolded visited by (simp add: Let_def)
    moreover have "cur + 1 = n" using wrap by simp
    ultimately show ?thesis using 1(2)[OF _ refl wrap(1)] visited 1(4,5) wrap by (auto simp: less_Suc_eq)
  qed
qed

lemma start_in_range: "sieve_ok c \<Longrightarrow> sc_nodes c \<noteq> [] \<Longrightarrow> (if sc_handInitialized c then sc_hand c else 0) < length (sc_nodes c)"
  by (auto simp: sieve_ok_def)

lemma Evict_cases:
  assumes "sieve_ok c" "sc_nodes c \<noteq> []"
  obtains (found) i visited where "i < length (sc_nodes c)"
      "Evict c = (True, swap_remove i (move_hand i (c\<lparr>sc_visited := visited\<rparr>)))"
  | (cleared) visited where "Evict c = (False, c\<lparr>sc_visited := visited\<rparr>)"
      "\<forall>i < length (sc_nodes c). \<not> bit_Get visited i"
proof -
  let ?n = "length (sc_nodes c)"
  define s where "s = (if sc_handInitialized c then sc_hand c else 0)"
  have s: "s < ?n" using start_in_range[OF assms] by (simp add: s_def)
  obtain r visited where scan: "evict_scan ?n s s False (sc_visited c) = (r, visited)" by (cases "evict_scan ?n s s False (sc_visited c)")
  show thesis
  proof (cases r)
    case None
    have "\<forall>i < ?n. \<not> bit_Get visited i"
      by (rule evict_scan_clears[of ?n s s False "sc_visited c"]) (use scan None s in auto)
    then show thesis using cleared[of visited] scan None assms(2) by (simp add: Evict_def s_def)
  next
    case (Some i)
    then have "i < ?n" using evict_scan_found[of ?n s s False "sc_visited c" i visited] scan s by simp
    then show thesis using found[of i visited] scan Some assms(2) by (simp add: Evict_def s_def)
  qed
qed

lemma move_hand_fields [simp]:
  "sc_nodes (move_hand i c) = sc_nodes c" "sc_indices (move_hand i c) = sc_indices c"
  "sc_capacity (move_hand i c) = sc_capacity c"
  by (simp_all add: move_hand_def Let_def)

lemma remove_ok:
  fixes c :: "('k, 'v) SieveCache" and visited :: BitSet
  assumes "sieve_ok c" "i < length (sc_nodes c)"
  defines "c' \<equiv> swap_remove i (move_hand i (c\<lparr>sc_visited := visited\<rparr>))"
  shows "sieve_ok c'" "length (sc_nodes c') < length (sc_nodes c)" "sc_capacity c' = sc_capacity c"
    "sieve_contents c' \<subseteq>\<^sub>m sieve_contents c"
proof -
  have ix: "indexed (sc_indices c) (sc_nodes c)" using assms(1) by (simp add: sieve_ok_def)
  have ne: "sc_nodes c \<noteq> []" using assms(2) by auto
  have len: "length (sc_nodes c') = length (sc_nodes c) - 1"
    by (simp add: c'_def swap_remove_def Let_def)
  then show "length (sc_nodes c') < length (sc_nodes c)" using assms(2) by simp
  show cap: "sc_capacity c' = sc_capacity c" by (simp add: c'_def swap_remove_def Let_def)
  have "indexed (sc_indices c') (sc_nodes c')"
    using indexed_butlast[OF ix ne] indexed_swap[OF ix, of i] assms(2) by (auto simp: c'_def swap_remove_def Let_def)
  moreover have "sc_handInitialized c' \<longrightarrow> sc_hand c' < length (sc_nodes c')"
    using assms(2) unfolding len by (auto simp: c'_def swap_remove_def move_hand_def Let_def)
  ultimately show "sieve_ok c'" using assms(1) len cap by (auto simp: sieve_ok_def)
  have "set (butlast (sc_nodes c)) \<subseteq> set (sc_nodes c)" by (auto dest: in_set_butlastD)
  moreover have "sc_nodes c ! (length (sc_nodes c) - 1) \<in> set (sc_nodes c)" using ne by simp
  then have "set ((sc_nodes c)[i := sc_nodes c ! (length (sc_nodes c) - 1)]) \<subseteq> set (sc_nodes c)"
    by (rule set_update_subsetI[OF subset_refl])
  then have "set (butlast ((sc_nodes c)[i := sc_nodes c ! (length (sc_nodes c) - 1)])) \<subseteq> set (sc_nodes c)"
    by (auto dest: in_set_butlastD)
  ultimately have "set (sc_nodes c') \<subseteq> set (sc_nodes c)" by (auto simp: c'_def swap_remove_def Let_def)
  then show "sieve_contents c' \<subseteq>\<^sub>m sieve_contents c"
    unfolding sieve_contents_def by (rule map_of_subset[OF _ indexed_distinct[OF ix]])
qed

lemma flags_ok: "sieve_ok c \<Longrightarrow> sieve_ok (c\<lparr>sc_visited := visited\<rparr>)"
  "sieve_contents (c\<lparr>sc_visited := visited\<rparr>) = sieve_contents c"
  by (simp_all add: sieve_ok_def sieve_contents_def)

text \<open>Once the flags are clear, the entry under the hand is evicted: a second eviction always succeeds.\<close>

lemma Evict_cleared:
  assumes "sieve_ok c" "sc_nodes c \<noteq> []" "\<forall>i < length (sc_nodes c). \<not> bit_Get (sc_visited c) i"
  obtains i visited where "i < length (sc_nodes c)" "Evict c = (True, swap_remove i (move_hand i (c\<lparr>sc_visited := visited\<rparr>)))"
proof -
  let ?s = "if sc_handInitialized c then sc_hand c else 0"
  have s: "?s < length (sc_nodes c)" using start_in_range[OF assms(1,2)] .
  then have "evict_scan (length (sc_nodes c)) ?s ?s False (sc_visited c) = (Some ?s, sc_visited c)"
    using assms(3) by (subst evict_scan.simps) auto
  then show thesis using that[OF s, of "sc_visited c"] assms(2) by (simp add: Evict_def Let_def)
qed

lemma make_room_ok:
  assumes "sieve_ok c"
  shows "sieve_ok (make_room c)" "length (sc_nodes (make_room c)) < sc_capacity c"
    "sc_capacity (make_room c) = sc_capacity c" "sieve_contents (make_room c) \<subseteq>\<^sub>m sieve_contents c"
proof -
  let ?P = "\<lambda>d. sieve_ok d \<and> length (sc_nodes d) < sc_capacity c \<and> sc_capacity d = sc_capacity c \<and> sieve_contents d \<subseteq>\<^sub>m sieve_contents c"
  have "?P (make_room c)"
  proof (cases "length (sc_nodes c) \<ge> sc_capacity c")
    case False
    then show ?thesis using assms by (simp add: make_room_def)
  next
    case True
    then have full: "length (sc_nodes c) = sc_capacity c" and ne: "sc_nodes c \<noteq> []" using assms by (auto simp: sieve_ok_def)
    show ?thesis using assms ne
    proof (cases rule: Evict_cases)
      case (found i visited)
      then show ?thesis using remove_ok[OF assms found(1), of visited] full by (simp add: make_room_def)
    next
      case (cleared visited)
      let ?c = "c\<lparr>sc_visited := visited\<rparr>"
      have c: "sieve_ok ?c" "sc_nodes ?c \<noteq> []" "\<forall>i < length (sc_nodes ?c). \<not> bit_Get (sc_visited ?c) i"
        using flags_ok(1)[OF assms] ne cleared(2) by auto
      obtain i visited' where i: "i < length (sc_nodes ?c)"
        "Evict ?c = (True, swap_remove i (move_hand i (?c\<lparr>sc_visited := visited'\<rparr>)))"
        using Evict_cleared[OF c] .
      then show ?thesis using remove_ok[OF c(1) i(1), of visited'] full cleared(1) by (simp add: make_room_def flags_ok(2))
    qed
  qed
  then show "sieve_ok (make_room c)" "length (sc_nodes (make_room c)) < sc_capacity c"
    "sc_capacity (make_room c) = sc_capacity c" "sieve_contents (make_room c) \<subseteq>\<^sub>m sieve_contents c" by auto
qed

lemma map_of_update:
  "distinct (map fst xs) \<Longrightarrow> i < length xs \<Longrightarrow> map_of (xs[i := (fst (xs ! i), v)]) = (map_of xs)(fst (xs ! i) \<mapsto> v)"
  by (induction xs arbitrary: i) (force simp: fun_eq_iff nth_Cons split: nat.splits if_splits)+

lemma sieve_Insert_ok:
  assumes "sieve_ok c"
  shows "sieve_ok (sieve_Insert k v c)" "sieve_contents (sieve_Insert k v c) k = Some v"
    "sieve_contents (sieve_Insert k v c) \<subseteq>\<^sub>m (sieve_contents c)(k \<mapsto> v)" "sc_capacity (sieve_Insert k v c) = sc_capacity c"
proof -
  have ix: "indexed (sc_indices c) (sc_nodes c)" using assms by (simp add: sieve_ok_def)
  let ?c = "sieve_Insert k v c"
  have "sieve_ok ?c \<and> sieve_contents ?c k = Some v \<and> sieve_contents ?c \<subseteq>\<^sub>m (sieve_contents c)(k \<mapsto> v) \<and> sc_capacity ?c = sc_capacity c"
  proof (cases "sc_indices c k")
    case (Some i)
    then have i: "i < length (sc_nodes c)" "fst (sc_nodes c ! i) = k" using ix by (auto simp: indexed_def)
    have "sieve_contents ?c = (sieve_contents c)(k \<mapsto> v)"
      using map_of_update[OF indexed_distinct[OF ix] i(1), of v] Some i(2) by (simp add: sieve_contents_def sieve_Insert_def)
    moreover have "sieve_ok ?c" using assms indexed_update[OF ix i(1), of v] Some by (simp add: sieve_ok_def sieve_Insert_def)
    ultimately show ?thesis using Some by (simp add: sieve_Insert_def)
  next
    case None
    let ?m = "make_room c"
    note m = make_room_ok[OF assms]
    have ixm: "indexed (sc_indices ?m) (sc_nodes ?m)" using m(1) by (simp add: sieve_ok_def)
    have "sieve_contents c k = None" using indexed_None[OF ix] None by (simp add: sieve_contents_def)
    then have mk: "map_of (sc_nodes ?m) k = None" using m(4) by (force simp: sieve_contents_def map_le_def)
    then have "sc_indices ?m k = None" using indexed_None[OF ixm] by simp
    then have "sieve_ok ?c" using indexed_append[OF ixm, of k v] m(1-3) None by (auto simp: sieve_ok_def sieve_Insert_def Let_def)
    moreover have "sieve_contents ?c = (sieve_contents ?m)(k \<mapsto> v)"
      using None mk by (simp add: sieve_contents_def sieve_Insert_def Let_def fun_eq_iff map_add_def split: option.splits)
    ultimately show ?thesis using m(3,4) None by (auto simp: map_le_def sieve_Insert_def Let_def)
  qed
  then show "sieve_ok ?c" "sieve_contents ?c k = Some v" "sieve_contents ?c \<subseteq>\<^sub>m (sieve_contents c)(k \<mapsto> v)"
    "sc_capacity ?c = sc_capacity c" by auto
qed

definition sieve_inv :: "nat \<Rightarrow> ('k, 'v) SieveCache \<Rightarrow> bool" where
  "sieve_inv n c \<longleftrightarrow> sieve_ok c \<and> sc_capacity c = n"

lemma sieve_Get_ok:
  assumes "sieve_ok c"
  shows "sieve_ok (snd (sieve_Get k c))" "sieve_contents (snd (sieve_Get k c)) = sieve_contents c"
    "fst (sieve_Get k c) = sieve_contents c k" "sc_capacity (snd (sieve_Get k c)) = sc_capacity c"
proof -
  have "indexed (sc_indices c) (sc_nodes c)" using assms by (simp add: sieve_ok_def)
  then show "fst (sieve_Get k c) = sieve_contents c k"
    by (simp add: indexed_lookup sieve_contents_def sieve_Get_def split: option.splits)
qed (use flags_ok(1)[OF assms] flags_ok(2) assms in \<open>auto simp: sieve_Get_def split: option.splits\<close>)

lemma sieve_within: "sieve_ok c \<Longrightarrow> finite (dom (sieve_contents c)) \<and> card (dom (sieve_contents c)) \<le> sc_capacity c"
proof -
  assume "sieve_ok c"
  then have "length (sc_nodes c) \<le> sc_capacity c" by (simp add: sieve_ok_def)
  then show ?thesis using card_length[of "map fst (sc_nodes c)"] by (simp add: sieve_contents_def dom_map_of_conv_image_fst)
qed

interpretation sieve: bounded_cache sieve_Get sieve_Insert "sieve_inv n" sieve_contents n for n
  by unfold_locales (auto simp: sieve_inv_def sieve_Get_ok sieve_Insert_ok dest: sieve_within)

lemma sieve_New_ok: "sieve_New n = Some c \<Longrightarrow> sieve_inv n c \<and> sieve_contents c = Map.empty"
  by (auto simp: sieve_New_def sieve_inv_def sieve_ok_def sieve_contents_def indexed_def split: if_splits)

section \<open>The sharded cache\<close>

text \<open>
  The seeded hash of a key is a parameter. Each shard is a cache behind a lock, so an operation of a shard
  is one step.
\<close>

type_synonym ('k, 'v) ShardedSieveCache = "('k, 'v) SieveCache list"

definition shard_capacity :: "nat \<Rightarrow> nat \<Rightarrow> nat \<Rightarrow> nat" where
  "shard_capacity capacity numShards i =
     (let base = capacity div numShards;
          shardCapacity = (if i < capacity mod numShards then base + 1 else base)
      in if shardCapacity < 1 then 1 else shardCapacity)"

fun new_shards :: "nat list \<Rightarrow> ('k, 'v) ShardedSieveCache option" where
  "new_shards [] = Some []"
| "new_shards (n # ns) =
     (case sieve_New n of
        None \<Rightarrow> None
      | Some c \<Rightarrow> (case new_shards ns of None \<Rightarrow> None | Some cs \<Rightarrow> Some (c # cs)))"

definition NewShardedWithShards :: "nat \<Rightarrow> nat \<Rightarrow> ('k, 'v) ShardedSieveCache option" where
  "NewShardedWithShards capacity numShards =
     (if capacity = 0 then None
      else if numShards = 0 then None
      else let n = (if numShards > capacity then capacity else numShards)
           in new_shards (map (shard_capacity capacity n) [0..<n]))"

definition DefaultShards :: nat where
  "DefaultShards = 16"

definition NewSharded :: "nat \<Rightarrow> ('k, 'v) ShardedSieveCache option" where
  "NewSharded capacity = NewShardedWithShards capacity DefaultShards"

definition getShardIndex :: "('k \<Rightarrow> 64 word) \<Rightarrow> 'k \<Rightarrow> ('k, 'v) ShardedSieveCache \<Rightarrow> nat" where
  "getShardIndex hash key c = unat (hash key) mod length c"

definition sharded_Get ::
  "('k \<Rightarrow> 64 word) \<Rightarrow> 'k \<Rightarrow> ('k, 'v) ShardedSieveCache \<Rightarrow> 'v option \<times> ('k, 'v) ShardedSieveCache" where
  "sharded_Get hash key c =
     (let i = getShardIndex hash key c
      in case sieve_Get key (c ! i) of (found, shard) \<Rightarrow> (found, c[i := shard]))"

definition sharded_Insert ::
  "('k \<Rightarrow> 64 word) \<Rightarrow> 'k \<Rightarrow> 'v \<Rightarrow> ('k, 'v) ShardedSieveCache \<Rightarrow> ('k, 'v) ShardedSieveCache" where
  "sharded_Insert hash key v c = (let i = getShardIndex hash key c in c[i := sieve_Insert key v (c ! i)])"

definition sharded_inv :: "nat \<Rightarrow> ('k, 'v) ShardedSieveCache \<Rightarrow> bool" where
  "sharded_inv n c \<longleftrightarrow> c \<noteq> [] \<and> (\<forall>s \<in> set c. sieve_ok s) \<and> sum_list (map sc_capacity c) = n"

definition sharded_contents :: "('k \<Rightarrow> 64 word) \<Rightarrow> ('k, 'v) ShardedSieveCache \<Rightarrow> 'k \<rightharpoonup> 'v" where
  "sharded_contents hash c k = sieve_contents (c ! getShardIndex hash k c) k"

text \<open>An operation on one shard.\<close>

lemma shard_ok: "sharded_inv n c \<Longrightarrow> getShardIndex hash k c < length c \<and> sieve_ok (c ! getShardIndex hash k c)"
  by (simp add: sharded_inv_def getShardIndex_def)

lemma shard_update:
  assumes "sharded_inv n c" "sieve_ok s" "sc_capacity s = sc_capacity (c ! i)"
  shows "sharded_inv n (c[i := s])"
proof -
  have "map sc_capacity (c[i := s]) = map sc_capacity c"
    using assms(3) by (metis list_update_beyond list_update_id map_update not_le_imp_less nth_map)
  moreover have "set (c[i := s]) \<subseteq> insert s (set c)" by (rule set_update_subset_insert)
  ultimately show ?thesis using assms(1,2) by (auto simp: sharded_inv_def)
qed

lemma getShardIndex_update [simp]: "getShardIndex hash k (c[i := s]) = getShardIndex hash k c"
  by (simp add: getShardIndex_def)

lemma sharded_within: "sharded_inv n c \<Longrightarrow> finite (dom (sharded_contents hash c)) \<and> card (dom (sharded_contents hash c)) \<le> n"
proof -
  assume inv: "sharded_inv n c"
  let ?keys = "concat (map (\<lambda>s. map fst (sc_nodes s)) c)"
  have "k \<in> set ?keys" if "k \<in> dom (sharded_contents hash c)" for k
    using that shard_ok[OF inv, of hash k] nth_mem[of "getShardIndex hash k c" c]
    by (force simp: sharded_contents_def sieve_contents_def dom_map_of_conv_image_fst dest: map_of_SomeD)
  then have sub: "dom (sharded_contents hash c) \<subseteq> set ?keys" by blast
  have "length ?keys = sum_list (map (\<lambda>s. length (sc_nodes s)) c)" by (simp add: length_concat comp_def)
  also have "\<dots> \<le> sum_list (map sc_capacity c)"
    using inv by (intro sum_list_mono) (simp add: sharded_inv_def sieve_ok_def)
  finally have "length ?keys \<le> n" using inv by (simp add: sharded_inv_def)
  moreover have "card (dom (sharded_contents hash c)) \<le> card (set ?keys)" using sub by (rule card_mono[OF finite_set])
  ultimately show ?thesis using card_length[of ?keys] finite_subset[OF sub] by auto
qed

interpretation sharded: bounded_cache "sharded_Get hash" "sharded_Insert hash" "sharded_inv n" "sharded_contents hash" n for hash n
proof
  fix c :: "('a, 'b) ShardedSieveCache" and k v
  assume inv: "sharded_inv n c"
  let ?i = "getShardIndex hash k c"
  note shard = shard_ok[OF inv, of hash k]
  show "sharded_inv n (snd (sharded_Get hash k c))"
    using shard_update[OF inv] sieve_Get_ok[of "c ! ?i" k] shard by (simp add: sharded_Get_def Let_def split_beta)
  show "sharded_contents hash (snd (sharded_Get hash k c)) = sharded_contents hash c"
    using sieve_Get_ok[of "c ! ?i" k] shard
    by (auto simp: sharded_Get_def sharded_contents_def Let_def split_beta fun_eq_iff nth_list_update)
  show "fst (sharded_Get hash k c) = sharded_contents hash c k"
    using sieve_Get_ok[of "c ! ?i" k] shard by (simp add: sharded_Get_def sharded_contents_def Let_def split_beta)
  show "sharded_inv n (sharded_Insert hash k v c)"
    using shard_update[OF inv] sieve_Insert_ok[of "c ! ?i" k v] shard by (simp add: sharded_Insert_def Let_def)
  show "sharded_contents hash (sharded_Insert hash k v c) k = Some v"
    using sieve_Insert_ok[of "c ! ?i" k v] shard by (simp add: sharded_Insert_def sharded_contents_def Let_def)
  show "sharded_contents hash (sharded_Insert hash k v c) \<subseteq>\<^sub>m (sharded_contents hash c)(k \<mapsto> v)"
    unfolding map_le_iff
  proof (intro allI impI)
    fix x y
    assume found: "sharded_contents hash (sharded_Insert hash k v c) x = Some y"
    show "((sharded_contents hash c)(k \<mapsto> v)) x = Some y"
    proof (cases "getShardIndex hash x c = ?i")
      case True
      then have "sieve_contents (sieve_Insert k v (c ! ?i)) x = Some y"
        using found shard by (simp add: sharded_contents_def sharded_Insert_def Let_def)
      then have "((sieve_contents (c ! ?i))(k \<mapsto> v)) x = Some y"
        using sieve_Insert_ok(3)[of "c ! ?i" k v] shard unfolding map_le_iff by blast
      then show ?thesis using True by (auto simp: sharded_contents_def)
    next
      case False
      then have "x \<noteq> k" by auto
      then show ?thesis using False found by (simp add: sharded_contents_def sharded_Insert_def Let_def)
    qed
  qed
qed (rule sharded_within)

section \<open>A new sharded cache\<close>

lemma sum_shares: "r \<le> n \<Longrightarrow> (\<Sum>i<n. if i < r then b + 1 else b) = n * b + (r::nat)"
proof (induction n)
  case (Suc n)
  then show ?case by (cases "r = Suc n") auto
qed simp

lemma shard_capacities:
  assumes "0 < n" "n \<le> capacity"
  shows "sum_list (map (shard_capacity capacity n) [0..<n]) = capacity"
proof -
  have "1 \<le> capacity div n" using assms by (simp add: div_greater_zero_iff Suc_le_eq)
  then have "shard_capacity capacity n = (\<lambda>i. if i < capacity mod n then capacity div n + 1 else capacity div n)"
    by (auto simp: shard_capacity_def Let_def)
  then have "sum_list (map (shard_capacity capacity n) [0..<n]) = (\<Sum>i<n. if i < capacity mod n then capacity div n + 1 else capacity div n)"
    by (simp add: sum_list_distinct_conv_sum_set atLeast0LessThan)
  also have "\<dots> = n * (capacity div n) + capacity mod n" using assms(1) by (intro sum_shares) simp
  finally show ?thesis by simp
qed

lemma new_shards_ok:
  "\<forall>n \<in> set ns. 0 < n \<Longrightarrow> \<exists>cs :: ('k, 'v) ShardedSieveCache. new_shards ns = Some cs \<and> map sc_capacity cs = ns \<and> (\<forall>c \<in> set cs. sieve_ok c \<and> sc_nodes c = [])"
proof (induction ns)
  case (Cons n ns)
  then obtain cs :: "('k, 'v) ShardedSieveCache" where "new_shards ns = Some cs" "map sc_capacity cs = ns" "\<forall>c \<in> set cs. sieve_ok c \<and> sc_nodes c = []" by auto
  then show ?case using Cons.prems by (auto simp: sieve_New_def sieve_ok_def indexed_def)
qed simp

lemma NewSharded_ok:
  assumes "0 < n"
  shows "\<exists>c :: ('k, 'v) ShardedSieveCache. NewSharded n = Some c \<and> sharded_inv n c \<and> sharded_contents hash c = Map.empty"
proof -
  let ?m = "min n DefaultShards"
  have m: "0 < ?m" "?m \<le> n" using assms by (auto simp: DefaultShards_def)
  have "0 < shard_capacity n ?m i" for i by (simp add: shard_capacity_def Let_def)
  then obtain c :: "('k, 'v) ShardedSieveCache" where c: "new_shards (map (shard_capacity n ?m) [0..<?m]) = Some c"
    "map sc_capacity c = map (shard_capacity n ?m) [0..<?m]" "\<forall>s \<in> set c. sieve_ok s \<and> sc_nodes s = []"
    using new_shards_ok[of "map (shard_capacity n ?m) [0..<?m]"] by auto
  have new: "NewSharded n = Some c"
    using c(1) assms by (auto simp: NewSharded_def NewShardedWithShards_def Let_def DefaultShards_def min_def split: if_splits)
  have "length c = ?m" using arg_cong[OF c(2), of length] by simp
  then have "c \<noteq> []" using m by auto
  then have inv: "sharded_inv n c" using c(3) shard_capacities[OF m] unfolding sharded_inv_def c(2) by simp
  have "sharded_contents hash c k = None" for k
    using shard_ok[OF inv, of hash k] c(3) nth_mem[of "getShardIndex hash k c" c] by (simp add: sharded_contents_def sieve_contents_def)
  then show ?thesis using new inv by (auto simp: fun_eq_iff)
qed

text \<open>
  C9. A new response cache for \<open>n > 0\<close> entries is created, and after any history of lookups and insertions
  it holds at most \<open>n\<close> entries, answers a lookup only with the value inserted last under that key, and
  always finds the entry inserted last.
\<close>

theorem cache_history:
  assumes "0 < n"
  shows "\<exists>c :: ('k, 'v) ShardedSieveCache. NewSharded n = Some c \<and>
    (let d = fold (touch (sharded_Get hash) (sharded_Insert hash)) log c
     in sum_list (map (\<lambda>s. length (sc_nodes s)) d) \<le> n \<and>
        (\<forall>k v. fst (sharded_Get hash k d) = Some v \<longrightarrow> stored Map.empty log k = Some v) \<and>
        (\<forall>k v. fst (sharded_Get hash k (sharded_Insert hash k v d)) = Some v))"
proof -
  obtain c :: "('k, 'v) ShardedSieveCache" where c: "NewSharded n = Some c" "sharded_inv n c" "sharded_contents hash c = Map.empty"
    using NewSharded_ok[OF assms, of hash] by blast
  define d where "d = fold (touch (sharded_Get hash) (sharded_Insert hash)) log c"
  have d: "sharded_inv n d" unfolding d_def by (rule sharded.inv_history[OF c(2)])
  have sub: "sharded_contents hash d \<subseteq>\<^sub>m stored Map.empty log"
    using sharded.contents_history[OF c(2), of hash log] c(3) by (simp add: d_def)
  have "sum_list (map (\<lambda>s. length (sc_nodes s)) d) \<le> sum_list (map sc_capacity d)"
    using d by (intro sum_list_mono) (simp add: sharded_inv_def sieve_ok_def)
  then have "sum_list (map (\<lambda>s. length (sc_nodes s)) d) \<le> n" using d by (simp add: sharded_inv_def)
  moreover have "stored Map.empty log k = Some v" if "fst (sharded_Get hash k d) = Some v" for k v
    using that sub sharded.get_value[OF d, of hash k] by (force simp: map_le_def dom_def)
  ultimately show ?thesis
    using c(1) sharded.get_after_ins[OF d] unfolding Let_def by (intro exI[of _ c]) (auto simp: d_def[symmetric])
qed

theorem cache_history_witness:
  "\<exists>c. NewSharded 2 = Some c \<and>
    (let d = fold (touch (sharded_Get (\<lambda>_. 0)) (sharded_Insert (\<lambda>_. 0))) [(1 :: nat, Some True), (2, Some False)] c
     in sum_list (map (\<lambda>s. length (sc_nodes s)) d) \<le> 2 \<and>
        (\<forall>v. fst (sharded_Get (\<lambda>_. 0) 2 d) = Some v \<longrightarrow> v = False))"
  using cache_history[of 2 "\<lambda>_. 0" "[(1 :: nat, Some True), (2, Some False)]"] by (force simp: Let_def)

end
