(* ===== verification/Plugin_Cache.thy ===== *)
theory Plugin_Cache
  imports Plugins Sieve
begin

text \<open>
  The response cache (\<^verbatim>\<open>dnscrypt-proxy/plugin_cache.go\<close>): the plugin that answers queries from the sharded
  cache and the one that stores responses there. SHA-512/256 and the seeded hash that selects a shard are
  parameters, and every reading of the clock is an input. A cached message is a value, so the copies of
  \<^verbatim>\<open>cloneMsg\<close> have no counterpart. Plugins are called with one question, so \<open>hd\<close> is the question.
\<close>

definition StaleResponseTTL :: duration where
  "StaleResponseTTL = 30 * second"

record CachedResponse =
  cr_expiration :: go_time
  cr_msg :: Msg

type_synonym cached_responses = "(bytes, CachedResponse) ShardedSieveCache option"

text \<open>The variable of the package after initialisation; \<open>None\<close> outside is the error.\<close>

definition initCachedResponses :: "nat \<Rightarrow> cached_responses \<Rightarrow> cached_responses option" where
  "initCachedResponses cacheSize cachedResponses =
     (case cachedResponses of
        Some _ \<Rightarrow> Some cachedResponses
      | None \<Rightarrow> (case NewSharded cacheSize of None \<Rightarrow> None | Some cache \<Rightarrow> Some (Some cache)))"

definition put_u16_le :: "nat \<Rightarrow> bytes" where
  "put_u16_le n = [of_nat n, of_nat (n div 256)]"

definition key_preimage :: "PluginsState \<Rightarrow> Msg \<Rightarrow> bytes" where
  "key_preimage ps msg =
     (let question = hd (m_Question msg);
          flag0 = (if ps_dnssec ps then 1 else 0);
          flag = (if m_CheckingDisabled msg then flag0 OR 2 else flag0)
      in put_u16_le (q_Type question) @ put_u16_le (q_Class question) @ [flag] @
         NormalizeRawQName (str_bytes (q_Name question)))"

definition computeCacheKey :: "(bytes \<Rightarrow> bytes) \<Rightarrow> PluginsState \<Rightarrow> Msg \<Rightarrow> bytes" where
  "computeCacheKey sha ps msg = sha (key_preimage ps msg)"

section \<open>The reader\<close>

definition cached_answer :: "Msg \<Rightarrow> Msg \<Rightarrow> Msg" where
  "cached_answer query cached = cached\<lparr>m_ID := m_ID query, m_Response := True, m_Question := m_Question query\<rparr>"

text \<open>The clock is read at \<open>t0\<close> for the comparison, at \<open>t1\<close> for a stale response and at \<open>t2\<close> in \<open>updateTTL\<close>.\<close>

definition PluginCache_Eval ::
  "(bytes \<Rightarrow> bytes) \<Rightarrow> (bytes \<Rightarrow> 64 word) \<Rightarrow> go_time \<Rightarrow> go_time \<Rightarrow> go_time \<Rightarrow> cached_responses plugin" where
  "PluginCache_Eval sha hash t0 t1 t2 cachedResponses ps msg =
     (case cachedResponses of
        None \<Rightarrow> (False, None, ps, msg)
      | Some cache \<Rightarrow>
          (case sharded_Get hash (computeCacheKey sha ps msg) cache of
             (None, cache1) \<Rightarrow> (False, Some cache1, ps, msg)
           | (Some cached, cache1) \<Rightarrow>
               let synth = cached_answer msg (cr_msg cached)
               in if time_after t0 (cr_expiration cached)
                  then (False, Some cache1,
                        ps\<lparr>ps_stale := Some (updateTTL t2 synth (time_add t1 StaleResponseTTL))\<rparr>, msg)
                  else (False, Some cache1,
                        ps\<lparr>ps_synthResponse := Some (updateTTL t2 synth (cr_expiration cached)),
                           ps_action := PluginsActionSynth, ps_cacheHit := True\<rparr>, msg)))"

section \<open>The writer\<close>

definition cacheable :: "Msg \<Rightarrow> bool" where
  "cacheable msg \<longleftrightarrow>
     \<not> (m_Rcode msg \<noteq> RcodeSuccess \<and> m_Rcode msg \<noteq> RcodeNameError \<and> m_Rcode msg \<noteq> RcodeNotAuth) \<and> \<not> m_Truncated msg"

definition new_entry :: "go_time \<Rightarrow> PluginsState \<Rightarrow> Msg \<Rightarrow> CachedResponse" where
  "new_entry t0 ps msg =
     \<lparr>cr_expiration = time_add t0 (getMinTTL msg (ps_cacheMinTTL ps) (ps_cacheMaxTTL ps)
                                      (ps_cacheNegMinTTL ps) (ps_cacheNegMaxTTL ps)),
      cr_msg = msg\<lparr>m_Question := []\<rparr>\<rparr>"

definition PluginCacheResponse_Eval ::
  "(bytes \<Rightarrow> bytes) \<Rightarrow> (bytes \<Rightarrow> 64 word) \<Rightarrow> go_time \<Rightarrow> go_time \<Rightarrow> cached_responses plugin" where
  "PluginCacheResponse_Eval sha hash t0 t1 cachedResponses ps msg =
     (if \<not> cacheable msg then (False, cachedResponses, ps, msg)
      else case cachedResponses of
             None \<Rightarrow> (False, None, ps, msg)
           | Some cache \<Rightarrow>
               let entry = new_entry t0 ps msg
               in (False, Some (sharded_Insert hash (computeCacheKey sha ps msg) entry cache), ps,
                   updateTTL t1 msg (cr_expiration entry)))"

section \<open>Both keep the identity of the query\<close>

lemma updateTTL_fields [simp]:
  "m_ID (updateTTL now msg expiration) = m_ID msg" "m_Question (updateTTL now msg expiration) = m_Question msg"
  "m_Response (updateTTL now msg expiration) = m_Response msg" "m_Rcode (updateTTL now msg expiration) = m_Rcode msg"
  by (simp_all add: updateTTL_def Let_def)

lemma identity_updateTTL [simp]: "identity (updateTTL now msg expiration) = identity msg"
  by (simp add: identity_def)

interpretation PluginCache: identity_plugin "PluginCache_Eval sha hash t0 t1 t2" for sha hash t0 t1 t2
  by unfold_locales
    (auto simp: PluginCache_Eval_def Let_def ps_identity_def split: option.splits prod.splits if_splits)

interpretation PluginCacheResponse: identity_plugin "PluginCacheResponse_Eval sha hash t0 t1" for sha hash t0 t1
  by unfold_locales (auto simp: PluginCacheResponse_Eval_def Let_def split: option.splits if_splits)

section \<open>The key\<close>

lemma put_u16_le_inj: "m < 65536 \<Longrightarrow> n < 65536 \<Longrightarrow> put_u16_le m = put_u16_le n \<Longrightarrow> m = n"
proof -
  assume a: "m < 65536" "n < 65536" "put_u16_le m = put_u16_le n"
  have "m mod 256 = n mod 256" "m div 256 mod 256 = n div 256 mod 256"
    using a(3) by (auto simp: put_u16_le_def word_of_nat_eq_iff take_bit_eq_mod)
  moreover have "m div 256 < 256" "n div 256 < 256" using a(1,2) by (simp_all add: less_mult_imp_div_less)
  ultimately have "m div 256 = n div 256" "m mod 256 = n mod 256" by simp_all
  then show "m = n" by (metis div_mult_mod_eq)
qed

definition same_question :: "PluginsState \<Rightarrow> Msg \<Rightarrow> PluginsState \<Rightarrow> Msg \<Rightarrow> bool" where
  "same_question ps q ps' r \<longleftrightarrow>
     q_Type (hd (m_Question q)) = q_Type (hd (m_Question r)) \<and>
     q_Class (hd (m_Question q)) = q_Class (hd (m_Question r)) \<and>
     NormalizeRawQName (str_bytes (q_Name (hd (m_Question q)))) = NormalizeRawQName (str_bytes (q_Name (hd (m_Question r)))) \<and>
     ps_dnssec ps = ps_dnssec ps' \<and> m_CheckingDisabled q = m_CheckingDisabled r"

definition short_codes :: "Msg \<Rightarrow> bool" where
  "short_codes q \<longleftrightarrow> q_Type (hd (m_Question q)) < 65536 \<and> q_Class (hd (m_Question q)) < 65536"

lemma key_preimage_inj:
  assumes "short_codes q" "short_codes r" "key_preimage ps q = key_preimage ps' r"
  shows "same_question ps q ps' r"
  using assms put_u16_le_inj[of "q_Type (hd (m_Question q))" "q_Type (hd (m_Question r))"]
    put_u16_le_inj[of "q_Class (hd (m_Question q))" "q_Class (hd (m_Question r))"]
  by (auto simp: key_preimage_def same_question_def short_codes_def Let_def put_u16_le_def split: if_splits)

section \<open>Histories of the cache\<close>

datatype cache_event =
    Ask go_time go_time go_time PluginsState Msg
  | Answer go_time go_time PluginsState Msg

fun cache_step :: "(bytes \<Rightarrow> bytes) \<Rightarrow> (bytes \<Rightarrow> 64 word) \<Rightarrow> cache_event \<Rightarrow> cached_responses \<Rightarrow> cached_responses" where
  "cache_step sha hash (Ask t0 t1 t2 ps msg) c = fst (snd (PluginCache_Eval sha hash t0 t1 t2 c ps msg))"
| "cache_step sha hash (Answer t0 t1 ps msg) c = fst (snd (PluginCacheResponse_Eval sha hash t0 t1 c ps msg))"

fun stores :: "(bytes \<Rightarrow> bytes) \<Rightarrow> bytes \<Rightarrow> cache_event \<Rightarrow> bool" where
  "stores sha k (Ask _ _ _ _ _) = False"
| "stores sha k (Answer _ _ ps msg) \<longleftrightarrow> cacheable msg \<and> computeCacheKey sha ps msg = k"

fun event_op :: "(bytes \<Rightarrow> bytes) \<Rightarrow> cache_event \<Rightarrow> (bytes \<times> CachedResponse option) list" where
  "event_op sha (Ask _ _ _ ps msg) = [(computeCacheKey sha ps msg, None)]"
| "event_op sha (Answer t0 _ ps msg) =
     (if cacheable msg then [(computeCacheKey sha ps msg, Some (new_entry t0 ps msg))] else [])"

lemma cache_step_touch: "cache_step sha hash e (Some c) = Some (fold (touch (sharded_Get hash) (sharded_Insert hash)) (event_op sha e) c)"
  by (cases e) (auto simp: PluginCache_Eval_def PluginCacheResponse_Eval_def Let_def split: option.splits prod.splits)

lemma cache_run_touch:
  "fold (cache_step sha hash) events (Some c) =
     Some (fold (touch (sharded_Get hash) (sharded_Insert hash)) (concat (map (event_op sha) events)) c)"
  by (induction events arbitrary: c) (simp_all add: cache_step_touch)

lemma stored_append: "stored m (a @ b) = stored (stored m a) b"
  by (induction m a rule: stored.induct) (simp_all add: fun_upd_def)

text \<open>What is stored under a key is the response of the last event that stores one there.\<close>

lemma stored_events:
  "stored Map.empty (concat (map (event_op sha) events)) k = Some v \<Longrightarrow>
     \<exists>before t0 t1 ps0 resp after. events = before @ Answer t0 t1 ps0 resp # after \<and>
       stores sha k (Answer t0 t1 ps0 resp) \<and> v = new_entry t0 ps0 resp \<and> \<not> list_ex (stores sha k) after"
proof (induction events rule: rev_induct)
  case (snoc e events)
  let ?old = "stored Map.empty (concat (map (event_op sha) events))"
  show ?case
  proof (cases "stores sha k e")
    case True
    then obtain t0 t1 ps0 resp where e: "e = Answer t0 t1 ps0 resp" "cacheable resp" "computeCacheKey sha ps0 resp = k"
      by (cases e) auto
    then have "v = new_entry t0 ps0 resp" using snoc.prems by (simp add: stored_append)
    then show ?thesis using e by (intro exI[of _ events] exI[of _ t0] exI[of _ t1] exI[of _ ps0] exI[of _ resp] exI[of _ "[]"]) simp
  next
    case False
    then have "stored ?old (event_op sha e) k = ?old k" by (cases e) auto
    then have "?old k = Some v" using snoc.prems by (simp add: stored_append)
    from snoc.IH[OF this] obtain before t0 t1 ps0 resp after where
      "events = before @ Answer t0 t1 ps0 resp # after" "stores sha k (Answer t0 t1 ps0 resp)"
      "v = new_entry t0 ps0 resp" "\<not> list_ex (stores sha k) after" by blast
    then show ?thesis using False
      by (intro exI[of _ before] exI[of _ t0] exI[of _ t1] exI[of _ ps0] exI[of _ resp] exI[of _ "after @ [e]"]) simp
  qed
qed simp

lemma initCachedResponses_ok:
  "initCachedResponses n None = Some c \<Longrightarrow> \<exists>cache. c = Some cache \<and> sharded_inv n cache \<and> sharded_contents hash cache = Map.empty"
proof -
  assume a: "initCachedResponses n None = Some c"
  then have "n \<noteq> 0" by (auto simp: initCachedResponses_def NewSharded_def NewShardedWithShards_def split: if_splits)
  then obtain cache :: "(bytes, CachedResponse) ShardedSieveCache" where
    "NewSharded n = Some cache" "sharded_inv n cache" "sharded_contents hash cache = Map.empty"
    using NewSharded_ok[of n hash] by blast
  moreover from this(1) have "c = Some cache" using a by (simp add: initCachedResponses_def)
  ultimately show ?thesis by blast
qed

lemma run_ok:
  assumes "initCachedResponses n None = Some c0"
  obtains cache where "fold (cache_step sha hash) events c0 = Some cache" "sharded_inv n cache"
    "sharded_contents hash cache \<subseteq>\<^sub>m stored Map.empty (concat (map (event_op sha) events))"
proof -
  obtain cache where c: "c0 = Some cache" "sharded_inv n cache" "sharded_contents hash cache = Map.empty"
    using initCachedResponses_ok[OF assms, of hash] by blast
  show thesis
    using that[OF _ sharded.inv_history[OF c(2)]] sharded.contents_history[OF c(2), of hash "concat (map (event_op sha) events)"] c(1,3)
    by (simp add: cache_run_touch)
qed

text \<open>
  C4. What the cache answers. After any history of lookups and responses of a new cache, a query is answered
  from the cache only by the last response that was stored under its key; that response was cacheable and
  its lifetime has not passed; the answer carries the identifier and the question of the query, and the
  records of the response with their TTLs updated. If the hash has no collision among the keys involved, the
  response answered the same question: same type, class, name up to the case of letters, and DNSSEC flags.
\<close>

theorem cache_answers:
  assumes "initCachedResponses n None = Some c0"
    and "PluginCache_Eval sha hash t0 t1 t2 (fold (cache_step sha hash) events c0) ps query = (failed, c', ps', msg')"
    and "\<not> ps_cacheHit ps" "ps_cacheHit ps'"
  shows "\<exists>before t u ps0 resp after expiration.
    events = before @ Answer t u ps0 resp # after \<and> cacheable resp \<and>
    computeCacheKey sha ps0 resp = computeCacheKey sha ps query \<and>
    \<not> list_ex (stores sha (computeCacheKey sha ps query)) after \<and>
    expiration = t + getMinTTL resp (ps_cacheMinTTL ps0) (ps_cacheMaxTTL ps0) (ps_cacheNegMinTTL ps0) (ps_cacheNegMaxTTL ps0) \<and>
    t0 \<le> expiration \<and> ps_action ps' = PluginsActionSynth \<and>
    ps_synthResponse ps' =
      Some ((updateTTL t2 resp expiration)\<lparr>m_ID := m_ID query, m_Response := True, m_Question := m_Question query\<rparr>) \<and>
    (short_codes query \<longrightarrow> short_codes resp \<longrightarrow> inj_on sha {key_preimage ps0 resp, key_preimage ps query} \<longrightarrow>
       same_question ps0 resp ps query)"
proof -
  let ?k = "computeCacheKey sha ps query"
  obtain cache where cache: "fold (cache_step sha hash) events c0 = Some cache" "sharded_inv n cache"
    "sharded_contents hash cache \<subseteq>\<^sub>m stored Map.empty (concat (map (event_op sha) events))"
    using run_ok[OF assms(1)] .
  obtain found cache' where get: "sharded_Get hash ?k cache = (found, cache')" by fastforce
  note unfolded = assms(2)[unfolded PluginCache_Eval_def cache(1), simplified, unfolded get, simplified]
  from unfolded assms(3,4) obtain e where e: "found = Some e" "\<not> time_after t0 (cr_expiration e)"
    by (auto simp: Let_def split: option.splits if_splits)
  have ps': "ps' = ps\<lparr>ps_synthResponse := Some (updateTTL t2 (cached_answer query (cr_msg e)) (cr_expiration e)),
      ps_action := PluginsActionSynth, ps_cacheHit := True\<rparr>"
    using unfolded e by (auto simp: Let_def)
  have "sharded_contents hash cache ?k = Some e" using sharded.get_value[OF cache(2), of hash ?k] get e(1) by simp
  then have "stored Map.empty (concat (map (event_op sha) events)) ?k = Some e" using cache(3) unfolding map_le_iff by blast
  from stored_events[OF this] obtain before t u ps0 resp after where
    ev: "events = before @ Answer t u ps0 resp # after" "stores sha ?k (Answer t u ps0 resp)"
      "e = new_entry t ps0 resp" "\<not> list_ex (stores sha ?k) after" by blast
  have "same_question ps0 resp ps query"
    if "short_codes query" "short_codes resp" "inj_on sha {key_preimage ps0 resp, key_preimage ps query}"
  proof -
    have "sha (key_preimage ps0 resp) = sha (key_preimage ps query)" using ev(2) by (simp add: computeCacheKey_def)
    then have "key_preimage ps0 resp = key_preimage ps query" using inj_onD[OF that(3)] by blast
    then show ?thesis by (rule key_preimage_inj[OF that(2,1)])
  qed
  then show ?thesis
    using ev e(2) unfolding ps'
    by (intro exI[of _ before] exI[of _ t] exI[of _ u] exI[of _ ps0] exI[of _ resp] exI[of _ after] exI[of _ "cr_expiration e"])
       (simp add: new_entry_def time_add_def time_after_def cached_answer_def updateTTL_def Let_def)
qed

definition cached_query_example :: Msg where
  "cached_query_example = zero_Msg\<lparr>m_ID := 7, m_Question := [\<lparr>q_Name = ''A.test.'', q_Type = 1, q_Class = 1\<rparr>]\<rparr>"

definition cached_response_example :: Msg where
  "cached_response_example = zero_Msg\<lparr>m_Response := True, m_Question := [\<lparr>q_Name = ''a.test.'', q_Type = 1, q_Class = 1\<rparr>],
     m_Answer := [blocked_hinfo ''x'' 300]\<rparr>"

definition cached_state_example :: PluginsState where
  "cached_state_example = NewPluginsState \<lparr>qc_cacheNegMinTTL = 60, qc_cacheNegMaxTTL = 600, qc_cacheMinTTL = 60,
     qc_cacheMaxTTL = 86400, qc_rejectTTL = 10, qc_timeout = 1\<rparr> ''udp'' None ''udp'' 0"

theorem cache_answers_witness:
  "\<exists>c0 c' ps'. initCachedResponses 1 None = Some c0 \<and>
     PluginCache_Eval (\<lambda>x. x) (\<lambda>_. 0) 0 0 0 (fold (cache_step (\<lambda>x. x) (\<lambda>_. 0)) [Answer 0 0 cached_state_example cached_response_example] c0)
       cached_state_example cached_query_example = (False, c', ps', cached_query_example) \<and>
     map_option m_ID (ps_synthResponse ps') = Some 7"
proof -
  obtain c0 where c0: "initCachedResponses 1 None = Some c0"
    by (simp add: initCachedResponses_def NewSharded_def NewShardedWithShards_def DefaultShards_def shard_capacity_def sieve_New_def)
  let ?r = "PluginCache_Eval (\<lambda>x. x) (\<lambda>_. 0) 0 0 0 (fold (cache_step (\<lambda>x. x) (\<lambda>_. 0)) [Answer 0 0 cached_state_example cached_response_example] c0)
       cached_state_example cached_query_example"
  obtain c' ps' where r: "?r = (False, c', ps', cached_query_example)" "ps_cacheHit ps'"
    using c0
    by (auto simp: initCachedResponses_def NewSharded_def NewShardedWithShards_def DefaultShards_def shard_capacity_def
        sieve_New_def PluginCacheResponse_Eval_def PluginCache_Eval_def cacheable_def cached_response_example_def zero_Msg_def rcodes
        sharded_Insert_def sharded_Get_def getShardIndex_def sieve_Insert_def sieve_Get_def make_room_def Let_def
        computeCacheKey_def key_preimage_def cached_query_example_def cached_state_example_def NewPluginsState_def NormalizeRawQName_def
        str_bytes_def new_entry_def time_after_def time_add_def getMinTTL_def seconds_def second_def blocked_hinfo_def)
  have "\<not> ps_cacheHit cached_state_example" by (simp add: cached_state_example_def NewPluginsState_def)
  then show ?thesis using cache_answers[OF c0 r(1) _ r(2)] c0 r(1) by (auto simp: cached_query_example_def)
qed

end
