(* ===== verification/Go_Strings.thy ===== *)
theory Go_Strings
  imports Dns_Utils "HOL-Library.Sublist"
begin

text \<open>
  The functions of the packages \<^verbatim>\<open>strings\<close> and \<^verbatim>\<open>strconv\<close> that the proxy applies to rules and settings, and the
  string helpers of \<^verbatim>\<open>dnscrypt-proxy/common.go\<close>. Strings are taken to be ASCII, so that bytes and runes
  agree: \<^verbatim>\<open>strings.HasPrefix\<close>, \<^verbatim>\<open>strings.HasSuffix\<close> and \<^verbatim>\<open>strings.Contains\<close> are \<open>prefix\<close>, \<open>suffix\<close> and \<open>sublist\<close>,
  and \<^verbatim>\<open>strings.ToLower\<close> maps \<open>lower_char\<close>.
\<close>

section \<open>Library functions\<close>

definition ToLower :: "string \<Rightarrow> string" where
  "ToLower s = map lower_char s"

definition TrimPrefix :: "string \<Rightarrow> string \<Rightarrow> string" where
  "TrimPrefix s p = (if prefix p s then drop (length p) s else s)"

definition IsSpace :: "char \<Rightarrow> bool" where
  "IsSpace c \<longleftrightarrow> of_char c \<in> {9, 10, 11, 12, 13, 32 :: nat}"

definition TrimSpace :: "string \<Rightarrow> string" where
  "TrimSpace s = rev (dropWhile IsSpace (rev (dropWhile IsSpace s)))"

text \<open>\<^verbatim>\<open>strings.Split\<close> with a separator of one character.\<close>

primrec Split :: "string \<Rightarrow> char \<Rightarrow> string list" where
  "Split [] sep = [[]]"
| "Split (c # s) sep =
     (if c = sep then [] # Split s sep
      else case Split s sep of [] \<Rightarrow> [[c]] | part # parts \<Rightarrow> (c # part) # parts)"

text \<open>\<^verbatim>\<open>strings.LastIndexByte\<close>; \<open>None\<close> stands for -1.\<close>

definition LastIndexByte :: "string \<Rightarrow> char \<Rightarrow> nat option" where
  "LastIndexByte s c =
     (case find_index (\<lambda>x. x = c) (rev s) of None \<Rightarrow> None | Some i \<Rightarrow> Some (length s - 1 - i))"

text \<open>\<^verbatim>\<open>strconv.Atoi\<close> on a platform with 64-bit integers.\<close>

definition digit_of :: "char \<Rightarrow> nat option" where
  "digit_of c = (let n = of_char c :: nat in if 48 \<le> n \<and> n \<le> 57 then Some (n - 48) else None)"

primrec digits_from :: "string \<Rightarrow> nat \<Rightarrow> nat option" where
  "digits_from [] acc = Some acc"
| "digits_from (c # s) acc =
     (case digit_of c of None \<Rightarrow> None | Some d \<Rightarrow> digits_from s (acc * 10 + d))"

definition parse_digits :: "string \<Rightarrow> nat option" where
  "parse_digits s = (if s = [] then None else digits_from s 0)"

definition Atoi :: "string \<Rightarrow> int option" where
  "Atoi s =
     (let neg = prefix ''-'' s; body = (if neg \<or> prefix ''+'' s then tl s else s)
      in case parse_digits body of
           None \<Rightarrow> None
         | Some n \<Rightarrow>
             let v = (if neg then - int n else int n)
             in if - (2 ^ 63) \<le> v \<and> v < 2 ^ 63 then Some v else None)"

section \<open>String helpers of the proxy\<close>

definition StringReverse :: "string \<Rightarrow> string" where
  "StringReverse s = rev s"

definition StringTwoFields :: "string \<Rightarrow> string \<times> string \<times> bool" where
  "StringTwoFields str =
     (if length str < 3 then ([], [], False)
      else case find_index IsSpace str of
             None \<Rightarrow> ([], [], False)
           | Some pos \<Rightarrow>
               let a = TrimSpace (take pos str); b = TrimSpace (drop (pos + 1) str)
               in (a, b, length a \<noteq> 0 \<and> length b \<noteq> 0))"

definition StringStripSpaces :: "string \<Rightarrow> string" where
  "StringStripSpaces str = filter (\<lambda>c. \<not> IsSpace c) str"

definition TrimAndStripInlineComments :: "string \<Rightarrow> string" where
  "TrimAndStripInlineComments str =
     (case LastIndexByte str (CHR ''#'') of
        None \<Rightarrow> TrimSpace str
      | Some idx \<Rightarrow>
          if idx = 0 \<or> str ! 0 = CHR ''#'' then []
          else let prev = str ! (idx - 1)
               in TrimSpace (if prev = CHR '' '' \<or> prev = CHR 0x09 then take (idx - 1) str else str))"

definition ExtractHostAndPort :: "string \<Rightarrow> int \<Rightarrow> string \<times> int" where
  "ExtractHostAndPort str defaultPort =
     (case LastIndexByte str (CHR '':'') of
        None \<Rightarrow> (str, defaultPort)
      | Some idx \<Rightarrow>
          if idx < length str - 1
          then (case Atoi (drop (idx + 1) str) of
                  None \<Rightarrow> (str, defaultPort)
                | Some portX \<Rightarrow> (take idx str, portX))
          else (str, defaultPort))"

definition fqdn :: "string \<Rightarrow> string" where
  "fqdn name = (if length name = 0 \<or> last name = CHR ''.'' then name else name @ ''.'')"

text \<open>
  \<^verbatim>\<open>ProcessConfigLines\<close>: the processor runs on every line that is not empty once comments are stripped,
  with the state it changes made explicit, and the first error ends the loop.
\<close>

primrec config_lines_from :: "(string \<Rightarrow> nat \<Rightarrow> 's \<Rightarrow> 'e + 's) \<Rightarrow> nat \<Rightarrow> string list \<Rightarrow> 's \<Rightarrow> 'e + 's" where
  "config_lines_from processor lineNo [] s = Inr s"
| "config_lines_from processor lineNo (raw # rest) s =
     (let line = TrimAndStripInlineComments raw
      in if length line = 0 then config_lines_from processor (Suc lineNo) rest s
         else case processor line lineNo s of
                Inl e \<Rightarrow> Inl e
              | Inr s' \<Rightarrow> config_lines_from processor (Suc lineNo) rest s')"

definition ProcessConfigLines :: "string \<Rightarrow> (string \<Rightarrow> nat \<Rightarrow> 's \<Rightarrow> 'e + 's) \<Rightarrow> 's \<Rightarrow> 'e + 's" where
  "ProcessConfigLines lines processor s =
     config_lines_from processor 0 (Split lines (CHR 0x0A)) s"

section \<open>Lemmas\<close>

lemma Split_not_Nil [simp]: "Split s sep \<noteq> []"
  by (induction s) (auto split: list.splits)

text \<open>Splitting and joining are inverse to each other on parts without the separator.\<close>

lemma Split_part: "sep \<notin> set a \<Longrightarrow> Split (a @ b) sep = (a @ hd (Split b sep)) # tl (Split b sep)"
  by (induction a) auto

lemma Split_single: "sep \<notin> set a \<Longrightarrow> Split a sep = [a]"
  using Split_part[of sep a "[]"] by simp

lemma Split_pair: "sep \<notin> set a \<Longrightarrow> Split (a @ sep # b) sep = a # Split b sep"
  using Split_part[of sep a "sep # b"] by simp

lemma Split_parts: "part \<in> set (Split s sep) \<Longrightarrow> sep \<notin> set part"
  by (induction s arbitrary: part) (auto split: if_splits list.splits)

lemma Split_two: "Split s sep = [a, b] \<Longrightarrow> s = a @ sep # b"
proof (induction s arbitrary: a)
  case (Cons c s)
  show ?case
  proof (cases "c = sep")
    case True
    then have "Split s sep = [b]" "a = []" using Cons.prems by auto
    moreover have "s = b" if "Split s sep = [b]"
      using that by (induction s arbitrary: b) (auto split: if_splits list.splits)
    ultimately show ?thesis using True by simp
  next
    case False
    then obtain a' where "Split s sep = [a', b]" "a = c # a'"
      using Cons.prems by (cases "Split s sep") auto
    then show ?thesis using Cons.IH by simp
  qed
qed simp

lemma TrimSpace_noop: "(s = [] \<or> \<not> IsSpace (hd s) \<and> \<not> IsSpace (last s)) \<Longrightarrow> TrimSpace s = s"
proof -
  assume *: "s = [] \<or> \<not> IsSpace (hd s) \<and> \<not> IsSpace (last s)"
  then have "dropWhile IsSpace s = s" "dropWhile IsSpace (rev s) = rev s"
    unfolding dropWhile_eq_self_iff by (auto simp: hd_rev)
  then show ?thesis by (simp add: TrimSpace_def)
qed

lemma lower_idem [simp]: "lower_char (lower_char c) = lower_char c"
proof (cases "is_upper c")
  case True
  then have "65 \<le> (of_char c :: nat)" "(of_char c :: nat) \<le> 90" by (auto simp: is_upper_def)
  then show ?thesis by (auto simp: lower_char_def is_upper_def)
qed (simp add: lower_char_id)

lemma ToLower_idem [simp]: "ToLower (ToLower s) = ToLower s"
  by (simp add: ToLower_def comp_def)

lemma digits_from_snoc: "digits_from (s @ [c]) acc =
  (case digits_from s acc of None \<Rightarrow> None | Some n \<Rightarrow> (case digit_of c of None \<Rightarrow> None | Some d \<Rightarrow> Some (n * 10 + d)))"
  by (induction s arbitrary: acc) (auto split: option.splits)

text \<open>
  Only the last number sign of a line counts, and only if a blank precedes it: a comment that contains
  another one stays in the line.
\<close>

lemma comment_with_number_sign:
  "TrimAndStripInlineComments ''ads.example # list #2'' = ''ads.example # list''"
  "TrimAndStripInlineComments ''ads.example # see issue#2'' = ''ads.example # see issue#2''"
  by code_simp+

end
