(* ===== verification/Ip_Text.thy ===== *)
theory Ip_Text
  imports Go_Strings
begin

text \<open>
  The textual forms of IP addresses: \<^verbatim>\<open>net.ParseIP\<close> and the \<^verbatim>\<open>String\<close> methods of \<^verbatim>\<open>net.IP\<close> and
  \<^verbatim>\<open>netip.Addr\<close> of the Go library, which rules, settings and the address filters rely on. An address is its
  sequence of 4 or 16 bytes; \<^verbatim>\<open>net.ParseIP\<close> returns the 16-byte form.
\<close>

section \<open>Parsing\<close>

text \<open>
  \<^verbatim>\<open>parseIPv4Fields\<close>: the flag tells that a field begins here, at the start or after a dot; \<open>octets\<close> are
  the octets read so far.
\<close>

primrec v4_scan :: "string \<Rightarrow> bool \<Rightarrow> nat \<Rightarrow> nat \<Rightarrow> bytes \<Rightarrow> bytes option" where
  "v4_scan [] fresh v digLen octets = (if length octets < 3 then None else Some (octets @ [of_nat v]))"
| "v4_scan (c # s) fresh v digLen octets =
     (case digit_of c of
        Some d \<Rightarrow>
          if digLen = 1 \<and> v = 0 then None
          else if v * 10 + d > 255 then None
          else v4_scan s False (v * 10 + d) (digLen + 1) octets
      | None \<Rightarrow>
          if c \<noteq> CHR ''.'' then None
          else if fresh \<or> s = [] then None
          else if length octets = 3 then None
          else v4_scan s True 0 0 (octets @ [of_nat v]))"

definition parseIPv4Fields :: "string \<Rightarrow> bytes option" where
  "parseIPv4Fields s = v4_scan s True 0 0 []"

definition hex_of :: "char \<Rightarrow> nat option" where
  "hex_of c =
     (let n = of_char c :: nat
      in if 48 \<le> n \<and> n \<le> 57 then Some (n - 48)
         else if 97 \<le> n \<and> n \<le> 102 then Some (n - 97 + 10)
         else if 65 \<le> n \<and> n \<le> 70 then Some (n - 65 + 10)
         else None)"

text \<open>A group of hexadecimal digits: its value, the number of digits and what follows.\<close>

primrec hex_group :: "string \<Rightarrow> nat \<Rightarrow> nat \<Rightarrow> (nat \<times> nat \<times> string) option" where
  "hex_group [] off acc = Some (acc, off, [])"
| "hex_group (c # s) off acc =
     (case hex_of c of
        None \<Rightarrow> Some (acc, off, c # s)
      | Some d \<Rightarrow>
          if off > 3 then None
          else if acc * 16 + d > 65535 then None
          else hex_group s (off + 1) (acc * 16 + d))"

definition group_bytes :: "nat \<Rightarrow> bytes" where
  "group_bytes n = [of_nat (n div 256), of_nat n]"

text \<open>The bytes so far, the position of the ellipsis and the rest of the text.\<close>

function v6_loop :: "bytes \<Rightarrow> nat option \<Rightarrow> string \<Rightarrow> (bytes \<times> nat option \<times> string) option" where
  "v6_loop ip ellipsis s =
     (if length ip \<ge> 16 then Some (ip, ellipsis, s)
      else case hex_group s 0 0 of
             None \<Rightarrow> None
           | Some (acc, off, rest) \<Rightarrow>
               if off = 0 then None
               else if rest \<noteq> [] \<and> hd rest = CHR ''.''
               then if ellipsis = None \<and> length ip \<noteq> 12 then None
                    else if length ip + 4 > 16 then None
                    else (case parseIPv4Fields s of
                            None \<Rightarrow> None
                          | Some octets \<Rightarrow> Some (ip @ octets, ellipsis, []))
               else let ip1 = ip @ group_bytes acc
                    in if rest = [] then Some (ip1, ellipsis, [])
                       else if hd rest \<noteq> CHR '':'' then None
                       else if length rest = 1 then None
                       else let s1 = tl rest
                            in if hd s1 = CHR '':''
                               then if ellipsis \<noteq> None then None
                                    else if tl s1 = [] then Some (ip1, Some (length ip1), [])
                                    else v6_loop ip1 (Some (length ip1)) (tl s1)
                               else v6_loop ip1 ellipsis s1)"
  by pat_completeness auto
termination
  by (relation "measure (\<lambda>(ip, ellipsis, s). 16 - length ip)") (auto simp: group_bytes_def)

declare v6_loop.simps [simp del]

definition expand :: "bytes \<Rightarrow> nat option \<Rightarrow> bytes option" where
  "expand ip ellipsis =
     (if length ip < 16
      then case ellipsis of
             None \<Rightarrow> None
           | Some e \<Rightarrow> Some (take e ip @ replicate (16 - length ip) 0 @ drop e ip)
      else if ellipsis \<noteq> None then None
      else Some ip)"

definition parseIPv6 :: "string \<Rightarrow> bytes option" where
  "parseIPv6 s0 =
     (let leading = prefix ''::'' s0; s = (if leading then drop 2 s0 else s0)
      in if leading \<and> s = [] then Some (replicate 16 0)
         else case v6_loop [] (if leading then Some 0 else None) s of
                None \<Rightarrow> None
              | Some (ip, ellipsis, rest) \<Rightarrow> if rest \<noteq> [] then None else expand ip ellipsis)"

text \<open>An address with a zone is refused, so a percent sign never occurs in what is accepted.\<close>

definition ParseIP :: "string \<Rightarrow> bytes option" where
  "ParseIP s =
     (case find (\<lambda>c. c = CHR ''.'' \<or> c = CHR '':'' \<or> c = CHR ''%'') s of
        None \<Rightarrow> None
      | Some c \<Rightarrow>
          if c = CHR ''.'' then map_option (\<lambda>ip4. v4_prefix @ ip4) (parseIPv4Fields s)
          else if c = CHR ''%'' \<or> CHR ''%'' \<in> set s then None
          else parseIPv6 s)"

section \<open>Printing\<close>

definition digit_char :: "nat \<Rightarrow> char" where
  "digit_char d = (if d < 10 then char_of (48 + d) else char_of (87 + d))"

definition decimal :: "nat \<Rightarrow> string" where
  "decimal x =
     (if x \<ge> 100 then [digit_char (x div 100)] else []) @
     (if x \<ge> 10 then [digit_char (x div 10 mod 10)] else []) @ [digit_char (x mod 10)]"

definition hex :: "nat \<Rightarrow> string" where
  "hex x =
     (if x \<ge> 4096 then [digit_char (x div 4096)] else []) @
     (if x \<ge> 256 then [digit_char (x div 256 mod 16)] else []) @
     (if x \<ge> 16 then [digit_char (x div 16 mod 16)] else []) @ [digit_char (x mod 16)]"

primrec join :: "string \<Rightarrow> string list \<Rightarrow> string" where
  "join sep [] = []"
| "join sep (x # xs) = (if xs = [] then x else x @ sep @ join sep xs)"

definition string4 :: "bytes \<Rightarrow> string" where
  "string4 ip = join ''.'' (map (\<lambda>b. decimal (unat b)) ip)"

fun groups :: "bytes \<Rightarrow> nat list" where
  "groups (a # b # rest) = (unat a * 256 + unat b) # groups rest"
| "groups _ = []"

definition zero_run :: "nat list \<Rightarrow> nat" where
  "zero_run gs = length (takeWhile (\<lambda>g. g = 0) gs)"

text \<open>The start and the end of the longest run of zero groups, of at least two.\<close>

definition best_run :: "nat list \<Rightarrow> nat \<times> nat" where
  "best_run gs =
     fold (\<lambda>i (zeroStart, zeroEnd).
             let l = zero_run (drop i gs)
             in if l \<ge> 2 \<and> l > zeroEnd - zeroStart then (i, i + l) else (zeroStart, zeroEnd))
       [0..<8] (255, 255)"

definition string6 :: "bytes \<Rightarrow> string" where
  "string6 ip =
     (let gs = groups ip
      in case best_run gs of
           (zeroStart, zeroEnd) \<Rightarrow>
             if zeroStart < 8
             then join '':'' (map hex (take zeroStart gs)) @ ''::'' @ join '':'' (map hex (drop zeroEnd gs))
             else join '':'' (map hex gs))"

text \<open>\<^verbatim>\<open>net.IP.String\<close> on an address of 4 or 16 bytes.\<close>

definition IP_String :: "bytes \<Rightarrow> string" where
  "IP_String ip = (case To4 ip of Some ip4 \<Rightarrow> string4 ip4 | None \<Rightarrow> string6 ip)"

section \<open>Printing and parsing are inverse\<close>

lemma digit_of_digit_char [simp]: "d < 10 \<Longrightarrow> digit_of (digit_char d) = Some d"
  by (simp add: digit_of_def digit_char_def Let_def)

lemma hex_of_char [simp]: "d < 16 \<Longrightarrow> hex_of (digit_char d) = Some d"
  by (simp add: hex_of_def digit_char_def Let_def)

lemma hex_of_sep [simp]: "hex_of (CHR '':'') = None" "hex_of (CHR ''.'') = None" "digit_of (CHR ''.'') = None" "digit_of (CHR '':'') = None"
  by (simp_all add: hex_of_def digit_of_def Let_def)

lemma v4_scan_decimal:
  assumes "n \<le> 255"
  shows "\<exists>k. v4_scan (decimal n @ rest) fresh 0 0 octets = v4_scan rest False n k octets"
proof -
  consider (one) "n < 10" | (two) "10 \<le> n" "n < 100" | (three) "100 \<le> n" by linarith
  then show ?thesis
  proof cases
    case one
    then show ?thesis using assms by (simp add: decimal_def) blast
  next
    case two
    then have "n div 10 < 10" "n div 10 mod 10 = n div 10" "n div 10 * 10 + n mod 10 = n" "n div 10 \<noteq> 0" "\<not> 255 < n div 10" by auto
    then show ?thesis using two assms by (simp add: decimal_def) blast
  next
    case three
    have "n div 100 < 10" "n div 100 \<noteq> 0" "n div 100 \<le> 255" using assms three by auto
    moreover have v: "n div 100 * 10 + n div 10 mod 10 = n div 10" using div_mult_mod_eq[of "n div 10" 10] by (simp add: div_mult2_eq[symmetric])
    moreover have "\<not> 255 < n div 10" "n div 10 * 10 + n mod 10 = n" "n div 10 \<noteq> 0" using assms three by auto
    ultimately show ?thesis using three assms by (auto simp: decimal_def)
  qed
qed

lemma unat_byte: "unat (b :: byte) \<le> 255"
proof -
  have "unat b < 2 ^ LENGTH(8)" by (rule unsigned_less)
  then show ?thesis by simp
qed

lemma v4_scan_string4:
  assumes "length octets + length ip = 4" "ip \<noteq> []"
  shows "v4_scan (string4 ip) fresh 0 0 octets = Some (octets @ ip)"
  using assms
proof (induction ip arbitrary: octets fresh)
  case (Cons b rest)
  have b: "unat b \<le> 255" by (rule unat_byte)
  show ?case
  proof (cases "rest = []")
    case True
    then show ?thesis using v4_scan_decimal[OF b, of "[]" fresh octets] Cons.prems by (auto simp: string4_def)
  next
    case False
    then have ne: "string4 rest \<noteq> []" by (cases rest) (auto simp: string4_def decimal_def)
    have str: "string4 (b # rest) = decimal (unat b) @ ''.'' @ string4 rest" using False by (simp add: string4_def)
    obtain k where "v4_scan (string4 (b # rest)) fresh 0 0 octets = v4_scan (''.'' @ string4 rest) False (unat b) k octets"
      unfolding str using v4_scan_decimal[OF b] by blast
    also have "\<dots> = v4_scan (string4 rest) True 0 0 (octets @ [b])" using ne False Cons.prems(1) by (cases rest) auto
    also have "\<dots> = Some ((octets @ [b]) @ rest)" using Cons.prems(1) False by (intro Cons.IH) auto
    finally show ?thesis by simp
  qed
qed simp

lemma parse_string4: "length ip = 4 \<Longrightarrow> parseIPv4Fields (string4 ip) = Some ip"
  unfolding parseIPv4Fields_def by (subst v4_scan_string4) auto

lemma hex_group_hex:
  assumes "n \<le> 65535" "rest = [] \<or> hex_of (hd rest) = None"
  shows "hex_group (hex n @ rest) 0 0 = Some (n, length (hex n), rest)"
proof -
  have stop: "hex_group rest k v = Some (v, k, rest)" for k v using assms(2) by (cases rest) auto
  have d: "n div 4096 < 16" "n div 4096 * 16 + n div 256 mod 16 = n div 256" "n div 256 * 16 + n div 16 mod 16 = n div 16"
    "n div 16 * 16 + n mod 16 = n" "n div 16 \<le> 65535" "n div 256 \<le> 65535" "n div 4096 \<le> 65535"
    using assms(1) div_mult_mod_eq[of "n div 256" 16] div_mult_mod_eq[of "n div 16" 16]
    by (auto simp: div_mult2_eq[symmetric])
  consider (one) "n < 16" | (two) "16 \<le> n" "n < 256" | (three) "256 \<le> n" "n < 4096" | (four) "4096 \<le> n" by linarith
  then show ?thesis
  proof cases
    case one
    then show ?thesis by (simp add: hex_def stop)
  next
    case two
    then have "n div 16 mod 16 = n div 16" "n div 16 < 16" by auto
    then show ?thesis using two d(4) by (simp add: hex_def stop)
  next
    case three
    then have "n div 256 mod 16 = n div 256" "n div 256 < 16" by auto
    then show ?thesis using three d(3,4) by (simp add: hex_def stop)
  next
    case four
    then show ?thesis using assms(1) d(2-4) by (simp add: hex_def stop)
  qed
qed

lemma hex_not_Nil [simp]: "hex n \<noteq> []" "0 < length (hex n)"
  by (simp_all add: hex_def)

lemma digit_char_neq: "d < 16 \<Longrightarrow> digit_char d \<noteq> CHR '':'' \<and> digit_char d \<noteq> CHR ''.'' \<and> digit_char d \<noteq> CHR ''%''"
  by (auto simp: digit_char_def char_of_eq_iff take_bit_eq_mod split: if_splits)

lemma hex_chars: "n \<le> 65535 \<Longrightarrow> c \<in> set (hex n) \<Longrightarrow> c \<noteq> CHR '':'' \<and> c \<noteq> CHR ''.'' \<and> c \<noteq> CHR ''%''"
  using digit_char_neq by (auto simp: hex_def split: if_splits)

lemma hd_hex: "n \<le> 65535 \<Longrightarrow> hd (hex n @ rest) \<noteq> CHR '':''"
  using hex_chars[of n "hd (hex n)"] by (simp add: hd_append)

lemma join_not_Nil: "gs \<noteq> [] \<Longrightarrow> join '':'' (map hex gs) \<noteq> []"
  by (cases gs) auto

lemma hd_join: "gs \<noteq> [] \<Longrightarrow> \<forall>g \<in> set gs. g \<le> 65535 \<Longrightarrow> hd (join '':'' (map hex gs) @ rest) \<noteq> CHR '':''"
  by (cases gs) (use hd_hex in \<open>auto simp: hd_append\<close>)

abbreviation group_list :: "nat list \<Rightarrow> bytes" where
  "group_list gs \<equiv> concat (map group_bytes gs)"

lemma length_group_bytes [simp]: "length (group_bytes g) = 2"
  by (simp add: group_bytes_def)

lemma length_group_list [simp]: "length (group_list gs) = 2 * length gs"
  by (induction gs) auto

text \<open>One group and the colon after it.\<close>

lemma v6_loop_group:
  assumes "n \<le> 65535" "length ip < 16" "rest \<noteq> []" "hd rest \<noteq> CHR '':''"
  shows "v6_loop ip ell (hex n @ CHR '':'' # rest) = v6_loop (ip @ group_bytes n) ell rest"
  using assms by (subst v6_loop.simps) (simp add: hex_group_hex)

lemma v6_loop_last:
  "n \<le> 65535 \<Longrightarrow> length ip < 16 \<Longrightarrow> v6_loop ip ell (hex n) = Some (ip @ group_bytes n, ell, [])"
  using hex_group_hex[of n "[]"] by (subst v6_loop.simps) simp

lemma v6_loop_ellipsis:
  assumes "n \<le> 65535" "length ip < 16"
  shows "v6_loop ip None (hex n @ CHR '':'' # CHR '':'' # rest) =
    (if rest = [] then Some (ip @ group_bytes n, Some (length ip + 2), [])
     else v6_loop (ip @ group_bytes n) (Some (length ip + 2)) rest)"
  using assms by (subst v6_loop.simps) (simp add: hex_group_hex)

lemma v6_loop_join:
  assumes "gs \<noteq> []" "\<forall>g \<in> set gs. g \<le> 65535" "length ip + 2 * length gs \<le> 16"
  shows "v6_loop ip ell (join '':'' (map hex gs)) = Some (ip @ group_list gs, ell, [])"
  using assms
proof (induction gs arbitrary: ip)
  case (Cons g gs)
  show ?case
  proof (cases "gs = []")
    case True
    then show ?thesis using Cons.prems by (simp add: v6_loop_last)
  next
    case False
    then have "v6_loop ip ell (join '':'' (map hex (g # gs))) = v6_loop (ip @ group_bytes g) ell (join '':'' (map hex gs))"
      using Cons.prems v6_loop_group[of g ip "join '':'' (map hex gs)" ell] join_not_Nil[OF False] hd_join[OF False, of "[]"] by simp
    then show ?thesis using Cons.IH[of "ip @ group_bytes g"] Cons.prems False by simp
  qed
qed simp

lemma v6_loop_join_ellipsis:
  assumes "gs \<noteq> []" "\<forall>g \<in> set (gs @ hs). g \<le> 65535" "length ip + 2 * length gs + 2 * length hs \<le> 16"
  shows "v6_loop ip None (join '':'' (map hex gs) @ ''::'' @ join '':'' (map hex hs)) =
    Some (ip @ group_list gs @ group_list hs, Some (length ip + 2 * length gs), [])"
  using assms
proof (induction gs arbitrary: ip)
  case (Cons g gs)
  show ?case
  proof (cases "gs = []")
    case True
    then show ?thesis
      using Cons.prems v6_loop_ellipsis[of g ip "join '':'' (map hex hs)"] v6_loop_join[of hs "ip @ group_bytes g" "Some (length ip + 2)"] join_not_Nil[of hs]
      by (cases "hs = []") auto
  next
    case False
    then have "v6_loop ip None (join '':'' (map hex (g # gs)) @ ''::'' @ join '':'' (map hex hs)) =
        v6_loop (ip @ group_bytes g) None (join '':'' (map hex gs) @ ''::'' @ join '':'' (map hex hs))"
      using Cons.prems v6_loop_group[of g ip "join '':'' (map hex gs) @ ''::'' @ join '':'' (map hex hs)" None]
        join_not_Nil[OF False] hd_join[OF False, of "''::'' @ join '':'' (map hex hs)"] by simp
    then show ?thesis using Cons.IH[of "ip @ group_bytes g"] Cons.prems False by simp
  qed
qed simp

section \<open>The run of zeros\<close>

definition run_ok :: "nat list \<Rightarrow> nat \<times> nat \<Rightarrow> bool" where
  "run_ok gs r \<longleftrightarrow> r = (255, 255) \<or> (fst r + 2 \<le> snd r \<and> snd r \<le> length gs \<and> (\<forall>i. fst r \<le> i \<and> i < snd r \<longrightarrow> gs ! i = 0))"

lemma zero_run_zero: "i \<le> length gs \<Longrightarrow> i \<le> j \<Longrightarrow> j < i + zero_run (drop i gs) \<Longrightarrow> gs ! j = 0"
proof -
  assume a: "i \<le> length gs" "i \<le> j" "j < i + zero_run (drop i gs)"
  let ?t = "takeWhile (\<lambda>g. g = 0) (drop i gs)"
  have k: "j - i < length ?t" using a(2,3) by (simp add: zero_run_def)
  then have "?t ! (j - i) \<in> set ?t" by simp
  then have "?t ! (j - i) = 0" by (rule set_takeWhileD[THEN conjunct2])
  then show ?thesis using takeWhile_nth[OF k] a(1,2) by simp
qed

lemma zero_run_le: "zero_run gs \<le> length gs"
  by (simp add: zero_run_def length_takeWhile_le)

lemma best_run_ok: "8 \<le> length gs \<Longrightarrow> run_ok gs (best_run gs)"
  unfolding best_run_def
proof (rule fold_invariant[where Q = "\<lambda>i. i < 8"])
  fix i r
  assume a: "8 \<le> length gs" "i < (8 :: nat)" "run_ok gs r"
  obtain zs ze where r: "r = (zs, ze)" by (cases r)
  let ?l = "zero_run (drop i gs)"
  show "run_ok gs (case r of (zeroStart, zeroEnd) \<Rightarrow>
      let l = zero_run (drop i gs) in if l \<ge> 2 \<and> l > zeroEnd - zeroStart then (i, i + l) else (zeroStart, zeroEnd))"
  proof (cases "?l \<ge> 2 \<and> ?l > ze - zs")
    case True
    have "i + ?l \<le> length gs" using zero_run_le[of "drop i gs"] a(1,2) by simp
    then show ?thesis using True a(1,2) zero_run_zero[of i gs] by (auto simp: r run_ok_def Let_def)
  next
    case False
    then show ?thesis using a(3) by (auto simp: r Let_def)
  qed
qed (auto simp: run_ok_def)

lemma groups_ok: "even (length ip) \<Longrightarrow> group_list (groups ip) = ip \<and> 2 * length (groups ip) = length ip \<and> (\<forall>g \<in> set (groups ip). g \<le> 65535)"
proof (induction ip rule: groups.induct)
  case (1 a b rest)
  have "unat a \<le> 255" "unat b \<le> 255" by (rule unat_byte)+
  then have "unat a * 256 + unat b \<le> 65535" "(unat a * 256 + unat b) div 256 = unat a" by auto
  moreover have z: "(256 :: byte) = 0" by simp
  have "(of_nat (unat a * 256 + unat b) :: byte) = a * 256 + b" by simp
  then have "(of_nat (unat a * 256 + unat b) :: byte) = b" by (simp only: z mult_zero_right add_0_left)
  ultimately show ?case using 1 by (auto simp: group_bytes_def)
qed auto

lemma zero_group_list: "\<forall>g \<in> set gs. g = 0 \<Longrightarrow> group_list gs = replicate (2 * length gs) 0"
  by (induction gs) (auto simp: group_bytes_def numeral_2_eq_2)

lemma split_run:
  assumes "run_ok gs (zs, ze)" "zs < 8" "length gs = 8"
  shows "group_list gs = group_list (take zs gs) @ replicate (16 - 2 * (zs + (8 - ze))) 0 @ group_list (drop ze gs)"
    and "zs + (8 - ze) < 8" "zs \<le> 8" "ze \<le> 8"
proof -
  have r: "zs + 2 \<le> ze" "ze \<le> 8" "\<forall>i. zs \<le> i \<and> i < ze \<longrightarrow> gs ! i = 0" using assms by (auto simp: run_ok_def)
  then show "zs + (8 - ze) < 8" "zs \<le> 8" "ze \<le> 8" by auto
  let ?m = "take (ze - zs) (drop zs gs)"
  have "gs = take zs gs @ ?m @ drop ze gs"
    using r(1) append_take_drop_id[of zs gs] append_take_drop_id[of "ze - zs" "drop zs gs"] by simp
  then have "group_list gs = group_list (take zs gs) @ group_list ?m @ group_list (drop ze gs)"
    by (metis concat_append map_append)
  moreover have "\<forall>g \<in> set ?m. g = 0" using r assms(3) by (auto simp: in_set_conv_nth)
  then have "group_list ?m = replicate (2 * length ?m) 0" by (rule zero_group_list)
  moreover have "2 * length ?m = 16 - 2 * (zs + (8 - ze))" using r assms(3) by simp
  ultimately show "group_list gs = group_list (take zs gs) @ replicate (16 - 2 * (zs + (8 - ze))) 0 @ group_list (drop ze gs)" by simp
qed

lemma parse_string6:
  assumes "length ip = 16"
  shows "parseIPv6 (string6 ip) = Some ip"
proof -
  define gs where "gs = groups ip"
  have gs: "group_list gs = ip" "length gs = 8" "\<forall>g \<in> set gs. g \<le> 65535" using groups_ok[of ip] assms by (auto simp: gs_def)
  obtain zs ze where r: "best_run gs = (zs, ze)" by (cases "best_run gs")
  have ok: "run_ok gs (zs, ze)" using best_run_ok[of gs] gs(2) r by simp
  have ne: "gs \<noteq> []" using gs(2) by auto
  show ?thesis
  proof (cases "zs < 8")
    case False
    then have s: "string6 ip = join '':'' (map hex gs)" by (simp add: string6_def gs_def[symmetric] r)
    have "\<not> prefix ''::'' (string6 ip)" using hd_join[OF ne gs(3), of "[]"] unfolding s by (auto simp: prefix_def)
    then show ?thesis using v6_loop_join[OF ne gs(3), of "[]" None] gs(1,2) assms
      by (simp add: parseIPv6_def s[symmetric] expand_def)
  next
    case True
    let ?hs = "drop ze gs"
    have s: "string6 ip = join '':'' (map hex (take zs gs)) @ ''::'' @ join '':'' (map hex ?hs)"
      using True by (simp add: string6_def gs_def[symmetric] r)
    note run = split_run[OF ok True gs(2)]
    have ip: "ip = group_list (take zs gs) @ replicate (16 - 2 * (zs + (8 - ze))) 0 @ group_list ?hs" using run(1) gs(1) by simp
    have hs: "\<forall>g \<in> set ?hs. g \<le> 65535" using gs(3) by (auto dest: in_set_dropD)
    have len: "length ?hs = 8 - ze" "length (take zs gs) = zs" using gs(2) run(3) by simp_all
    show ?thesis
    proof (cases "zs = 0")
      case zs: True
      then have lead: "string6 ip = ''::'' @ join '':'' (map hex ?hs)" using s by simp
      show ?thesis
      proof (cases "?hs = []")
        case True
        then show ?thesis using ip zs len run(2) unfolding parseIPv6_def lead by (simp add: Let_def)
      next
        case False
        then show ?thesis using v6_loop_join[OF False hs, of "[]" "Some 0"] join_not_Nil[OF False] len run(2) ip zs
          unfolding parseIPv6_def lead by (simp add: Let_def expand_def)
      qed
    next
      case zs: False
      then have ne': "take zs gs \<noteq> []" using ne by simp
      have all: "\<forall>g \<in> set (take zs gs @ ?hs). g \<le> 65535" using gs(3) by (auto dest: in_set_dropD in_set_takeD)
      have "\<not> prefix ''::'' (string6 ip)"
        using hd_join[OF ne', of "''::'' @ join '':'' (map hex ?hs)"] all unfolding s by (auto simp: prefix_def)
      moreover have "v6_loop [] None (string6 ip) = Some (group_list (take zs gs) @ group_list ?hs, Some (2 * zs), [])"
        using v6_loop_join_ellipsis[OF ne' all, of "[]"] len run(2,3) unfolding s by simp
      moreover have "expand (group_list (take zs gs) @ group_list ?hs) (Some (2 * zs)) =
          Some (group_list (take zs gs) @ replicate (16 - 2 * (zs + (8 - ze))) 0 @ group_list ?hs)"
        using len run(2) by (simp add: expand_def)
      ultimately show ?thesis using ip[symmetric] by (simp add: parseIPv6_def Let_def)
    qed
  qed
qed

section \<open>The round trip\<close>

lemma find_char:
  assumes "\<And>c. c \<in> set s \<Longrightarrow> P c \<Longrightarrow> c = x" "P x" "x \<in> set s"
  shows "find P s = Some x"
  using assms
proof (induction s)
  case (Cons a s)
  show ?case
  proof (cases "P a")
    case True
    then have "a = x" using Cons.prems(1)[of a] by simp
    then show ?thesis using True by simp
  next
    case False
    then have x: "x \<in> set s" using Cons.prems(2,3) by auto
    have step: "\<And>c. c \<in> set s \<Longrightarrow> P c \<Longrightarrow> c = x" by (rule Cons.prems(1)) auto
    have "find P s = Some x" by (rule Cons.IH[OF step Cons.prems(2) x])
    then show ?thesis using False by simp
  qed
qed simp

lemma decimal_chars: "n \<le> 255 \<Longrightarrow> c \<in> set (decimal n) \<Longrightarrow> c \<noteq> CHR '':'' \<and> c \<noteq> CHR ''.'' \<and> c \<noteq> CHR ''%''"
  using digit_char_neq by (auto simp: decimal_def split: if_splits)

lemma set_join: "set (join [c] xs) \<subseteq> {c} \<union> (\<Union>x \<in> set xs. set x)"
  by (induction xs) auto

lemma find_string4:
  assumes "length ip = 4"
  shows "find (\<lambda>c. c = CHR ''.'' \<or> c = CHR '':'' \<or> c = CHR ''%'') (string4 ip) = Some (CHR ''.'')"
proof (rule find_char)
  show "c = CHR ''.''" if "c \<in> set (string4 ip)" "c = CHR ''.'' \<or> c = CHR '':'' \<or> c = CHR ''%''" for c
    using that set_join[of "CHR ''.''" "map (\<lambda>b. decimal (unat b)) ip"] decimal_chars[OF unat_byte] by (fastforce simp: string4_def)
  show "CHR ''.'' \<in> set (string4 ip)" using assms by (auto simp: string4_def numeral_eq_Suc length_Suc_conv)
qed simp

lemma string6_chars:
  assumes "length ip = 16"
  shows "\<forall>c \<in> set (string6 ip). c \<noteq> CHR ''.'' \<and> c \<noteq> CHR ''%''" "CHR '':'' \<in> set (string6 ip)"
proof -
  define gs where "gs = groups ip"
  have gs: "length gs = 8" "\<forall>g \<in> set gs. g \<le> 65535" using groups_ok[of ip] assms by (auto simp: gs_def)
  obtain zs ze where r: "best_run gs = (zs, ze)" by (cases "best_run gs")
  have j: "c \<noteq> CHR ''.'' \<and> c \<noteq> CHR ''%''" if "c \<in> set (join '':'' (map hex hs))" "set hs \<subseteq> set gs" for c hs
    using set_join[of "CHR '':''" "map hex hs"] that hex_chars gs(2) by fastforce
  show "\<forall>c \<in> set (string6 ip). c \<noteq> CHR ''.'' \<and> c \<noteq> CHR ''%''"
    using j[of _ gs] j[of _ "take zs gs"] j[of _ "drop ze gs"] set_take_subset[of zs gs] set_drop_subset[of ze gs]
    by (auto simp: string6_def gs_def[symmetric] r)
  have "CHR '':'' \<in> set (join '':'' (map hex gs))" using gs(1) by (auto simp: numeral_eq_Suc length_Suc_conv)
  then show "CHR '':'' \<in> set (string6 ip)" by (auto simp: string6_def gs_def[symmetric] r)
qed

text \<open>Parsing the text of an address gives the address back, in its 16-byte form.\<close>

lemma ParseIP_String:
  assumes "length ip = 4 \<or> length ip = 16"
  shows "ParseIP (IP_String ip) = To16 ip"
proof (cases "To4 ip")
  case None
  then have len: "length ip = 16" using assms by (auto simp: To4_def)
  have "find (\<lambda>c. c = CHR ''.'' \<or> c = CHR '':'' \<or> c = CHR ''%'') (string6 ip) = Some (CHR '':'')"
    using string6_chars[OF len] by (intro find_char) auto
  moreover have "CHR ''%'' \<notin> set (string6 ip)" using string6_chars(1)[OF len] by auto
  ultimately show ?thesis using None len parse_string6[OF len] by (simp add: IP_String_def ParseIP_def To16_def)
next
  case (Some ip4)
  then have "length ip4 = 4" "v4_prefix @ ip4 = the (To16 ip)" "To16 ip \<noteq> None"
    by (auto simp: To4_def To16_def split: if_splits) (metis append_take_drop_id)+
  then show ?thesis using Some find_string4[of ip4] parse_string4[of ip4] by (auto simp: IP_String_def ParseIP_def)
qed

lemma To4_To16: "To4 ip = Some ip4 \<Longrightarrow> To16 ip = Some (v4_prefix @ ip4) \<and> length ip4 = 4"
  by (auto simp: To4_def To16_def split: if_splits) (metis append_take_drop_id)+

text \<open>The text of an address determines it.\<close>

lemma IP_String_inj:
  assumes "length a = 4 \<or> length a = 16" "length b = 4 \<or> length b = 16" "IP_String a = IP_String b"
  shows "To16 a = To16 b"
  using ParseIP_String[OF assms(1)] ParseIP_String[OF assms(2)] assms(3) by simp

end
