(* ===== verification/Plugins_Simple.thy ===== *)
theory Plugins_Simple
  imports Plugins Ip_Text
begin

text \<open>
  The plugins that decide on the message and their settings alone: \<^verbatim>\<open>plugin_block_ipv6.go\<close>,
  \<^verbatim>\<open>plugin_block_unqualified.go\<close>, \<^verbatim>\<open>plugin_firefox.go\<close>, \<^verbatim>\<open>plugin_ecs.go\<close>, \<^verbatim>\<open>plugin_get_set_payload_size.go\<close>,
  \<^verbatim>\<open>plugin_querymeta.go\<close>, \<^verbatim>\<open>plugin_captive_portal.go\<close>, and the captive portal responder of
  \<^verbatim>\<open>coldstart.go\<close>. They do not touch the shared state, whatever its type. Plugins are called with one
  question, so \<open>hd\<close> is the question. Log messages are left out.
\<close>

definition synthesize :: "Msg \<Rightarrow> PluginsState \<Rightarrow> PluginsState" where
  "synthesize synth ps =
     ps\<lparr>ps_synthResponse := Some synth, ps_action := PluginsActionSynth, ps_returnCode := PluginsReturnCodeSynth\<rparr>"

section \<open>Blocking\<close>

definition parent_zone :: "string \<Rightarrow> string" where
  "parent_zone qName =
     (case find_index (\<lambda>c. c = CHR ''.'') qName of
        None \<Rightarrow> ''.''
      | Some i \<Rightarrow> if i + 1 \<ge> length qName then ''.'' else drop (i + 1) qName)"

definition blocked_ipv6_response :: "Msg \<Rightarrow> Msg" where
  "blocked_ipv6_response msg =
     (let qName = q_Name (hd (m_Question msg))
      in (EmptyResponseFromMessage msg)\<lparr>
           m_Answer := [\<lparr>rr_Name = qName, rr_Class = ClassINET, rr_TTL = 86400,
                         rr_Data = RD_HINFO ''AAAA queries have been locally blocked by dnscrypt-proxy''
                                     ''Set block_ipv6 to false to disable this feature''\<rparr>],
           m_Ns := [\<lparr>rr_Name = parent_zone qName, rr_Class = ClassINET, rr_TTL = 60,
                     rr_Data = RD_SOA ''a.root-servers.net.'' ''h.invalid.'' 1 10000 300 604800 2400\<rparr>]\<rparr>)"

definition PluginBlockIPv6_Eval :: "'w plugin" where
  "PluginBlockIPv6_Eval w ps msg =
     (let question = hd (m_Question msg)
      in if q_Class question \<noteq> ClassINET \<or> q_Type question \<noteq> TypeAAAA then (False, w, ps, msg)
         else (False, w, synthesize (blocked_ipv6_response msg) ps, msg))"

definition PluginBlockUnqualified_Eval :: "'w plugin" where
  "PluginBlockUnqualified_Eval w ps msg =
     (let question = hd (m_Question msg); qtype = q_Type question
      in if q_Class question \<noteq> ClassINET \<or> (qtype \<noteq> TypeA \<and> qtype \<noteq> TypeAAAA) then (False, w, ps, msg)
         else if CHR ''.'' \<in> set (ps_qName ps) then (False, w, ps, msg)
         else (False, w, synthesize ((EmptyResponseFromMessage msg)\<lparr>m_Rcode := RcodeNameError\<rparr>) ps, msg))"

definition PluginFirefox_Eval :: "'w plugin" where
  "PluginFirefox_Eval w ps msg =
     (if ps_clientProto ps = ''local_doh'' then (False, w, ps, msg)
      else let question = hd (m_Question msg); qtype = q_Type question; qName = ps_qName ps
           in if q_Class question \<noteq> ClassINET \<or> (qtype \<noteq> TypeA \<and> qtype \<noteq> TypeAAAA) then (False, w, ps, msg)
              else if qName \<noteq> ''use-application-dns.net'' \<and> \<not> suffix ''.use-application-dns.net'' qName
              then (False, w, ps, msg)
              else (False, w, synthesize ((EmptyResponseFromMessage msg)\<lparr>m_Rcode := RcodeNameError\<rparr>) ps, msg))"

section \<open>Client subnets, payload sizes and metadata\<close>

text \<open>A \<^verbatim>\<open>net.IPNet\<close>, and \<^verbatim>\<open>IPMask.Size\<close>: the leading ones and the length, zero for a mask with holes.\<close>

record IPNet =
  in_IP :: bytes
  in_Mask :: bytes

definition mask_bits :: "bytes \<Rightarrow> bool list" where
  "mask_bits m = concat (map (\<lambda>b. map (bit b) [7, 6, 5, 4, 3, 2, 1, 0]) m)"

definition mask_Size :: "bytes \<Rightarrow> nat \<times> nat" where
  "mask_Size m =
     (let bits = mask_bits m; ones = length (takeWhile (\<lambda>b. b) bits)
      in if True \<in> set (drop ones bits) then (0, 0) else (ones, length m * 8))"

text \<open>The option for a network: \<open>None\<close> if its mask or its address is unusable.\<close>

definition subnet_option :: "IPNet \<Rightarrow> edns0 option" where
  "subnet_option ipnet =
     (case mask_Size (in_Mask ipnet) of
        (bits, totalSize) \<Rightarrow>
          if totalSize = 32 then map_option (\<lambda>ip4. SUBNET 1 (bits mod 256) 0 ip4) (To4 (in_IP ipnet))
          else if totalSize = 128 then map_option (\<lambda>ip6. SUBNET 2 (bits mod 256) 0 ip6) (To16 (in_IP ipnet))
          else None)"

definition is_subnet :: "edns0 \<Rightarrow> bool" where
  "is_subnet rr = (case rr of SUBNET _ _ _ _ \<Rightarrow> True | _ \<Rightarrow> False)"

text \<open>\<open>r\<close> is the random index of the network.\<close>

definition PluginECS_Eval :: "IPNet list \<Rightarrow> nat \<Rightarrow> 'w plugin" where
  "PluginECS_Eval nets r w ps msg =
     (if \<exists>rr \<in> set (m_Pseudo msg). is_subnet rr then (False, w, ps, msg)
      else let msg1 = (if m_UDPSize msg = 0 then msg\<lparr>m_UDPSize := word_of_int (ps_maxPayloadSize ps)\<rparr> else msg)
           in case subnet_option (nets ! r) of
                None \<Rightarrow> (False, w, ps, msg1)
              | Some subnet \<Rightarrow> (False, w, ps, msg1\<lparr>m_Pseudo := m_Pseudo msg1 @ [subnet]\<rparr>))"

definition payload_limits :: "Msg \<Rightarrow> PluginsState \<Rightarrow> PluginsState" where
  "payload_limits msg ps0 =
     (let ps1 = ps0\<lparr>ps_originalMaxPayloadSize := 512 - int ResponseOverhead\<rparr>;
          ps2 = (if m_UDPSize msg > 0
                 then ps1\<lparr>ps_maxUnencryptedUDPSafePayloadSize := uint (m_UDPSize msg),
                          ps_originalMaxPayloadSize :=
                            max (uint (m_UDPSize msg) - int ResponseOverhead) (ps_originalMaxPayloadSize ps1)\<rparr>
                 else ps1)
      in ps2\<lparr>ps_dnssec := m_Security msg,
             ps_maxPayloadSize := min (int MaxDNSUDPPacketSize - int ResponseOverhead)
                                      (max (ps_originalMaxPayloadSize ps2) (ps_maxPayloadSize ps2))\<rparr>)"

definition PluginGetSetPayloadSize_Eval :: "'w plugin" where
  "PluginGetSetPayloadSize_Eval w ps msg =
     (let ps1 = payload_limits msg ps
      in if ps_maxPayloadSize ps1 > 512
         then (False, w, ps1, msg\<lparr>m_UDPSize := word_of_int (ps_maxPayloadSize ps1), m_Security := m_Security msg\<rparr>)
         else (False, w, ps1, msg))"

definition queryMetaRR :: "string list \<Rightarrow> RR" where
  "queryMetaRR queryMeta = \<lparr>rr_Name = ''.'', rr_Class = ClassINET, rr_TTL = 86400, rr_Data = RD_TXT queryMeta\<rparr>"

definition PluginQueryMeta_Eval :: "string list \<Rightarrow> 'w plugin" where
  "PluginQueryMeta_Eval queryMeta w ps msg = (False, w, ps, msg\<lparr>m_Extra := [queryMetaRR queryMeta]\<rparr>)"

section \<open>Captive portals\<close>

type_synonym CaptivePortalMap = "string \<rightharpoonup> bytes list"

definition GetEntry :: "CaptivePortalMap \<Rightarrow> Msg \<Rightarrow> (Question \<times> bytes list) option" where
  "GetEntry ipsMap msg =
     (if length (m_Question msg) \<noteq> 1 then None
      else let question = hd (m_Question msg)
           in case NormalizeQName (q_Name question) of
                None \<Rightarrow> None
              | Some name \<Rightarrow>
                  (case ipsMap name of
                     None \<Rightarrow> None
                   | Some ips \<Rightarrow> if q_Class question \<noteq> ClassINET then None else Some (question, ips)))"

definition portal_record :: "Question \<Rightarrow> rdata \<Rightarrow> RR" where
  "portal_record question d = \<lparr>rr_Name = q_Name question, rr_Class = ClassINET, rr_TTL = 1, rr_Data = d\<rparr>"

definition HandleCaptivePortalQuery :: "Msg \<Rightarrow> Question \<Rightarrow> bytes list \<Rightarrow> Msg" where
  "HandleCaptivePortalQuery msg question ips =
     (EmptyResponseFromMessage msg)\<lparr>m_Answer :=
        if q_Type question = TypeA
        then map (\<lambda>ip. portal_record question (RD_A ip)) (List.map_filter To4 ips)
        else if q_Type question = TypeAAAA
        then map (\<lambda>xip. portal_record question (RD_AAAA (the (To16 xip)))) (filter (\<lambda>xip. To4 xip = None) ips)
        else []\<rparr>"

definition PluginCaptivePortal_Eval :: "CaptivePortalMap \<Rightarrow> 'w plugin" where
  "PluginCaptivePortal_Eval captivePortalMap w ps msg =
     (case GetEntry captivePortalMap msg of
        None \<Rightarrow> (False, w, ps, msg)
      | Some (question, ips) \<Rightarrow>
          (False, w, ps\<lparr>ps_synthResponse := Some (HandleCaptivePortalQuery msg question ips),
                        ps_action := PluginsActionSynth\<rparr>, msg))"

section \<open>The responder of the cold start\<close>

text \<open>What reading from the socket gives.\<close>

datatype client_read = ReadTimeout | ReadError | ReadPacket bytes

text \<open>The handler of one packet: whether the listener ends, and the reply.\<close>

definition handleColdStartClient :: "dns_lib \<Rightarrow> CaptivePortalMap \<Rightarrow> bool \<Rightarrow> client_read \<Rightarrow> bool \<times> bytes option" where
  "handleColdStartClient L ipsMap cancelled r =
     (if cancelled then (True, None)
      else case r of
             ReadTimeout \<Rightarrow> (False, None)
           | ReadError \<Rightarrow> (True, None)
           | ReadPacket packet \<Rightarrow>
               (case dl_Unpack L packet of
                  None \<Rightarrow> (False, None)
                | Some msg \<Rightarrow>
                    (case GetEntry ipsMap msg of
                       None \<Rightarrow> (False, None)
                     | Some (question, ips) \<Rightarrow> (False, dl_Pack L (HandleCaptivePortalQuery msg question ips)))))"

text \<open>The listener: it answers packets until it is cancelled or reading fails.\<close>

primrec cold_start_loop :: "dns_lib \<Rightarrow> CaptivePortalMap \<Rightarrow> (bool \<times> client_read) list \<Rightarrow> bytes list" where
  "cold_start_loop L ipsMap [] = []"
| "cold_start_loop L ipsMap (e # es) =
     (case handleColdStartClient L ipsMap (fst e) (snd e) of
        (exit, reply) \<Rightarrow>
          (case reply of None \<Rightarrow> [] | Some out \<Rightarrow> [out]) @ (if exit then [] else cold_start_loop L ipsMap es))"

datatype portal_error = PortalSyntax nat | PortalWildcard nat

primrec parse_ips :: "string list \<Rightarrow> bytes list option" where
  "parse_ips [] = Some []"
| "parse_ips (ip # rest) =
     (case ParseIP (TrimSpace ip) of
        None \<Rightarrow> None
      | Some a \<Rightarrow> (case parse_ips rest of None \<Rightarrow> None | Some as \<Rightarrow> Some (a # as)))"

definition cold_start_line :: "string \<Rightarrow> nat \<Rightarrow> CaptivePortalMap \<Rightarrow> portal_error + CaptivePortalMap" where
  "cold_start_line line lineNo ipsMap =
     (case StringTwoFields line of
        (name, ipsStr, ok) \<Rightarrow>
          if \<not> ok then Inl (PortalSyntax (1 + lineNo))
          else case NormalizeQName name of
                 None \<Rightarrow> Inr ipsMap
               | Some qName \<Rightarrow>
                   if CHR ''*'' \<in> set ipsStr then Inl (PortalWildcard (1 + lineNo))
                   else case parse_ips (Split ipsStr (CHR '','')) of
                          None \<Rightarrow> Inl (PortalSyntax (1 + lineNo))
                        | Some ips \<Rightarrow> Inr (ipsMap(qName \<mapsto> ips)))"

definition cold_start_rules :: "string \<Rightarrow> portal_error + CaptivePortalMap" where
  "cold_start_rules lines = config_lines_from cold_start_line 0 (Split lines (CHR 0x0A)) Map.empty"

section \<open>Every plugin keeps the identity of the query\<close>

lemma synthesize_identity [simp]: "ps_identity (synthesize synth ps) = ps_identity ps"
  by (simp add: synthesize_def)

lemma payload_limits_identity [simp]: "ps_identity (payload_limits msg ps) = ps_identity ps"
  by (simp add: payload_limits_def Let_def ps_identity_def)

lemma identity_udp [simp]: "identity (msg\<lparr>m_UDPSize := a, m_Security := b\<rparr>) = identity msg"
  "identity (msg\<lparr>m_Extra := e\<rparr>) = identity msg" "identity (msg\<lparr>m_UDPSize := a, m_Pseudo := p\<rparr>) = identity msg"
  by (simp_all add: identity_def)

interpretation block_ipv6: identity_plugin PluginBlockIPv6_Eval
  by unfold_locales (auto simp: PluginBlockIPv6_Eval_def Let_def split: if_splits)

interpretation block_unqualified: identity_plugin PluginBlockUnqualified_Eval
  by unfold_locales (auto simp: PluginBlockUnqualified_Eval_def Let_def split: if_splits)

interpretation firefox: identity_plugin PluginFirefox_Eval
  by unfold_locales (auto simp: PluginFirefox_Eval_def Let_def split: if_splits)

interpretation ecs: identity_plugin "PluginECS_Eval nets r" for nets r
  by unfold_locales (auto simp: PluginECS_Eval_def Let_def split: if_splits option.splits)

interpretation payload_size: identity_plugin PluginGetSetPayloadSize_Eval
  by unfold_locales (auto simp: PluginGetSetPayloadSize_Eval_def Let_def split: if_splits)

interpretation query_meta: identity_plugin "PluginQueryMeta_Eval queryMeta" for queryMeta
  by unfold_locales (auto simp: PluginQueryMeta_Eval_def)

interpretation captive_portal: identity_plugin "PluginCaptivePortal_Eval ipsMap" for ipsMap
  by unfold_locales (auto simp: PluginCaptivePortal_Eval_def split: option.splits)

section \<open>What they do\<close>

text \<open>The answers of the captive portal responder are those of the rule for the name.\<close>

lemma parse_ips_ok: "parse_ips parts = Some ips \<Longrightarrow> length ips = length parts \<and> list_all2 (\<lambda>p a. ParseIP (TrimSpace p) = Some a) parts ips"
  by (induction parts arbitrary: ips) (auto split: option.splits)

text \<open>
  The guard against wildcards looks at the addresses, not at the name: a rule for a wildcard name is
  accepted (and never matches a query).
\<close>

lemma wildcard_name_accepted:
  "(case cold_start_rules ''*.test 192.0.2.1'' of Inl _ \<Rightarrow> False | Inr m \<Rightarrow> m ''*.test'' \<noteq> None)"
  by code_simp

end
