(* ===== verification/Ipcrypt.thy ===== *)
theory Ipcrypt
  imports Ip_Text
begin

unbundle bit_operations_syntax

text \<open>
  Encryption of client addresses in logs: \<^verbatim>\<open>dnscrypt-proxy/ipcrypt.go\<close> and the modes of the vendored package
  \<^verbatim>\<open>go-ipcrypt\<close>. The block ciphers AES-128 and Kiasu-BC are parameters; an error is \<open>None\<close>. Random tweaks are
  inputs. The main lemmas show that decryption inverts encryption in every mode.
\<close>

section \<open>Hexadecimal strings\<close>

text \<open>\<^verbatim>\<open>hex.EncodeToString\<close> and \<^verbatim>\<open>hex.DecodeString\<close>.\<close>

definition hex_byte :: "byte \<Rightarrow> string" where
  "hex_byte b = [digit_char (unat b div 16), digit_char (unat b mod 16)]"

definition EncodeToString :: "bytes \<Rightarrow> string" where
  "EncodeToString bs = concat (map hex_byte bs)"

fun DecodeString :: "string \<Rightarrow> bytes option" where
  "DecodeString [] = Some []"
| "DecodeString [c] = None"
| "DecodeString (a # b # rest) =
     (case (hex_of a, hex_of b, DecodeString rest) of
        (Some x, Some y, Some bs) \<Rightarrow> Some (of_nat (x * 16 + y) # bs)
      | _ \<Rightarrow> None)"

section \<open>The block ciphers\<close>

record block_ciphers =
  bc_aes :: "bytes \<Rightarrow> bytes \<Rightarrow> bytes"
  bc_aes_inv :: "bytes \<Rightarrow> bytes \<Rightarrow> bytes"
  bc_kiasu :: "bytes \<Rightarrow> bytes \<Rightarrow> bytes \<Rightarrow> bytes"
  bc_kiasu_inv :: "bytes \<Rightarrow> bytes \<Rightarrow> bytes \<Rightarrow> bytes"

text \<open>What a block cipher is: a permutation of the blocks of 16 bytes for every key, and every tweak.\<close>

definition ciphers_ok :: "block_ciphers \<Rightarrow> bool" where
  "ciphers_ok C \<longleftrightarrow>
     (\<forall>k b. length k = 16 \<longrightarrow> length b = 16 \<longrightarrow> length (bc_aes C k b) = 16 \<and> bc_aes_inv C k (bc_aes C k b) = b) \<and>
     (\<forall>k t b. length k = 16 \<longrightarrow> length t = 8 \<longrightarrow> length b = 16 \<longrightarrow>
        length (bc_kiasu C k t b) = 16 \<and> bc_kiasu_inv C k t (bc_kiasu C k t b) = b)"

section \<open>The modes of the package\<close>

definition xorBytes :: "bytes \<Rightarrow> bytes \<Rightarrow> bytes option" where
  "xorBytes a b = (if length a \<noteq> length b then None else Some (map2 (XOR) a b))"

definition ipcrypt_EncryptIP :: "block_ciphers \<Rightarrow> bytes \<Rightarrow> bytes \<Rightarrow> bytes option" where
  "ipcrypt_EncryptIP C key ip = (if length key \<noteq> 16 then None else map_option (bc_aes C key) (To16 ip))"

definition ipcrypt_DecryptIP :: "block_ciphers \<Rightarrow> bytes \<Rightarrow> bytes \<Rightarrow> bytes option" where
  "ipcrypt_DecryptIP C key encrypted = (if length key \<noteq> 16 then None else map_option (bc_aes_inv C key) (To16 encrypted))"

definition EncryptIPNonDeterministic :: "block_ciphers \<Rightarrow> string \<Rightarrow> bytes \<Rightarrow> bytes \<Rightarrow> bytes option" where
  "EncryptIPNonDeterministic C ip key tweak =
     (if length key \<noteq> 16 then None
      else case ParseIP ip of
             None \<Rightarrow> None
           | Some ipBytes \<Rightarrow> if length tweak \<noteq> 8 then None else Some (tweak @ bc_kiasu C key tweak ipBytes))"

definition DecryptIPNonDeterministic :: "block_ciphers \<Rightarrow> bytes \<Rightarrow> bytes \<Rightarrow> string option" where
  "DecryptIPNonDeterministic C ciphertext key =
     (if length key \<noteq> 16 then None
      else if length ciphertext \<noteq> 8 + 16 then None
      else Some (IP_String (bc_kiasu_inv C key (take 8 ciphertext) (drop 8 ciphertext))))"

definition EncryptIPNonDeterministicX :: "block_ciphers \<Rightarrow> string \<Rightarrow> bytes \<Rightarrow> bytes \<Rightarrow> bytes option" where
  "EncryptIPNonDeterministicX C ip key tweak =
     (if length key \<noteq> 32 then None
      else case ParseIP ip of
             None \<Rightarrow> None
           | Some ipBytes \<Rightarrow>
               if length tweak \<noteq> 16 then None
               else let encryptedTweak = bc_aes C (drop 16 key) tweak
                    in case xorBytes ipBytes encryptedTweak of
                         None \<Rightarrow> None
                       | Some xoredIP \<Rightarrow>
                           (case xorBytes (bc_aes C (take 16 key) xoredIP) encryptedTweak of
                              None \<Rightarrow> None
                            | Some finalEncrypted \<Rightarrow> Some (tweak @ finalEncrypted)))"

definition DecryptIPNonDeterministicX :: "block_ciphers \<Rightarrow> bytes \<Rightarrow> bytes \<Rightarrow> string option" where
  "DecryptIPNonDeterministicX C ciphertext key =
     (if length key \<noteq> 32 then None
      else if length ciphertext \<noteq> 16 + 16 then None
      else let encryptedTweak = bc_aes C (drop 16 key) (take 16 ciphertext)
           in case xorBytes (drop 16 ciphertext) encryptedTweak of
                None \<Rightarrow> None
              | Some xoredIP \<Rightarrow>
                  map_option IP_String (xorBytes (bc_aes_inv C (take 16 key) xoredIP) encryptedTweak))"

subsection \<open>Prefix-preserving encryption\<close>

definition getBit :: "bytes \<Rightarrow> nat \<Rightarrow> bool" where
  "getBit d position = bit (d ! (15 - position div 8)) (position mod 8)"

definition setBit :: "bytes \<Rightarrow> nat \<Rightarrow> bool \<Rightarrow> bytes" where
  "setBit d position v =
     (let byteIndex = 15 - position div 8; m = push_bit (position mod 8) 1
      in d[byteIndex := (if v then d ! byteIndex OR m else d ! byteIndex AND NOT m)])"

definition shiftLeftOneBit :: "bytes \<Rightarrow> bytes" where
  "shiftLeftOneBit d =
     map (\<lambda>i. push_bit 1 (d ! i) OR (if i < 15 then drop_bit 7 (d ! (i + 1)) AND 1 else 0)) [0..<16]"

text \<open>The pseudorandom bit of a padded prefix.\<close>

definition cipher_bit :: "block_ciphers \<Rightarrow> bytes \<Rightarrow> bytes \<Rightarrow> bool" where
  "cipher_bit C key paddedPrefix =
     (let e1 = bc_aes C (take 16 key) paddedPrefix; e2 = bc_aes C (drop 16 key) paddedPrefix
      in bit (e1 ! 15 XOR e2 ! 15) 0)"

text \<open>The loops over the bit positions below \<open>n\<close>, the highest first.\<close>

primrec encrypt_bits :: "(bytes \<Rightarrow> bool) \<Rightarrow> bytes \<Rightarrow> nat \<Rightarrow> bytes \<Rightarrow> bytes \<Rightarrow> bytes" where
  "encrypt_bits cbit ipBytes 0 encrypted paddedPrefix = encrypted"
| "encrypt_bits cbit ipBytes (Suc pos) encrypted paddedPrefix =
     (let originalBit = getBit ipBytes pos
      in encrypt_bits cbit ipBytes pos (setBit encrypted pos (cbit paddedPrefix \<noteq> originalBit))
           (setBit (shiftLeftOneBit paddedPrefix) 0 originalBit))"

primrec decrypt_bits :: "(bytes \<Rightarrow> bool) \<Rightarrow> bytes \<Rightarrow> nat \<Rightarrow> bytes \<Rightarrow> bytes \<Rightarrow> bytes" where
  "decrypt_bits cbit encryptedBytes 0 decrypted paddedPrefix = decrypted"
| "decrypt_bits cbit encryptedBytes (Suc pos) decrypted paddedPrefix =
     (let originalBit = (cbit paddedPrefix \<noteq> getBit encryptedBytes pos)
      in decrypt_bits cbit encryptedBytes pos (setBit decrypted pos originalBit)
           (setBit (shiftLeftOneBit paddedPrefix) 0 originalBit))"

definition first_prefix :: "bool \<Rightarrow> bytes" where
  "first_prefix isIPv4 =
     (if isIPv4 then (replicate 16 0)[3 := 1, 14 := 0xff, 15 := 0xff] else (replicate 16 0)[15 := 1])"

definition pfx_key_ok :: "bytes \<Rightarrow> bool" where
  "pfx_key_ok key \<longleftrightarrow> length key = 32 \<and> take 16 key \<noteq> drop 16 key"

definition EncryptIPPfx :: "block_ciphers \<Rightarrow> bytes \<Rightarrow> bytes \<Rightarrow> bytes option" where
  "EncryptIPPfx C ip key =
     (if \<not> pfx_key_ok key then None
      else case To16 ip of
             None \<Rightarrow> None
           | Some ipBytes \<Rightarrow>
               let isIPv4 = (To4 ip \<noteq> None);
                   start = (if isIPv4 then take 12 ipBytes @ replicate 4 0 else replicate 16 0);
                   encrypted = encrypt_bits (cipher_bit C key) ipBytes (if isIPv4 then 32 else 128) start (first_prefix isIPv4)
               in Some (if isIPv4 then drop 12 encrypted else encrypted))"

definition DecryptIPPfx :: "block_ciphers \<Rightarrow> bytes \<Rightarrow> bytes \<Rightarrow> bytes option" where
  "DecryptIPPfx C encryptedIP key =
     (if \<not> pfx_key_ok key then None
      else let isIPv4 = (To4 encryptedIP \<noteq> None)
           in case (if isIPv4 then map_option (\<lambda>ip4. v4_prefix @ ip4) (To4 encryptedIP) else To16 encryptedIP) of
                None \<Rightarrow> None
              | Some encryptedBytes \<Rightarrow>
                  let start = (if isIPv4 then take 12 encryptedBytes @ replicate 4 0 else replicate 16 0);
                      decrypted = decrypt_bits (cipher_bit C key) encryptedBytes (if isIPv4 then 32 else 128) start (first_prefix isIPv4)
                  in Some (if isIPv4 then drop 12 decrypted else decrypted))"

section \<open>The configuration of the proxy\<close>

record IPCryptConfig =
  ic_Key :: bytes
  ic_Algorithm :: string

datatype ipcrypt_error = NoKey | KeyNotHex | KeyLength nat | UnsupportedAlgorithm

text \<open>The size of the key that an algorithm asks for.\<close>

definition key_size :: "string \<Rightarrow> nat option" where
  "key_size algorithm =
     (if algorithm = ''ipcrypt-deterministic'' then Some 16
      else if algorithm = ''ipcrypt-nd'' then Some 16
      else if algorithm = ''ipcrypt-ndx'' then Some 32
      else if algorithm = ''ipcrypt-pfx'' then Some 32
      else None)"

definition NewIPCryptConfig :: "string \<Rightarrow> string \<Rightarrow> ipcrypt_error + IPCryptConfig option" where
  "NewIPCryptConfig keyHex algorithm0 =
     (let algorithm = ToLower algorithm0
      in if algorithm = [] \<or> algorithm = ''none'' then Inr None
         else if keyHex = [] then Inl NoKey
         else case DecodeString keyHex of
                None \<Rightarrow> Inl KeyNotHex
              | Some key \<Rightarrow>
                  (case key_size algorithm of
                     None \<Rightarrow> Inl UnsupportedAlgorithm
                   | Some n \<Rightarrow>
                       if length key \<noteq> n then Inl (KeyLength (length key))
                       else Inr (Some \<lparr>ic_Key = key, ic_Algorithm = algorithm\<rparr>)))"

text \<open>\<open>rand n\<close> is what the random generator gives for \<open>n\<close> bytes, \<open>None\<close> if it fails.\<close>

definition EncryptIP :: "block_ciphers \<Rightarrow> (nat \<Rightarrow> bytes option) \<Rightarrow> IPCryptConfig option \<Rightarrow> bytes \<Rightarrow> string option" where
  "EncryptIP C rand config ip =
     (case config of
        None \<Rightarrow> Some (IP_String ip)
      | Some cfg \<Rightarrow>
          if ic_Algorithm cfg = ''ipcrypt-deterministic''
          then map_option IP_String (ipcrypt_EncryptIP C (ic_Key cfg) ip)
          else if ic_Algorithm cfg = ''ipcrypt-nd''
          then (case rand 8 of
                  None \<Rightarrow> None
                | Some tweak \<Rightarrow> map_option EncodeToString (EncryptIPNonDeterministic C (IP_String ip) (ic_Key cfg) tweak))
          else if ic_Algorithm cfg = ''ipcrypt-ndx''
          then (case rand 16 of
                  None \<Rightarrow> None
                | Some tweak \<Rightarrow> map_option EncodeToString (EncryptIPNonDeterministicX C (IP_String ip) (ic_Key cfg) tweak))
          else if ic_Algorithm cfg = ''ipcrypt-pfx''
          then map_option IP_String (EncryptIPPfx C ip (ic_Key cfg))
          else None)"

definition EncryptIPString :: "block_ciphers \<Rightarrow> (nat \<Rightarrow> bytes option) \<Rightarrow> IPCryptConfig option \<Rightarrow> string \<Rightarrow> string" where
  "EncryptIPString C rand config ipStr =
     (if config = None \<or> ipStr = [] then ipStr
      else case ParseIP ipStr of
             None \<Rightarrow> ipStr
           | Some ip \<Rightarrow> (case EncryptIP C rand config ip of None \<Rightarrow> ''[encrypted]'' | Some encrypted \<Rightarrow> encrypted))"

definition DecryptIP :: "block_ciphers \<Rightarrow> IPCryptConfig option \<Rightarrow> string \<Rightarrow> string option" where
  "DecryptIP C config encryptedStr =
     (case config of
        None \<Rightarrow> Some encryptedStr
      | Some cfg \<Rightarrow>
          if ic_Algorithm cfg = ''ipcrypt-deterministic''
          then (case ParseIP encryptedStr of
                  None \<Rightarrow> None
                | Some ip \<Rightarrow> map_option IP_String (ipcrypt_DecryptIP C (ic_Key cfg) ip))
          else if ic_Algorithm cfg = ''ipcrypt-nd''
          then (case DecodeString encryptedStr of
                  None \<Rightarrow> None
                | Some encrypted \<Rightarrow> DecryptIPNonDeterministic C encrypted (ic_Key cfg))
          else if ic_Algorithm cfg = ''ipcrypt-ndx''
          then (case DecodeString encryptedStr of
                  None \<Rightarrow> None
                | Some encrypted \<Rightarrow> DecryptIPNonDeterministicX C encrypted (ic_Key cfg))
          else if ic_Algorithm cfg = ''ipcrypt-pfx''
          then (case ParseIP encryptedStr of
                  None \<Rightarrow> None
                | Some ip \<Rightarrow> map_option IP_String (DecryptIPPfx C ip (ic_Key cfg)))
          else None)"

section \<open>Decryption inverts encryption\<close>

lemma Decode_Encode: "DecodeString (EncodeToString bs) = Some bs"
proof (induction bs)
  case (Cons b bs)
  have b: "unat b \<le> 255" by (rule unat_byte)
  have "(of_nat (unat b div 16 * 16 + unat b mod 16) :: byte) = b" by simp
  then show ?case using Cons b by (simp add: EncodeToString_def hex_byte_def)
qed (simp add: EncodeToString_def)

lemma Encode_Nil: "EncodeToString bs = [] \<longleftrightarrow> bs = []"
  by (cases bs) (auto simp: EncodeToString_def hex_byte_def)

lemma length_setBit [simp]: "length (setBit d p v) = length d"
  by (simp add: setBit_def Let_def)

lemma length_shift [simp]: "length (shiftLeftOneBit d) = 16"
  by (simp add: shiftLeftOneBit_def)

lemma getBit_setBit:
  assumes "length d = 16" "p < 128" "q < 128"
  shows "getBit (setBit d p v) q = (if p = q then v else getBit d q)"
proof -
  have i: "p div 8 < 16" "q div 8 < 16" using assms(2,3) by (auto simp: div_less_iff_less_mult)
  have eq: "p = q \<longleftrightarrow> p div 8 = q div 8 \<and> p mod 8 = q mod 8" by (metis div_mult_mod_eq)
  have m: "q mod 8 < 8" by simp
  show ?thesis
  proof (cases "p div 8 = q div 8")
    case True
    then show ?thesis using i assms(1) eq m
      by (auto simp: getBit_def setBit_def Let_def bit_simps bit_1_iff)
  next
    case False
    then have "15 - p div 8 \<noteq> 15 - q div 8" using i by arith
    then show ?thesis using False eq by (auto simp: getBit_def setBit_def Let_def)
  qed
qed

lemma bytes_eqI:
  assumes "length a = 16" "length b = 16" "\<And>p. p < 128 \<Longrightarrow> getBit a p = getBit b p"
  shows "a = b"
proof (rule nth_equalityI)
  fix i assume "i < length a"
  then have i: "i < 16" using assms(1) by simp
  show "a ! i = b ! i"
  proof (rule bit_word_eqI)
    fix n assume "n < LENGTH(8)"
    then have n: "n < 8" by simp
    have "(15 - i) * 8 + n < 128" "15 - ((15 - i) * 8 + n) div 8 = i" "((15 - i) * 8 + n) mod 8 = n" using i n by auto
    then show "bit (a ! i) n = bit (b ! i) n" using assms(3)[of "(15 - i) * 8 + n"] by (simp add: getBit_def)
  qed
qed (use assms in simp)

lemma encrypt_bits_length [simp]: "length (encrypt_bits cbit ip n e pp) = length e"
  by (induction n arbitrary: e pp) (simp_all add: Let_def)

lemma encrypt_bits_high:
  "length e = 16 \<Longrightarrow> n \<le> p \<Longrightarrow> p < 128 \<Longrightarrow> getBit (encrypt_bits cbit ip n e pp) p = getBit e p"
  by (induction n arbitrary: e pp) (simp_all add: Let_def getBit_setBit)

text \<open>The decryption loop sees the same prefixes as the encryption loop, and so restores every bit.\<close>

lemma decrypt_encrypt_bits:
  assumes "n \<le> 128" "length e = 16" "length d = 16" "p < 128"
    and "E = encrypt_bits cbit ip n e pp"
  shows "getBit (decrypt_bits cbit E n d pp) p = (if p < n then getBit ip p else getBit d p)"
  using assms
proof (induction n arbitrary: e d pp)
  case (Suc n)
  let ?b = "getBit ip n"
  have E: "E = encrypt_bits cbit ip n (setBit e n (cbit pp \<noteq> ?b)) (setBit (shiftLeftOneBit pp) 0 ?b)" using Suc.prems(5) by (simp add: Let_def)
  have "getBit E n = (cbit pp \<noteq> ?b)" unfolding E using Suc.prems by (subst encrypt_bits_high) (simp_all add: getBit_setBit)
  then have "decrypt_bits cbit E (Suc n) d pp = decrypt_bits cbit E n (setBit d n ?b) (setBit (shiftLeftOneBit pp) 0 ?b)"
    by (auto simp: Let_def)
  then show ?case using Suc.IH[OF _ _ _ _ E, of "setBit d n ?b"] Suc.prems by (auto simp: getBit_setBit less_Suc_eq)
qed simp

lemma decrypt_bits_length [simp]: "length (decrypt_bits cbit E n d pp) = length d"
  by (induction n arbitrary: d pp) (simp_all add: Let_def)

lemma To16_length: "To16 ip = Some ip16 \<Longrightarrow> length ip16 = 16"
  by (auto simp: To16_def v4_prefix_def split: if_splits)

lemma To16_idem: "To16 ip = Some ip16 \<Longrightarrow> To16 ip16 = Some ip16 \<and> To4 ip16 = To4 ip"
  by (auto simp: To16_def To4_def v4_prefix_def split: if_splits)

lemma IP_String_To16: "To16 ip = Some ip16 \<Longrightarrow> IP_String ip16 = IP_String ip"
proof -
  assume a: "To16 ip = Some ip16"
  show ?thesis
  proof (cases "To4 ip")
    case None
    then have "ip16 = ip" using a by (auto simp: To4_def To16_def split: if_splits)
    then show ?thesis by simp
  qed (use To16_idem[OF a] in \<open>simp add: IP_String_def\<close>)
qed

lemma xorBytes_Some: "length a = n \<Longrightarrow> length b = n \<Longrightarrow> \<exists>c. xorBytes a b = Some c \<and> length c = n \<and> xorBytes c b = Some a"
proof -
  assume a: "length a = n" "length b = n"
  have "map2 (XOR) (map2 (XOR) a b) b = a"
    using a by (intro nth_equalityI) (auto simp: xor.assoc)
  then show ?thesis using a by (auto simp: xorBytes_def)
qed

lemma take12_eq:
  assumes "length a = 16" "length b = 16" "\<And>p. 32 \<le> p \<Longrightarrow> p < 128 \<Longrightarrow> getBit a p = getBit b p"
  shows "take 12 a = take 12 b"
proof (rule nth_equalityI)
  fix i assume "i < length (take 12 a)"
  then have i: "i < 12" using assms(1) by simp
  have "a ! i = b ! i"
  proof (rule bit_word_eqI)
    fix n assume "n < LENGTH(8)"
    then have n: "n < 8" by simp
    have "32 \<le> (15 - i) * 8 + n" "(15 - i) * 8 + n < 128" "15 - ((15 - i) * 8 + n) div 8 = i" "((15 - i) * 8 + n) mod 8 = n"
      using i n by auto
    then show "bit (a ! i) n = bit (b ! i) n" using assms(3)[of "(15 - i) * 8 + n"] by (simp add: getBit_def)
  qed
  then show "take 12 a ! i = take 12 b ! i" using i by simp
qed (use assms in simp)

text \<open>The ciphertext of an IPv4 address is one; that of an IPv6 address must not look like one.\<close>

lemma pfx_roundtrip:
  assumes key: "pfx_key_ok key" and ip: "To16 ip = Some ip16" and v6: "To4 ip = None \<Longrightarrow> EncryptIPPfx C ip key = Some c \<Longrightarrow> To4 c = None"
    and c: "EncryptIPPfx C ip key = Some c"
  shows "\<exists>c16 ip'. To16 c = Some c16 \<and> DecryptIPPfx C c16 key = Some ip' \<and> To16 ip' = Some ip16"
proof -
  let ?cbit = "cipher_bit C key"
  have l16: "length ip16 = 16" using ip by (rule To16_length)
  show ?thesis
  proof (cases "To4 ip")
    case None
    define E where "E = encrypt_bits ?cbit ip16 128 (replicate 16 0) (first_prefix False)"
    have lE: "length E = 16" by (simp add: E_def)
    have cE: "c = E" using c key ip None by (simp add: EncryptIPPfx_def E_def)
    have n4: "To4 E = None" using v6[OF None c] cE by simp
    have "decrypt_bits ?cbit E 128 (replicate 16 0) (first_prefix False) = ip16"
      using decrypt_encrypt_bits[OF _ _ _ _ E_def, of "replicate 16 0"] l16 by (intro bytes_eqI) auto
    then show ?thesis using cE lE n4 key l16 by (simp add: DecryptIPPfx_def To16_def)
  next
    case (Some ip4)
    define start where "start = take 12 ip16 @ replicate 4 (0 :: byte)"
    define E where "E = encrypt_bits ?cbit ip16 32 start (first_prefix True)"
    have ls: "length start = 16" "length E = 16" using l16 by (simp_all add: start_def E_def)
    have cE: "c = drop 12 E" using c key ip Some by (simp add: EncryptIPPfx_def E_def start_def)
    have ip16: "ip16 = v4_prefix @ ip4" "length ip4 = 4" using To4_To16[OF Some] ip by auto
    have pre: "take 12 start = v4_prefix" using ip16 by (simp add: start_def v4_prefix_def)
    have "take 12 E = take 12 start" using encrypt_bits_high[OF ls(1), of 32] ls by (intro take12_eq) (auto simp: E_def)
    then have EE: "v4_prefix @ c = E" unfolding cE using pre append_take_drop_id[of 12 E] by simp
    have lc: "length c = 4" using cE ls by simp
    have "getBit (decrypt_bits ?cbit E 32 start (first_prefix True)) p = getBit ip16 p" if "p < 128" for p
    proof (cases "p < 32")
      case True
      then show ?thesis using decrypt_encrypt_bits[OF _ ls(1) ls(1) that E_def] by simp
    next
      case False
      then have "4 \<le> p div 8" by (simp add: less_eq_div_iff_mult_less_eq)
      then have "15 - p div 8 < 12" by arith
      then have "getBit start p = getBit ip16 p" using l16 by (simp add: getBit_def start_def nth_append)
      then show ?thesis using False decrypt_encrypt_bits[OF _ ls(1) ls(1) that E_def] by simp
    qed
    then have "decrypt_bits ?cbit E 32 start (first_prefix True) = ip16" using ls l16 by (intro bytes_eqI) auto
    moreover have "take 12 E @ replicate 4 0 = start" using EE pre ip16 by (auto simp: start_def v4_prefix_def)
    moreover have "To4 E = Some c" "To16 c = Some E" using EE lc by (auto simp: To4_def To16_def v4_prefix_def)
    ultimately have "DecryptIPPfx C E key = Some ip4" using key EE ip16 by (simp add: DecryptIPPfx_def Let_def v4_prefix_def)
    then show ?thesis using \<open>To16 c = Some E\<close> ip16 by (auto simp: To16_def)
  qed
qed

lemma det_roundtrip:
  assumes "ciphers_ok C" "length key = 16" "To16 ip = Some ip16"
  shows "\<exists>c. ipcrypt_EncryptIP C key ip = Some c \<and> ParseIP (IP_String c) = Some c \<and> ipcrypt_DecryptIP C key c = Some ip16"
proof -
  let ?c = "bc_aes C key ip16"
  have "length ip16 = 16" using assms(3) by (rule To16_length)
  then have "length ?c = 16" "bc_aes_inv C key ?c = ip16" using assms(1,2) by (auto simp: ciphers_ok_def)
  then show ?thesis using assms(2,3) ParseIP_String[of ?c] by (simp add: ipcrypt_EncryptIP_def ipcrypt_DecryptIP_def To16_def)
qed

lemma nd_roundtrip:
  assumes "ciphers_ok C" "length key = 16" "length tweak = 8" "ParseIP ip = Some ip16" "length ip16 = 16"
  shows "\<exists>c. EncryptIPNonDeterministic C ip key tweak = Some c \<and> DecryptIPNonDeterministic C c key = Some (IP_String ip16)"
proof -
  have "length (bc_kiasu C key tweak ip16) = 16" "bc_kiasu_inv C key tweak (bc_kiasu C key tweak ip16) = ip16"
    using assms by (auto simp: ciphers_ok_def)
  then show ?thesis using assms by (simp add: EncryptIPNonDeterministic_def DecryptIPNonDeterministic_def)
qed

lemma ndx_roundtrip:
  assumes "ciphers_ok C" "length key = 32" "length tweak = 16" "ParseIP ip = Some ip16" "length ip16 = 16"
  shows "\<exists>c. EncryptIPNonDeterministicX C ip key tweak = Some c \<and> DecryptIPNonDeterministicX C c key = Some (IP_String ip16)"
proof -
  let ?t = "bc_aes C (drop 16 key) tweak"
  have t: "length ?t = 16" using assms by (auto simp: ciphers_ok_def)
  obtain x where x: "xorBytes ip16 ?t = Some x" "length x = 16" "xorBytes x ?t = Some ip16"
    using xorBytes_Some[OF assms(5) t] by blast
  have e: "length (bc_aes C (take 16 key) x) = 16" "bc_aes_inv C (take 16 key) (bc_aes C (take 16 key) x) = x"
    using assms(1,2) x(2) by (auto simp: ciphers_ok_def)
  obtain y where y: "xorBytes (bc_aes C (take 16 key) x) ?t = Some y" "length y = 16"
    "xorBytes y ?t = Some (bc_aes C (take 16 key) x)" using xorBytes_Some[OF e(1) t] by blast
  show ?thesis
    using assms x y e by (simp add: EncryptIPNonDeterministicX_def DecryptIPNonDeterministicX_def Let_def)
qed

lemma NewIPCryptConfig_ok:
  "NewIPCryptConfig keyHex algorithm = Inr (Some cfg) \<Longrightarrow> key_size (ic_Algorithm cfg) = Some (length (ic_Key cfg))"
  by (auto simp: NewIPCryptConfig_def Let_def split: if_splits option.splits)

text \<open>A prefix-preserving key with equal halves is accepted, and then no address can be encrypted.\<close>

lemma equal_halves_accepted:
  "NewIPCryptConfig (EncodeToString (replicate 32 0)) ''ipcrypt-pfx'' = Inr (Some \<lparr>ic_Key = replicate 32 0, ic_Algorithm = ''ipcrypt-pfx''\<rparr>) \<and>
   EncryptIPString C rand (Some \<lparr>ic_Key = replicate 32 0, ic_Algorithm = ''ipcrypt-pfx''\<rparr>) ''192.0.2.1'' = ''[encrypted]''"
proof -
  have "EncodeToString (replicate 32 0) \<noteq> []" by (simp add: Encode_Nil)
  moreover have "ToLower ''ipcrypt-pfx'' = ''ipcrypt-pfx''" by code_simp
  moreover have "ParseIP ''192.0.2.1'' = Some (v4_prefix @ [192, 0, 2, 1])" by code_simp
  moreover have "\<not> pfx_key_ok (replicate 32 0)" by (simp add: pfx_key_ok_def)
  ultimately show ?thesis
    by (simp add: NewIPCryptConfig_def Let_def Decode_Encode key_size_def EncryptIPString_def EncryptIP_def EncryptIPPfx_def)
qed

text \<open>
  C13. Round trip of address encryption. With a configuration the proxy accepts and a random generator that
  works, every address is encrypted, and decryption gives its text back. For the prefix-preserving mode the
  halves of the key must differ, and the ciphertext of an IPv6 address must not be an IPv4-mapped address.
\<close>

theorem ipcrypt_roundtrip:
  assumes "NewIPCryptConfig keyHex algorithm = Inr config" "ciphers_ok C" "length ip = 4 \<or> length ip = 16"
    and rand: "\<And>n. \<exists>t. rand n = Some t \<and> length t = n"
    and pfx: "\<And>cfg. config = Some cfg \<Longrightarrow> ic_Algorithm cfg = ''ipcrypt-pfx'' \<Longrightarrow>
      pfx_key_ok (ic_Key cfg) \<and> (\<forall>c. To4 ip = None \<longrightarrow> EncryptIPPfx C ip (ic_Key cfg) = Some c \<longrightarrow> To4 c = None)"
  shows "\<exists>encrypted. EncryptIP C rand config ip = Some encrypted \<and> DecryptIP C config encrypted = Some (IP_String ip)"
proof (cases config)
  case None
  then show ?thesis by (simp add: EncryptIP_def DecryptIP_def)
next
  case (Some cfg)
  have size: "key_size (ic_Algorithm cfg) = Some (length (ic_Key cfg))" using NewIPCryptConfig_ok assms(1) Some by blast
  obtain ip16 where ip16: "To16 ip = Some ip16" using assms(3) by (auto simp: To16_def)
  have str: "IP_String ip16 = IP_String ip" "ParseIP (IP_String ip) = Some ip16" "length ip16 = 16"
    using IP_String_To16[OF ip16] ParseIP_String[OF assms(3)] ip16 To16_length[OF ip16] by simp_all
  obtain t8 t16 where t: "rand 8 = Some t8" "length t8 = 8" "rand 16 = Some t16" "length t16 = 16" using rand by meson
  consider (det) "ic_Algorithm cfg = ''ipcrypt-deterministic''" "length (ic_Key cfg) = 16"
    | (nd) "ic_Algorithm cfg = ''ipcrypt-nd''" "length (ic_Key cfg) = 16"
    | (ndx) "ic_Algorithm cfg = ''ipcrypt-ndx''" "length (ic_Key cfg) = 32" | (pfx) "ic_Algorithm cfg = ''ipcrypt-pfx''"
    using size by (auto simp: key_size_def split: if_splits)
  then show ?thesis
  proof cases
    case det
    then show ?thesis using det_roundtrip[OF assms(2) det(2) ip16] str(1) Some by (auto simp: EncryptIP_def DecryptIP_def)
  next
    case nd
    then show ?thesis using nd_roundtrip[OF assms(2) nd(2) t(2) str(2,3)] t(1) str(1) Some
      by (auto simp: EncryptIP_def DecryptIP_def Decode_Encode)
  next
    case ndx
    then show ?thesis using ndx_roundtrip[OF assms(2) ndx(2) t(4) str(2,3)] t(3) str(1) Some
      by (auto simp: EncryptIP_def DecryptIP_def Decode_Encode)
  next
    case pfx
    then have k: "pfx_key_ok (ic_Key cfg)" using assms(5) Some by blast
    obtain c where c: "EncryptIPPfx C ip (ic_Key cfg) = Some c" using k ip16 by (simp add: EncryptIPPfx_def Let_def)
    have v6: "To4 ip = None \<Longrightarrow> EncryptIPPfx C ip (ic_Key cfg) = Some c \<Longrightarrow> To4 c = None" using assms(5) Some pfx by blast
    obtain c16 ip' where r: "To16 c = Some c16" "DecryptIPPfx C c16 (ic_Key cfg) = Some ip'" "To16 ip' = Some ip16"
      using pfx_roundtrip[OF k ip16 v6 c] by blast
    have "length c = 4 \<or> length c = 16" using r(1) by (auto simp: To16_def split: if_splits)
    then have "ParseIP (IP_String c) = Some c16" using ParseIP_String[of c] r(1) by simp
    then show ?thesis using c r pfx Some IP_String_To16[OF r(3)] str(1) by (simp add: EncryptIP_def DecryptIP_def)
  qed
qed

theorem ipcrypt_roundtrip_witness:
  "\<exists>encrypted. EncryptIP \<lparr>bc_aes = \<lambda>k b. b, bc_aes_inv = \<lambda>k b. b, bc_kiasu = \<lambda>k t b. b, bc_kiasu_inv = \<lambda>k t b. b\<rparr>
      (\<lambda>n. Some (replicate n 0)) (Some \<lparr>ic_Key = replicate 32 0, ic_Algorithm = ''ipcrypt-ndx''\<rparr>) [192, 0, 2, 1] = Some encrypted \<and>
    DecryptIP \<lparr>bc_aes = \<lambda>k b. b, bc_aes_inv = \<lambda>k b. b, bc_kiasu = \<lambda>k t b. b, bc_kiasu_inv = \<lambda>k t b. b\<rparr>
      (Some \<lparr>ic_Key = replicate 32 0, ic_Algorithm = ''ipcrypt-ndx''\<rparr>) encrypted = Some (IP_String [192, 0, 2, 1])"
proof (rule ipcrypt_roundtrip)
  have "EncodeToString (replicate 32 0) \<noteq> []" by (simp add: Encode_Nil)
  moreover have "ToLower ''ipcrypt-ndx'' = ''ipcrypt-ndx''" by code_simp
  ultimately show "NewIPCryptConfig (EncodeToString (replicate 32 0)) ''ipcrypt-ndx'' =
      Inr (Some \<lparr>ic_Key = replicate 32 0, ic_Algorithm = ''ipcrypt-ndx''\<rparr>)"
    by (simp add: NewIPCryptConfig_def Let_def Decode_Encode key_size_def)
qed (auto simp: ciphers_ok_def)

end
