(* ===== verification/Plugin_Logs.thy ===== *)
theory Plugin_Logs
  imports Plugins Ipcrypt
begin

text \<open>
  Log lines: quoting, the client address and the formats of \<^verbatim>\<open>dnscrypt-proxy/common.go\<close>, and the two logging
  plugins \<^verbatim>\<open>plugin_nx_log.go\<close> and \<^verbatim>\<open>plugin_query_log.go\<close>. The time stamps of a line are inputs, already
  formatted; the table of type names of the DNS package is a parameter. A log file is the list of the lines
  written to it, with the fact whether writing succeeds.
\<close>

section \<open>Numbers and quoting\<close>

fun nat_string :: "nat \<Rightarrow> string" where
  "nat_string n = (if n < 10 then [digit_char n] else nat_string (n div 10) @ [digit_char (n mod 10)])"

definition int_string :: "int \<Rightarrow> string" where
  "int_string i = (if i < 0 then CHR ''-'' # nat_string (nat (- i)) else nat_string (nat i))"

text \<open>
  \<^verbatim>\<open>strconv.QuoteToGraphic\<close> without the outer quotes: printable characters stay, but for the quote and the
  backslash, which are escaped as all others are.
\<close>

definition quote_char :: "char \<Rightarrow> string" where
  "quote_char c =
     (let n = of_char c :: nat
      in if n = 34 \<or> n = 92 then [CHR 0x5C, c]
         else if 32 \<le> n \<and> n \<le> 126 then [c]
         else if n = 7 then [CHR 0x5C, CHR ''a'']
         else if n = 8 then [CHR 0x5C, CHR ''b'']
         else if n = 12 then [CHR 0x5C, CHR ''f'']
         else if n = 10 then [CHR 0x5C, CHR ''n'']
         else if n = 13 then [CHR 0x5C, CHR ''r'']
         else if n = 9 then [CHR 0x5C, CHR ''t'']
         else if n = 11 then [CHR 0x5C, CHR ''v'']
         else [CHR 0x5C, CHR ''x'', digit_char (n div 16), digit_char (n mod 16)])"

definition StringQuote :: "string \<Rightarrow> string" where
  "StringQuote str = concat (map quote_char str)"

section \<open>The client\<close>

definition ExtractClientIPStr :: "PluginsState \<Rightarrow> string option" where
  "ExtractClientIPStr ps =
     (case ps_clientAddr ps of
        None \<Rightarrow> None
      | Some ip \<Rightarrow>
          if ps_clientProto ps = ''udp'' then Some (IP_String ip)
          else if ps_clientProto ps = ''tcp'' \<or> ps_clientProto ps = ''local_doh'' then Some (IP_String ip)
          else None)"

text \<open>The ciphers, the random generator and the settings of address encryption.\<close>

record ip_privacy =
  ip_ciphers :: block_ciphers
  ip_rand :: "nat \<Rightarrow> bytes option"
  ip_config :: "IPCryptConfig option"

definition ExtractClientIPStrEncrypted :: "ip_privacy \<Rightarrow> PluginsState \<Rightarrow> string option" where
  "ExtractClientIPStrEncrypted P ps =
     (case ExtractClientIPStr ps of
        None \<Rightarrow> None
      | Some ipStr \<Rightarrow>
          if ip_config P = None then Some ipStr
          else Some (EncryptIPString (ip_ciphers P) (ip_rand P) (ip_config P) ipStr))"

section \<open>The lines of the plugins\<close>

text \<open>A moment as the two formats write it.\<close>

record stamp =
  st_tsv :: string
  st_unix :: string

abbreviation tab :: string where "tab \<equiv> [CHR 0x09]"
abbreviation newline :: string where "newline \<equiv> [CHR 0x0A]"

primrec ltsv_fields :: "nat \<Rightarrow> string list \<Rightarrow> string" where
  "ltsv_fields i [] = []"
| "ltsv_fields i (field # rest) =
     tab @ (if i = 0 then ''ip:'' else ''field'' @ nat_string i @ '':'') @ StringQuote field @ ltsv_fields (Suc i) rest"

definition FormatLogLine :: "stamp \<Rightarrow> string \<Rightarrow> string \<Rightarrow> string \<Rightarrow> string \<Rightarrow> string list \<Rightarrow> string option" where
  "FormatLogLine st format clientIP qName reason additionalFields =
     (if format = ''tsv''
      then Some (st_tsv st @ tab @ clientIP @ tab @ StringQuote qName @ tab @ StringQuote reason @
                 concat (map (\<lambda>field. tab @ StringQuote field) additionalFields) @ newline)
      else if format = ''ltsv''
      then Some (''time:'' @ st_unix st @ tab @ ''host:'' @ clientIP @ tab @ ''qname:'' @ StringQuote qName @ tab @
                 ''message:'' @ StringQuote reason @ ltsv_fields 0 additionalFields @ newline)
      else None)"

record log_file =
  lf_lines :: "string list"
  lf_writable :: bool

text \<open>A logger is configured or not; the result tells whether writing failed.\<close>

definition WritePluginLog ::
  "stamp \<Rightarrow> bool \<Rightarrow> string \<Rightarrow> string \<Rightarrow> string \<Rightarrow> string \<Rightarrow> string list \<Rightarrow> log_file \<Rightarrow> bool \<times> log_file" where
  "WritePluginLog st logger format clientIP qName reason additionalFields f =
     (if \<not> logger then (True, f)
      else case FormatLogLine st format clientIP qName reason additionalFields of
             None \<Rightarrow> (True, f)
           | Some line \<Rightarrow> if lf_writable f then (False, f\<lparr>lf_lines := lf_lines f @ [line]\<rparr>) else (True, f))"

text \<open>The entry a rule leaves for an answer it decided on; an internal query leaves none.\<close>

definition log_decision ::
  "stamp \<Rightarrow> ip_privacy \<Rightarrow> bool \<Rightarrow> string \<Rightarrow> PluginsState \<Rightarrow> string \<Rightarrow> string \<Rightarrow> string list \<Rightarrow> log_file \<Rightarrow> bool \<times> log_file" where
  "log_decision st P logger format ps qName reason additionalFields f =
     (if \<not> logger then (False, f)
      else case ExtractClientIPStrEncrypted P ps of
             None \<Rightarrow> (False, f)
           | Some clientIPStr \<Rightarrow> WritePluginLog st logger format clientIPStr qName reason additionalFields f)"

section \<open>The log of nonexistent names\<close>

definition type_string :: "(nat \<rightharpoonup> string) \<Rightarrow> nat \<Rightarrow> string" where
  "type_string TypeToString rrType = (case TypeToString rrType of None \<Rightarrow> nat_string rrType | Some s \<Rightarrow> s)"

text \<open>A format other than the two ends the process in the source; the configuration admits no other.\<close>

definition PluginNxLog_Eval ::
  "(nat \<rightharpoonup> string) \<Rightarrow> stamp \<Rightarrow> ip_privacy \<Rightarrow> bool \<Rightarrow> string \<Rightarrow> log_file plugin" where
  "PluginNxLog_Eval TypeToString st P logger format f ps msg =
     (if m_Rcode msg \<noteq> RcodeNameError then (False, f, ps, msg)
      else case ExtractClientIPStrEncrypted P ps of
             None \<Rightarrow> (False, f, ps, msg)
           | Some clientIPStr \<Rightarrow>
               let qType = type_string TypeToString (q_Type (hd (m_Question msg))); qName = ps_qName ps;
                   line = (if format = ''tsv''
                           then st_tsv st @ tab @ clientIPStr @ tab @ StringQuote qName @ tab @ qType @ newline
                           else ''time:'' @ st_unix st @ tab @ ''host:'' @ clientIPStr @ tab @ ''message:'' @
                                StringQuote qName @ tab @ ''type:'' @ qType @ newline)
               in if \<not> logger then (True, f, ps, msg)
                  else (False, if lf_writable f then f\<lparr>lf_lines := lf_lines f @ [line]\<rparr> else f, ps, msg))"

section \<open>The log of queries\<close>

fun return_code_string :: "PluginsReturnCode \<Rightarrow> string" where
  "return_code_string PluginsReturnCodePass = ''PASS''"
| "return_code_string PluginsReturnCodeForward = ''FORWARD''"
| "return_code_string PluginsReturnCodeDrop = ''DROP''"
| "return_code_string PluginsReturnCodeReject = ''REJECT''"
| "return_code_string PluginsReturnCodeSynth = ''SYNTH''"
| "return_code_string PluginsReturnCodeParseError = ''PARSE_ERROR''"
| "return_code_string PluginsReturnCodeNXDomain = ''NXDOMAIN''"
| "return_code_string PluginsReturnCodeResponseError = ''RESPONSE_ERROR''"
| "return_code_string PluginsReturnCodeServFail = ''SERVFAIL''"
| "return_code_string PluginsReturnCodeNetworkError = ''NETWORK_ERROR''"
| "return_code_string PluginsReturnCodeCloak = ''CLOAK''"
| "return_code_string PluginsReturnCodeServerTimeout = ''SERVER_TIMEOUT''"
| "return_code_string PluginsReturnCodeNotReady = ''NOT_READY''"

definition logged_state :: "PluginsState \<Rightarrow> PluginsState" where
  "logged_state ps =
     (if ps_cacheHit ps then ps\<lparr>ps_serverName := ''-''\<rparr>
      else if ps_returnCode ps \<in> {PluginsReturnCodeSynth, PluginsReturnCodeCloak, PluginsReturnCodeParseError}
      then ps\<lparr>ps_serverName := ''-''\<rparr>
      else ps)"

definition request_duration :: "PluginsState \<Rightarrow> duration" where
  "request_duration ps =
     (let d = (if \<not> time_is_zero (ps_requestStart ps) \<and> \<not> time_is_zero (ps_requestEnd ps)
               then time_sub (ps_requestEnd ps) (ps_requestStart ps) else ps_timeout ps);
          triedUDPTCPTimeout = 4 * ps_timeout ps
      in if d > triedUDPTCPTimeout then triedUDPTCPTimeout else d)"

definition query_line :: "stamp \<Rightarrow> string \<Rightarrow> string \<Rightarrow> string \<Rightarrow> PluginsState \<Rightarrow> string" where
  "query_line st format clientIPStr qType ps =
     (let returnCode = return_code_string (ps_returnCode ps);
          duration = int_string (go_div (request_duration ps) millisecond);
          relayName = (if ps_relayName ps = [] then ''-'' else ps_relayName ps)
      in if format = ''tsv''
         then st_tsv st @ tab @ clientIPStr @ tab @ StringQuote (ps_qName ps) @ tab @ qType @ tab @ returnCode @ tab @
              duration @ ''ms'' @ tab @ StringQuote (ps_serverName ps) @ tab @ StringQuote relayName @ newline
         else ''time:'' @ st_unix st @ tab @ ''host:'' @ clientIPStr @ tab @ ''message:'' @ StringQuote (ps_qName ps) @ tab @
              ''type:'' @ qType @ tab @ ''return:'' @ returnCode @ tab @ ''cached:'' @ (if ps_cacheHit ps then ''1'' else ''0'') @
              tab @ ''duration:'' @ duration @ tab @ ''server:'' @ StringQuote (ps_serverName ps) @ tab @ ''relay:'' @
              StringQuote relayName @ newline)"

definition PluginQueryLog_Eval ::
  "(nat \<rightharpoonup> string) \<Rightarrow> stamp \<Rightarrow> ip_privacy \<Rightarrow> string list \<Rightarrow> bool \<Rightarrow> string \<Rightarrow> log_file plugin" where
  "PluginQueryLog_Eval TypeToString st P ignoredQtypes logger format f ps msg =
     (case ExtractClientIPStrEncrypted P ps of
        None \<Rightarrow> (False, f, ps, msg)
      | Some clientIPStr \<Rightarrow>
          let qType = type_string TypeToString (q_Type (hd (m_Question msg)))
          in if \<exists>ignoredQtype \<in> set ignoredQtypes. ToLower ignoredQtype = ToLower qType then (False, f, ps, msg)
             else let ps1 = logged_state ps; line = query_line st format clientIPStr qType ps1
                  in if \<not> logger then (True, f, ps1, msg)
                     else (False, if lf_writable f then f\<lparr>lf_lines := lf_lines f @ [line]\<rparr> else f, ps1, msg))"

section \<open>Both keep the identity of the query\<close>

lemma logged_state_identity [simp]: "ps_identity (logged_state ps) = ps_identity ps"
  by (simp add: logged_state_def)

interpretation nx_log: identity_plugin "PluginNxLog_Eval types st P logger format" for types st P logger format
  by unfold_locales (auto simp: PluginNxLog_Eval_def Let_def split: if_splits option.splits)

interpretation query_log: identity_plugin "PluginQueryLog_Eval types st P ignored logger format" for types st P ignored logger format
  by unfold_locales (auto simp: PluginQueryLog_Eval_def Let_def split: if_splits option.splits)

section \<open>A line is one record\<close>

definition unbroken :: "string \<Rightarrow> bool" where
  "unbroken s \<longleftrightarrow> CHR 0x09 \<notin> set s \<and> CHR 0x0A \<notin> set s"

lemma unbroken_simps [simp]: "unbroken []" "unbroken (a @ b) \<longleftrightarrow> unbroken a \<and> unbroken b"
  by (auto simp: unbroken_def)

lemma digit_char_plain: "d < 16 \<Longrightarrow> digit_char d \<noteq> CHR 0x09 \<and> digit_char d \<noteq> CHR 0x0A"
  by (auto simp: digit_char_def char_of_eq_iff take_bit_eq_mod split: if_splits)

lemma unbroken_Cons [simp]: "unbroken (c # s) \<longleftrightarrow> c \<noteq> CHR 0x09 \<and> c \<noteq> CHR 0x0A \<and> unbroken s"
  by (auto simp: unbroken_def)

lemma quote_char_plain: "unbroken (quote_char c)"
proof -
  define n where "n = (of_char c :: nat)"
  have "n < 256" unfolding n_def by (rule nat_of_char_less_256)
  then have d: "unbroken [digit_char (n div 16), digit_char (n mod 16)]"
    using digit_char_plain[of "n div 16"] digit_char_plain[of "n mod 16"] by auto
  consider (special) "n = 34 \<or> n = 92" | (print) "\<not> (n = 34 \<or> n = 92)" "32 \<le> n \<and> n \<le> 126" | (other) "\<not> (n = 34 \<or> n = 92)" "\<not> (32 \<le> n \<and> n \<le> 126)" by blast
  then show ?thesis
  proof cases
    case special
    then have "c \<noteq> CHR 0x09 \<and> c \<noteq> CHR 0x0A" by (auto simp: n_def)
    then show ?thesis using special unfolding quote_char_def n_def[symmetric] Let_def by simp
  next
    case print
    then have "c \<noteq> CHR 0x09 \<and> c \<noteq> CHR 0x0A" by (auto simp: n_def)
    then show ?thesis using print unfolding quote_char_def n_def[symmetric] Let_def by simp
  next
    case other
    show ?thesis using d unfolding quote_char_def n_def[symmetric] Let_def if_not_P[OF other(1)] if_not_P[OF other(2)] by simp
  qed
qed

lemma StringQuote_plain [simp]: "unbroken (StringQuote s)"
  using quote_char_plain by (fastforce simp: StringQuote_def unbroken_def)

lemma quote_no_newline [simp]: "CHR 0x0A \<notin> set (StringQuote s)"
  using StringQuote_plain[of s] unfolding unbroken_def by blast

lemma decimal_plain: "n \<le> 255 \<Longrightarrow> unbroken (decimal n)"
  by (simp add: decimal_def digit_char_plain)

lemma hex_plain: "n \<le> 65535 \<Longrightarrow> unbroken (hex n)"
  by (simp add: hex_def digit_char_plain)

lemma join_plain: "unbroken sep \<Longrightarrow> \<forall>x \<in> set xs. unbroken x \<Longrightarrow> unbroken (join sep xs)"
  by (induction xs) auto

lemma IP_String_plain:
  assumes "length ip = 4 \<or> length ip = 16"
  shows "unbroken (IP_String ip)"
proof (cases "To4 ip")
  case None
  then have "length ip = 16" using assms by (auto simp: To4_def)
  then have gs: "\<forall>g \<in> set (groups ip). g \<le> 65535" using groups_ok[of ip] by simp
  obtain zs ze where r: "best_run (groups ip) = (zs, ze)" by (cases "best_run (groups ip)")
  have j: "unbroken (join '':'' (map hex hs))" if "set hs \<subseteq> set (groups ip)" for hs
    using that gs hex_plain by (intro join_plain) (auto simp: unbroken_def)
  show ?thesis
    using None j[OF order_refl] j[OF set_take_subset, of zs] j[OF set_drop_subset, of ze]
    by (simp add: IP_String_def string6_def r Let_def)
next
  case (Some ip4)
  then show ?thesis using decimal_plain[OF unat_byte] by (auto simp: IP_String_def string4_def intro!: join_plain)
qed

lemma EncodeToString_plain: "unbroken (EncodeToString bs)"
proof -
  have "unbroken (hex_byte b)" for b
  proof -
    have "unat b div 16 < 16" using unat_byte[of b] by arith
    then show ?thesis by (simp add: hex_byte_def digit_char_plain)
  qed
  then show ?thesis by (fastforce simp: EncodeToString_def unbroken_def)
qed

lemma EncryptIPPfx_length:
  assumes "EncryptIPPfx C ip key = Some c" "To16 ip \<noteq> None"
  shows "length c = 4 \<or> length c = 16"
  using assms To16_length by (auto simp: EncryptIPPfx_def Let_def split: if_splits option.splits)

lemma EncryptIP_plain:
  assumes "ciphers_ok C" "length ip = 4 \<or> length ip = 16" "EncryptIP C rand config ip = Some s"
  shows "unbroken s"
proof -
  obtain ip16 where ip16: "To16 ip = Some ip16" using assms(2) by (auto simp: To16_def)
  have det: "length c = 16" if "ipcrypt_EncryptIP C key ip = Some c" for key c
    using that assms(1) ip16 To16_length[OF ip16] by (auto simp: ipcrypt_EncryptIP_def ciphers_ok_def split: if_splits)
  have pfx: "length c = 4 \<or> length c = 16" if "EncryptIPPfx C ip key = Some c" for key c
    using EncryptIPPfx_length[OF that] ip16 by simp
  show ?thesis
    using assms(2,3) det pfx
    by (auto simp: EncryptIP_def IP_String_plain EncodeToString_plain split: option.splits if_splits)
qed

lemma client_plain:
  assumes "ciphers_ok (ip_ciphers P)" "ps_clientAddr ps = Some ip" "length ip = 4 \<or> length ip = 16"
    and "ExtractClientIPStrEncrypted P ps = Some s"
  shows "unbroken s"
proof -
  have str: "ExtractClientIPStr ps = Some (IP_String ip)" using assms(2,4)
    by (auto simp: ExtractClientIPStrEncrypted_def ExtractClientIPStr_def split: option.splits if_splits)
  have "unbroken ''[encrypted]''" by (simp add: unbroken_def)
  moreover obtain ip16 where "ParseIP (IP_String ip) = Some ip16" "length ip16 = 16"
    using ParseIP_String[OF assms(3)] assms(3) by (auto simp: To16_def v4_prefix_def)
  ultimately show ?thesis
    using assms(1,4) str IP_String_plain[OF assms(3)] EncryptIP_plain[OF assms(1), of ip16]
    by (auto simp: ExtractClientIPStrEncrypted_def EncryptIPString_def split: if_splits option.splits)
qed

lemma Split_fields: "\<forall>x \<in> set (x0 # xs). unbroken x \<Longrightarrow> Split (x0 @ concat (map (\<lambda>x. tab @ x) xs)) (CHR 0x09) = x0 # xs"
proof (induction xs arbitrary: x0)
  case Nil
  then show ?case by (simp add: Split_single unbroken_def)
next
  case (Cons x xs)
  have "CHR 0x09 \<notin> set x0" using Cons.prems by (simp add: unbroken_def)
  then show ?case using Cons by (simp add: Split_pair)
qed

text \<open>
  C37. Log lines cannot be forged. Whatever the queried name, the reason and the additional fields contain, a
  line of the tab-separated format is a single line, and its fields are the time stamp, the client
  address, and the quoted name, reason and additional fields.
\<close>

theorem log_line_fields:
  assumes "FormatLogLine st ''tsv'' clientIP qName reason additionalFields = Some line"
    and "ciphers_ok (ip_ciphers P)" "ps_clientAddr ps = Some ip" "length ip = 4 \<or> length ip = 16"
    and "ExtractClientIPStrEncrypted P ps = Some clientIP" "unbroken (st_tsv st)"
  shows "\<exists>body. line = body @ newline \<and> CHR 0x0A \<notin> set body \<and>
    Split body (CHR 0x09) = [st_tsv st, clientIP, StringQuote qName, StringQuote reason] @ map StringQuote additionalFields"
proof -
  let ?xs = "[clientIP, StringQuote qName, StringQuote reason] @ map StringQuote additionalFields"
  let ?body = "st_tsv st @ concat (map (\<lambda>x. tab @ x) ?xs)"
  have client: "unbroken clientIP" using client_plain[OF assms(2-5)] .
  have "line = ?body @ newline" using assms(1) by (auto simp: FormatLogLine_def comp_def)
  moreover have "CHR 0x0A \<notin> set ?body"
    using client assms(6) by (auto simp: unbroken_def)
  moreover have "Split ?body (CHR 0x09) = st_tsv st # ?xs"
    using client assms(6) by (intro Split_fields) auto
  ultimately show ?thesis by (intro exI[of _ ?body]) simp
qed

theorem log_line_fields_witness:
  "\<exists>line body. FormatLogLine \<lparr>st_tsv = ''[0]'', st_unix = ''0''\<rparr> ''tsv'' ''192.0.2.1'' [CHR ''a'', CHR 0x0A, CHR 0x09] ''x'' [] = Some line \<and>
     line = body @ newline \<and> CHR 0x0A \<notin> set body \<and>
     Split body (CHR 0x09) = [''[0]'', ''192.0.2.1'', StringQuote [CHR ''a'', CHR 0x0A, CHR 0x09], StringQuote ''x'']"
proof -
  let ?st = "\<lparr>st_tsv = ''[0]'', st_unix = ''0''\<rparr>" and ?q = "[CHR ''a'', CHR 0x0A, CHR 0x09]"
  let ?C = "\<lparr>bc_aes = \<lambda>k b. b, bc_aes_inv = \<lambda>k b. b, bc_kiasu = \<lambda>k t b. b, bc_kiasu_inv = \<lambda>k t b. b\<rparr> :: block_ciphers"
  let ?P = "\<lparr>ip_ciphers = ?C, ip_rand = \<lambda>_. None, ip_config = None\<rparr>"
  let ?ps = "NewPluginsState \<lparr>qc_cacheNegMinTTL = 60, qc_cacheNegMaxTTL = 600, qc_cacheMinTTL = 60,
     qc_cacheMaxTTL = 86400, qc_rejectTTL = 10, qc_timeout = 1\<rparr> ''udp'' (Some [192, 0, 2, 1]) ''udp'' 0"
  obtain line where line: "FormatLogLine ?st ''tsv'' ''192.0.2.1'' ?q ''x'' [] = Some line" by (simp add: FormatLogLine_def)
  have "IP_String [192, 0, 2, 1] = ''192.0.2.1''" by code_simp
  then have "ExtractClientIPStrEncrypted ?P ?ps = Some ''192.0.2.1''"
    by (simp add: ExtractClientIPStrEncrypted_def ExtractClientIPStr_def NewPluginsState_def)
  moreover have "ps_clientAddr ?ps = Some [192, 0, 2, 1]" by (simp add: NewPluginsState_def)
  moreover have "ciphers_ok (ip_ciphers ?P)" by (simp add: ciphers_ok_def)
  ultimately show ?thesis using log_line_fields[OF line, of ?P ?ps "[192, 0, 2, 1]"] line by simp
qed

end
