(* ===== verification/Plugin_Reload.thy ===== *)
theory Plugin_Reload
  imports Go_Strings
begin

text \<open>
  Reading rule files (\<^verbatim>\<open>ReadTextFile\<close> of \<^verbatim>\<open>dnscrypt-proxy/common.go\<close>) and the reload protocol that the plugins
  with rule files share (\<^verbatim>\<open>dnscrypt-proxy/reload_utils.go\<close>). What the two readings of a file give is an input,
  \<open>None\<close> for an error. The protocol works on any state: preparing stages new rules, applying makes them
  active, cancelling drops them.
\<close>

definition ReadTextFile :: "string option \<Rightarrow> string option" where
  "ReadTextFile file =
     (case file of
        None \<Rightarrow> None
      | Some bin \<Rightarrow> Some (TrimPrefix bin [CHR 0xEF, CHR 0xBB, CHR 0xBF]))"

definition SafeReadTextFile :: "string option \<Rightarrow> string option \<Rightarrow> string option" where
  "SafeReadTextFile file1 file2 =
     (case ReadTextFile file1 of
        None \<Rightarrow> None
      | Some content \<Rightarrow>
          (case ReadTextFile file2 of
             None \<Rightarrow> None
           | Some content2 \<Rightarrow> if content \<noteq> content2 then None else Some content))"

text \<open>The result of each step tells whether it failed.\<close>

definition StandardPrepareReloadPattern ::
  "string option \<Rightarrow> string option \<Rightarrow> (string \<Rightarrow> 'w \<Rightarrow> bool \<times> 'w) \<Rightarrow> 'w \<Rightarrow> bool \<times> 'w" where
  "StandardPrepareReloadPattern file1 file2 prepareFunc w =
     (case SafeReadTextFile file1 file2 of None \<Rightarrow> (True, w) | Some lines \<Rightarrow> prepareFunc lines w)"

definition Reload ::
  "(string option \<Rightarrow> string option \<Rightarrow> 'w \<Rightarrow> bool \<times> 'w) \<Rightarrow> ('w \<Rightarrow> bool \<times> 'w) \<Rightarrow> ('w \<Rightarrow> 'w) \<Rightarrow>
   string option \<Rightarrow> string option \<Rightarrow> 'w \<Rightarrow> bool \<times> 'w" where
  "Reload prepare apply_staged cancel file1 file2 w =
     (case prepare file1 file2 w of
        (failed, w1) \<Rightarrow> if failed then (True, cancel w1) else apply_staged w1)"

section \<open>The contract of a plugin with rules\<close>

text \<open>
  \<open>active\<close> and \<open>staged\<close> are the two sets of rules, \<open>load\<close> what a file contains, \<open>ready\<close> that the plugin was
  initialised.
\<close>

locale reloadable =
  fixes prepare :: "string option \<Rightarrow> string option \<Rightarrow> 'w \<Rightarrow> bool \<times> 'w"
    and apply_staged :: "'w \<Rightarrow> bool \<times> 'w"
    and cancel :: "'w \<Rightarrow> 'w"
    and ready :: "'w \<Rightarrow> bool"
    and active :: "'w \<Rightarrow> 'r"
    and staged :: "'w \<Rightarrow> 'r option"
    and load :: "'w \<Rightarrow> string \<Rightarrow> 'r"
  assumes prepare_active: "prepare file1 file2 w = (failed, w') \<Longrightarrow> active w' = active w"
    and prepare_ok: "ready w \<Longrightarrow> SafeReadTextFile file1 file2 = Some lines \<Longrightarrow>
      \<exists>w'. prepare file1 file2 w = (False, w') \<and> staged w' = Some (load w lines)"
    and prepare_fails: "SafeReadTextFile file1 file2 = None \<Longrightarrow> fst (prepare file1 file2 w)"
    and apply_ok: "staged w = Some r \<Longrightarrow> \<exists>w'. apply_staged w = (False, w') \<and> active w' = r \<and> staged w' = None"
    and cancel_active: "active (cancel w) = active w"
    and cancel_staged: "staged (cancel w) = None"
begin

text \<open>A reload installs the rules of a file that was read twice with the same result; otherwise it changes nothing.\<close>

lemma reload_installs:
  assumes "ready w" "SafeReadTextFile file1 file2 = Some lines"
  shows "\<exists>w'. Reload prepare apply_staged cancel file1 file2 w = (False, w') \<and> active w' = load w lines \<and> staged w' = None"
proof -
  obtain w1 where w1: "prepare file1 file2 w = (False, w1)" "staged w1 = Some (load w lines)" using prepare_ok[OF assms] by blast
  then show ?thesis using apply_ok[OF w1(2)] by (simp add: Reload_def)
qed

lemma reload_keeps:
  assumes "SafeReadTextFile file1 file2 = None"
  shows "\<exists>w'. Reload prepare apply_staged cancel file1 file2 w = (True, w') \<and> active w' = active w \<and> staged w' = None"
proof -
  obtain w1 where w1: "prepare file1 file2 w = (True, w1)" using prepare_fails[OF assms, of w] by (cases "prepare file1 file2 w") auto
  then show ?thesis using prepare_active[OF w1] by (simp add: Reload_def cancel_active cancel_staged)
qed

end

lemma SafeReadTextFile_same: "SafeReadTextFile (Some f) (Some f) = Some (TrimPrefix f [CHR 0xEF, CHR 0xBB, CHR 0xBF])"
  by (simp add: SafeReadTextFile_def ReadTextFile_def)

end
