(* ===== verification/Critbit.thy ===== *)
theory Critbit
  imports Go_Prelude "HOL-Library.Sublist"
begin

unbundle bit_operations_syntax

text \<open>
  The crit-bit trie (vendored \<^verbatim>\<open>critbitgo/critbit.go\<close>) behind the name rules of the proxy: insertion without
  replacement and the search for the longest key that is a prefix of a given string. The main lemmas state
  that the trie holds exactly the inserted keys, each with its first value, and that \<open>LongestPrefix\<close>
  returns the longest of them that is a prefix.
\<close>

section \<open>The trie\<close>

definition msb :: "byte \<Rightarrow> byte" where
  "msb b0 =
     (let b1 = b0 OR drop_bit 1 b0; b2 = b1 OR drop_bit 2 b1; b3 = b2 OR drop_bit 4 b2
      in b3 AND NOT (drop_bit 1 b3))"

datatype 'v node =
    External bytes 'v
  | Internal (offset: nat) (nbit: byte) (ncont: bool) (child0: "'v node") (child1: "'v node")

text \<open>A trie without a root is empty.\<close>

type_synonym 'v Trie = "'v node option"

definition NewTrie :: "'v Trie" where
  "NewTrie = None"

text \<open>\<open>None\<close>: the keys are equal.\<close>

fun criticalBit_from :: "nat \<Rightarrow> bytes \<Rightarrow> bytes \<Rightarrow> (nat \<times> byte \<times> bool) option" where
  "criticalBit_from i (a # as) (b # bs) =
     (if b \<noteq> a then Some (i, msb (b XOR a), False) else criticalBit_from (Suc i) as bs)"
| "criticalBit_from i [] (b # bs) = Some (i, msb b, True)"
| "criticalBit_from i (a # as) [] = Some (i, msb a, True)"
| "criticalBit_from i [] [] = None"

definition criticalBit :: "bytes \<Rightarrow> bytes \<Rightarrow> (nat \<times> byte \<times> bool) option" where
  "criticalBit nkey key = criticalBit_from 0 nkey key"

definition direction :: "nat \<Rightarrow> byte \<Rightarrow> bool \<Rightarrow> bytes \<Rightarrow> bool" where
  "direction off b cont key \<longleftrightarrow> off < length key \<and> (key ! off AND b \<noteq> 0 \<or> cont)"

fun search_node :: "'v node \<Rightarrow> bytes \<Rightarrow> bytes \<times> 'v" where
  "search_node (External k v) key = (k, v)"
| "search_node (Internal off b cont l r) key =
     (if direction off b cont key then search_node r key else search_node l key)"

definition join_node :: "nat \<Rightarrow> byte \<Rightarrow> bool \<Rightarrow> bytes \<Rightarrow> 'v \<Rightarrow> 'v node \<Rightarrow> 'v node" where
  "join_node newOffset newBit newCont key v old =
     (if direction newOffset newBit newCont key
      then Internal newOffset newBit newCont old (External key v)
      else Internal newOffset newBit newCont (External key v) old)"

fun place_node :: "nat \<Rightarrow> byte \<Rightarrow> bool \<Rightarrow> bytes \<Rightarrow> 'v \<Rightarrow> 'v node \<Rightarrow> 'v node" where
  "place_node newOffset newBit newCont key v (External k w) =
     join_node newOffset newBit newCont key v (External k w)"
| "place_node newOffset newBit newCont key v (Internal off b cont l r) =
     (if off > newOffset \<or> (off = newOffset \<and> b < newBit)
      then join_node newOffset newBit newCont key v (Internal off b cont l r)
      else if direction off b cont key
      then Internal off b cont l (place_node newOffset newBit newCont key v r)
      else Internal off b cont (place_node newOffset newBit newCont key v l) r)"

text \<open>\<open>Insert\<close> keeps the value of a key that is already there.\<close>

definition Trie_Insert :: "bytes \<Rightarrow> 'v \<Rightarrow> 'v Trie \<Rightarrow> 'v Trie" where
  "Trie_Insert key v t =
     (case t of
        None \<Rightarrow> Some (External key v)
      | Some root \<Rightarrow>
          (case criticalBit (fst (search_node root key)) key of
             None \<Rightarrow> t
           | Some (newOffset, newBit, newCont) \<Rightarrow>
               Some (place_node newOffset newBit newCont key v root)))"

fun longestPrefix :: "'v node \<Rightarrow> bytes \<Rightarrow> (bytes \<times> 'v) option" where
  "longestPrefix (External k v) key = (if prefix k key then Some (k, v) else None)"
| "longestPrefix (Internal off b cont l r) key =
     (if direction off b cont key
      then (case longestPrefix r key of Some x \<Rightarrow> Some x | None \<Rightarrow> longestPrefix l key)
      else longestPrefix l key)"

definition LongestPrefix :: "bytes \<Rightarrow> 'v Trie \<Rightarrow> (bytes \<times> 'v) option" where
  "LongestPrefix given t = (case t of None \<Rightarrow> None | Some root \<Rightarrow> longestPrefix root given)"

section \<open>The most significant bit\<close>

lemma bit_msb: "bit (msb b) i \<longleftrightarrow> bit b i \<and> (\<forall>j>i. \<not> bit b j)"
proof -
  define b1 where "b1 = b OR drop_bit 1 b"
  define b2 where "b2 = b1 OR drop_bit 2 b1"
  define b3 where "b3 = b2 OR drop_bit 4 b2"
  have 3: "bit b3 i \<longleftrightarrow> (\<exists>j\<ge>i. bit b j)" for i
  proof
    assume "\<exists>j\<ge>i. bit b j"
    then obtain j where j: "i \<le> j" "bit b j" by blast
    then have "j < 8" using bit_imp_le_length[of b j] by simp
    then have "j - i \<in> {0, 1, 2, 3, 4, 5, 6, 7}" using j by auto
    moreover have "j = i + (j - i)" using j by simp
    ultimately have "j = i \<or> j = i + 1 \<or> j = i + 2 \<or> j = i + 3 \<or> j = i + 4 \<or> j = i + 5 \<or> j = i + 6 \<or> j = i + 7"
      by auto
    then show "bit b3 i" using j(2)
      by (auto simp: b1_def b2_def b3_def bit_simps eval_nat_numeral)
  next
    have up: "bit b (n + i) \<Longrightarrow> \<exists>j\<ge>i. bit b j" for n by (meson le_add2)
    assume "bit b3 i"
    then show "\<exists>j\<ge>i. bit b j"
      using up[of 0] up[of 1] up[of 2]
      by (auto simp: b1_def b2_def b3_def bit_simps intro: up)
  qed
  have "msb b = b3 AND NOT (drop_bit 1 b3)" unfolding msb_def Let_def b3_def b2_def b1_def ..
  then have "bit (msb b) i \<longleftrightarrow> bit b3 i \<and> \<not> bit b3 (Suc i)"
    using bit_imp_le_length[of b3 i] by (auto simp: bit_simps)
  then show ?thesis unfolding 3 Suc_le_eq by (metis le_neq_implies_less less_imp_le order_refl)
qed

lemma msb_cases:
  obtains "b = 0" "msb b = 0"
  | n where "n < 8" "bit b n" "\<And>m. n < m \<Longrightarrow> \<not> bit b m" "msb b = 2 ^ n"
proof (cases "b = 0")
  case True
  then show ?thesis using that(1) by (simp add: msb_def)
next
  case False
  then obtain k where "bit b k" by (auto simp: bit_eq_iff)
  moreover have fin: "finite {k. bit b k}"
    by (rule finite_subset[of _ "{..<8}"]) (auto dest: bit_imp_le_length)
  ultimately obtain n where n: "bit b n" "\<And>m. n < m \<Longrightarrow> \<not> bit b m"
    using Max_in[OF fin] Max_ge[OF fin] by (metis empty_iff mem_Collect_eq not_le)
  have "bit (msb b) i = bit (2 ^ n :: byte) i" if "i < 8" for i
    using n that by (cases i n rule: linorder_cases) (auto simp: bit_msb bit_exp_iff possible_bit_def)
  then have "msb b = 2 ^ n" by (intro bit_word_eqI) simp
  then show ?thesis using that(2)[OF _ n] bit_imp_le_length[OF n(1)] by simp
qed

lemma unat_pow: "n < 8 \<Longrightarrow> unat (2 ^ n :: byte) = 2 ^ n"
proof -
  assume "n < 8"
  then have "n \<in> {0, 1, 2, 3, 4, 5, 6, 7}" by auto
  then show ?thesis by auto
qed

lemma msb_le_iff: "msb a \<le> msb b \<longleftrightarrow> (\<forall>i. bit a i \<longrightarrow> (\<exists>j\<ge>i. bit b j))"
proof (cases a rule: msb_cases)
  case 1
  then show ?thesis by simp
next
  case (2 n)
  show ?thesis
  proof (cases b rule: msb_cases)
    case 1
    have "msb a \<noteq> 0" using 2 unat_pow[of n] by (metis power_not_zero unat_0 zero_neq_numeral)
    then show ?thesis using 1 2 by auto
  next
    case (2 m)
    have "msb a \<le> msb b \<longleftrightarrow> n \<le> m"
      using 2 \<open>msb a = 2 ^ n\<close> \<open>n < 8\<close> by (simp add: word_le_nat_alt unat_pow)
    then show ?thesis using 2 \<open>bit a n\<close> \<open>\<And>m. n < m \<Longrightarrow> \<not> bit a m\<close>
      by (metis not_le order_trans)
  qed
qed

text \<open>Bytes whose difference lies below the bit \<open>msb z\<close> agree on it.\<close>

lemma and_msb_eq: "msb (x XOR y) < msb z \<Longrightarrow> x AND msb z = y AND msb z"
  unfolding not_le[symmetric] msb_le_iff
  by (auto simp: bit_eq_iff bit_simps bit_msb) (metis not_le)+

lemma xor_eq_0 [simp]: "x XOR y = (0 :: byte) \<longleftrightarrow> x = y"
  by (auto simp: bit_eq_iff bit_simps)

lemma and_msb_differs: "x \<noteq> y \<Longrightarrow> (x AND msb (x XOR y) = 0) \<noteq> (y AND msb (x XOR y) = 0)"
proof -
  assume "x \<noteq> y"
  then have "x XOR y \<noteq> 0" by simp
  then obtain n where n: "n < 8" "bit (x XOR y) n" "msb (x XOR y) = 2 ^ n"
    by (cases "x XOR y" rule: msb_cases) auto
  have "(w AND 2 ^ n = 0) \<longleftrightarrow> \<not> bit w n" for w :: byte
    by (rule and_exp_eq_0_iff_not_bit)
  then show ?thesis using n by (simp add: bit_simps)
qed

lemma msb_triangle: "msb (x XOR y) \<le> msb a \<Longrightarrow> msb (y XOR z) \<le> msb a \<Longrightarrow> msb (x XOR z) \<le> msb a"
  unfolding msb_le_iff by (auto simp: bit_simps)

lemma msb_bound_triangle: "msb (x XOR y) \<le> b \<Longrightarrow> msb (y XOR z) \<le> b \<Longrightarrow> msb (x XOR z) \<le> b"
  using msb_triangle[of x y "x XOR y" z] msb_triangle[of x y "y XOR z" z]
  by (meson linear order_trans order_refl)

lemma msb_0 [simp]: "msb 0 = 0"
  by (simp add: msb_def)

section \<open>Contents and invariant\<close>

fun entries :: "'v node \<Rightarrow> (bytes \<times> 'v) list" where
  "entries (External k v) = [(k, v)]"
| "entries (Internal off b cont l r) = entries l @ entries r"

fun node_keys :: "'v node \<Rightarrow> bytes set" where
  "node_keys (External k v) = {k}"
| "node_keys (Internal off b cont l r) = node_keys l \<union> node_keys r"

fun branch :: "'v node \<Rightarrow> (nat \<times> byte) option" where
  "branch (External k v) = None"
| "branch (Internal off b cont l r) = Some (off, b)"

text \<open>The byte of a key at an offset, zero behind its end.\<close>

definition byte_at :: "bytes \<Rightarrow> nat \<Rightarrow> byte" where
  "byte_at k i = (if i < length k then k ! i else 0)"

text \<open>Every key starts as \<open>key\<close> does up to the offset, and differs from it there at most in the bits up to \<open>b\<close>.\<close>

definition agrees :: "nat \<Rightarrow> byte \<Rightarrow> bytes \<Rightarrow> bytes \<Rightarrow> bool" where
  "agrees off b k k' \<longleftrightarrow>
     off \<le> length k \<and> off \<le> length k' \<and> take off k = take off k' \<and>
     msb (byte_at k off XOR byte_at k' off) \<le> b"

definition after :: "nat \<Rightarrow> byte \<Rightarrow> 'v node \<Rightarrow> bool" where
  "after off b t \<longleftrightarrow>
     (case branch t of None \<Rightarrow> True | Some (off', b') \<Rightarrow> off < off' \<or> (off = off' \<and> b' \<le> b))"

definition ends_ok :: "nat \<Rightarrow> bool \<Rightarrow> 'v node \<Rightarrow> bool" where
  "ends_ok off cont l \<longleftrightarrow>
     (\<exists>k \<in> node_keys l. length k = off) \<longrightarrow>
     (if cont then branch l = None else map_option fst (branch l) = Some off)"

fun node_ok :: "'v node \<Rightarrow> bool" where
  "node_ok (External k v) \<longleftrightarrow> True"
| "node_ok (Internal off b cont l r) \<longleftrightarrow>
     node_ok l \<and> node_ok r \<and>
     (\<forall>k \<in> node_keys l. \<not> direction off b cont k) \<and> (\<forall>k \<in> node_keys r. direction off b cont k) \<and>
     (\<forall>k \<in> node_keys l \<union> node_keys r. \<forall>k' \<in> node_keys l \<union> node_keys r. agrees off b k k') \<and>
     after off b l \<and> after off b r \<and> ends_ok off cont l"

lemma direction_byte_at: "direction off b cont k \<longleftrightarrow> off < length k \<and> (byte_at k off AND b \<noteq> 0 \<or> cont)"
  by (auto simp: direction_def byte_at_def)

lemma direction_no_cont: "direction off b False k \<longleftrightarrow> byte_at k off AND b \<noteq> 0"
  by (auto simp: direction_byte_at byte_at_def)

lemma criticalBit_from_Some:
  "criticalBit_from i n key = Some (i', b', cont) \<Longrightarrow>
     \<exists>off. i' = i + off \<and> off \<le> length n \<and> off \<le> length key \<and> take off n = take off key \<and>
       b' = msb (byte_at n off XOR byte_at key off) \<and> (cont \<longleftrightarrow> length n = off \<or> length key = off) \<and>
       (length n \<noteq> off \<or> length key \<noteq> off) \<and> (cont \<or> byte_at n off \<noteq> byte_at key off)"
proof (induction i n key rule: criticalBit_from.induct)
  case (1 i a as b bs)
  show ?case
  proof (cases "b = a")
    case True
    then obtain off where
      "i' = Suc i + off" "off \<le> length as" "off \<le> length bs" "take off as = take off bs"
      "b' = msb (byte_at as off XOR byte_at bs off)" "cont \<longleftrightarrow> length as = off \<or> length bs = off"
      "length as \<noteq> off \<or> length bs \<noteq> off" "cont \<or> byte_at as off \<noteq> byte_at bs off"
      using 1 by auto
    then show ?thesis using True by (intro exI[of _ "Suc off"]) (auto simp: byte_at_def)
  next
    case False
    then show ?thesis using 1 by (auto simp: byte_at_def xor.commute)
  qed
qed (auto simp: byte_at_def)

text \<open>What \<open>criticalBit\<close> says of two different keys.\<close>

definition critical :: "bytes \<Rightarrow> bytes \<Rightarrow> nat \<Rightarrow> byte \<Rightarrow> bool \<Rightarrow> bool" where
  "critical n key off b cont \<longleftrightarrow>
     off \<le> length n \<and> off \<le> length key \<and> take off n = take off key \<and>
     b = msb (byte_at n off XOR byte_at key off) \<and> (cont \<longleftrightarrow> length n = off \<or> length key = off) \<and>
     (length n \<noteq> off \<or> length key \<noteq> off) \<and> (cont \<or> byte_at n off \<noteq> byte_at key off)"

lemma criticalBit_Some: "criticalBit n key = Some (off, b, cont) \<Longrightarrow> critical n key off b cont"
  using criticalBit_from_Some[of 0 n key off b cont] by (auto simp: criticalBit_def critical_def)

lemma criticalBit_None: "criticalBit n key = None \<longleftrightarrow> n = key"
proof -
  have "criticalBit_from i n key = None \<longleftrightarrow> n = key" for i
    by (induction i n key rule: criticalBit_from.induct) auto
  then show ?thesis by (simp add: criticalBit_def)
qed

lemma critical_direction:
  "critical n key off b cont \<Longrightarrow> direction off b cont n \<longleftrightarrow> \<not> direction off b cont key"
  using and_msb_differs[of "byte_at n off" "byte_at key off"]
  by (auto simp: critical_def direction_byte_at)

lemma search_in: "fst (search_node t key) \<in> node_keys t"
  by (induction t) auto

lemma fst_entries: "fst ` set (entries t) = node_keys t"
  by (induction t) auto

lemma keys_place: "node_keys (place_node off b cont key v t) = insert key (node_keys t)"
  by (induction t) (auto simp: join_node_def)

lemma root_join [simp]: "branch (join_node off b cont key v t) = Some (off, b)"
  by (simp add: join_node_def)

lemma root_place:
  "branch (place_node off b cont key v t) =
     (case branch t of None \<Rightarrow> Some (off, b)
      | Some (off', b') \<Rightarrow> if off' > off \<or> (off' = off \<and> b' < b) then Some (off, b) else Some (off', b'))"
  by (cases t) simp_all

lemma agrees_refl: "off \<le> length k \<Longrightarrow> agrees off b k k"
  by (simp add: agrees_def)

lemma agrees_sym: "agrees off b k k' \<Longrightarrow> agrees off b k' k"
  by (simp add: agrees_def xor.commute)

lemma agrees_trans: "agrees off b k k' \<Longrightarrow> agrees off b k' k'' \<Longrightarrow> agrees off b k k''"
  using msb_bound_triangle by (auto simp: agrees_def)

lemma byte_at_cong:
  assumes "take off k = take off k'" "off \<le> length k" "off \<le> length k'" "i < off"
  shows "byte_at k i = byte_at k' i"
proof -
  have "take off k ! i = take off k' ! i" using assms(1) by simp
  then show ?thesis using assms(2-4) by (simp add: byte_at_def)
qed

lemma critical_agrees:
  assumes "critical n key off b cont" "off' < off \<or> (off' = off \<and> b \<le> b')"
  shows "agrees off' b' n key"
proof (cases "off' < off")
  case True
  then have "take off' (take off n) = take off' (take off key)" "byte_at n off' = byte_at key off'"
    using assms(1) byte_at_cong[of off n key off'] by (simp_all add: critical_def)
  then show ?thesis using True assms(1) by (simp add: critical_def agrees_def)
next
  case False
  then show ?thesis using assms by (simp add: critical_def agrees_def)
qed

text \<open>A search below a node at the length of a shorter key never ends there.\<close>

lemma search_longer:
  "node_ok t \<Longrightarrow> branch t = Some (off, b) \<Longrightarrow> off < length key \<Longrightarrow> length (fst (search_node t key)) \<noteq> off"
proof (induction t arbitrary: b)
  case (Internal off' b' cont l r)
  show ?case
  proof (cases "direction off' b' cont key")
    case True
    then show ?thesis using Internal search_in[of r key] by (auto simp: direction_def)
  next
    case False
    show ?thesis
    proof
      assume *: "length (fst (search_node (Internal off' b' cont l r) key)) = off"
      then have "\<exists>k \<in> node_keys l. length k = off"
        using False search_in[of l key] by (intro bexI[of _ "fst (search_node l key)"]) simp_all
      then have "map_option fst (branch l) = Some off"
        using Internal.prems False by (simp add: ends_ok_def direction_def)
      then show False using Internal * False by auto
    qed
  qed
qed simp

text \<open>A subtree that insertion moves down below the new node lies on one side of it.\<close>

definition displaced :: "nat \<Rightarrow> byte \<Rightarrow> 'v node \<Rightarrow> bool" where
  "displaced off b t \<longleftrightarrow>
     (case branch t of None \<Rightarrow> True | Some (off', b') \<Rightarrow> off < off' \<or> (off = off' \<and> b' < b))"

lemma node_agrees:
  "node_ok t \<Longrightarrow> branch t = Some (off, b) \<Longrightarrow> k \<in> node_keys t \<Longrightarrow> k' \<in> node_keys t \<Longrightarrow> agrees off b k k'"
  by (cases t) auto

lemma displaced_key:
  assumes "node_ok t" "displaced off b t" "k \<in> node_keys t" "n \<in> node_keys t" "off \<le> length n"
  shows "off \<le> length k \<and> take off k = take off n \<and>
    (byte_at k off = byte_at n off \<or> msb (byte_at k off XOR byte_at n off) < b)"
proof (cases "branch t")
  case None
  then show ?thesis using assms by (cases t) auto
next
  case (Some r)
  then obtain off' b' where r: "branch t = Some (off', b')" by (cases r) auto
  have a: "agrees off' b' k n" using node_agrees[OF assms(1) r assms(3,4)] .
  show ?thesis
  proof (cases "off < off'")
    case True
    have "take off (take off' k) = take off (take off' n)" using a by (simp add: agrees_def)
    then show ?thesis using a True byte_at_cong[of off' k n off] by (simp add: agrees_def)
  next
    case False
    then show ?thesis using a r assms(2) by (auto simp: agrees_def displaced_def)
  qed
qed

lemma displaced_root:
  assumes "node_ok t" "displaced off b t" "k \<in> node_keys t" "length k = off" "branch t = Some (off', b')"
  shows "off' = off"
  using node_agrees[OF assms(1,5,3,3)] assms(2,4,5) by (auto simp: agrees_def displaced_def)

lemma displaced_end:
  assumes "node_ok t" "displaced off b t" "n = fst (search_node t key)" "length n = off" "off < length key"
  shows "branch t = None"
proof (rule ccontr)
  assume "branch t \<noteq> None"
  then obtain off' b' where r: "branch t = Some (off', b')" by auto
  then have "off' = off" using displaced_root[OF assms(1,2) _ assms(4) r] assms(3) search_in[of t key] by simp
  then show False using search_longer[OF assms(1) r] assms(3-5) by blast
qed

lemma displaced_side:
  assumes t: "node_ok t" "displaced off b t" and n: "n = fst (search_node t key)"
    and c: "critical n key off b cont" and fresh: "key \<notin> node_keys t" and k: "k \<in> node_keys t"
  shows "direction off b cont k \<longleftrightarrow> direction off b cont n"
proof -
  have nt: "n \<in> node_keys t" using n search_in[of t key] by simp
  note dk = displaced_key[OF t k nt]
  have same: "byte_at k off AND b = byte_at n off AND b"
    using dk c and_msb_eq[of "byte_at k off" "byte_at n off" "byte_at n off XOR byte_at key off"]
    by (auto simp: critical_def)
  show ?thesis
  proof (cases cont)
    case False
    then show ?thesis using same by (simp add: direction_no_cont)
  next
    case True
    show ?thesis
    proof (cases "length n = off")
      case ends: True
      then have "branch t = None" using displaced_end[OF t n ends] c by (auto simp: critical_def)
      then show ?thesis using k nt by (cases t) auto
    next
      case False
      then have len: "length key = off" "off < length n" using True c by (auto simp: critical_def)
      then have d: "off \<le> length k" "take off k = key" using dk c by (simp_all add: critical_def)
      then have "length k \<noteq> off" using k fresh by (metis order_refl take_all)
      then show ?thesis using True d(1) len(2) by (simp add: direction_def)
    qed
  qed
qed

lemma join_ok:
  assumes t: "node_ok t" "displaced off b t" and n: "n = fst (search_node t key)"
    and c: "critical n key off b cont" and fresh: "key \<notin> node_keys t"
  shows "node_ok (join_node off b cont key v t)"
proof -
  have nt: "n \<in> node_keys t" using n search_in[of t key] by simp
  have side: "direction off b cont k \<longleftrightarrow> \<not> direction off b cont key" if "k \<in> node_keys t" for k
    using displaced_side[OF t n c fresh that] critical_direction[OF c] by simp
  have "off \<le> length n" using c by (simp add: critical_def)
  then have near: "agrees off b k key" if "k \<in> node_keys t" for k
    using displaced_key[OF t that nt] critical_agrees[OF c, of off b]
    by (intro agrees_trans[of off b k n key]) (auto simp: agrees_def)
  then have all: "agrees off b k k'" if "k \<in> node_keys t" "k' \<in> node_keys t" for k k'
    using that agrees_trans agrees_sym by blast
  have self: "agrees off b key key" using c by (simp add: critical_def agrees_def)
  have "after off b t" using t(2) by (auto simp: after_def displaced_def split: option.splits)
  moreover have "ends_ok off cont t" if "direction off b cont key"
  proof -
    have long: "off < length key" using that by (simp add: direction_def)
    show ?thesis
    proof (cases cont)
      case True
      then have "length n = off" using long c by (auto simp: critical_def)
      then show ?thesis using True displaced_end[OF t n _ long] by (simp add: ends_ok_def)
    next
      case False
      then have "length n \<noteq> off" using c by (simp add: critical_def)
      then have "map_option fst (branch t) = Some off" if "k \<in> node_keys t" "length k = off" for k
        using that nt displaced_root[OF t that] by (cases t) auto
      then show ?thesis using False by (auto simp: ends_ok_def)
    qed
  qed
  moreover have "ends_ok off cont (External key v)" if "\<not> direction off b cont key"
    using that c by (auto simp: ends_ok_def critical_def direction_def)
  ultimately show ?thesis
    using t side near all self agrees_sym
    by (auto simp: join_node_def after_def)
qed

lemma after_place:
  "after off b t \<Longrightarrow> off < off' \<or> (off = off' \<and> b' \<le> b) \<Longrightarrow> after off b (place_node off' b' cont key v t)"
  by (auto simp: after_def root_place split: option.splits)

lemma ends_place:
  assumes l: "ends_ok off cont l" "after off b l" "node_ok (Internal off b cont l r)"
    and n: "n \<in> node_keys l" "critical n key off' b' cont'" "off < off' \<or> (off = off' \<and> b' \<le> b)"
    and key: "\<not> direction off b cont key" "key \<notin> node_keys l"
  shows "ends_ok off cont (place_node off' b' cont' key v l)"
proof -
  have eq: "k = key" if "length k = off" "length key = off" "k \<in> node_keys l" for k
  proof -
    have "agrees off b k n" using l(3) n(1) that(3) by simp
    moreover have "agrees off b n key" using critical_agrees[OF n(2) n(3)] .
    ultimately show ?thesis using that by (auto simp: agrees_def)
  qed
  have short: "length key = off" "length n = off" if cont "\<exists>k \<in> insert key (node_keys l). length k = off"
  proof -
    show "length key = off"
      using that key(1) critical_agrees[OF n(2) n(3)] by (auto simp: direction_def agrees_def)
    have "\<not> direction off b cont n" "agrees off b n n" using l(3) n(1) by simp_all
    then show "length n = off" using that(1) by (auto simp: direction_def agrees_def)
  qed
  have "off' = off" if "length key = off"
    using n(2,3) that by (auto simp: critical_def)
  then have branch: "map_option fst (branch (place_node off' b' cont' key v l)) = Some off"
    if "\<exists>k \<in> insert key (node_keys l). length k = off" "\<not> cont"
    using that l(1,2) n(3) by (auto simp: root_place ends_ok_def after_def split: option.splits)
  show ?thesis
    using short eq n(1) key(2) branch by (auto simp: ends_ok_def keys_place)
qed

lemma place_ok:
  "node_ok t \<Longrightarrow> n = fst (search_node t key) \<Longrightarrow> critical n key off b cont \<Longrightarrow> key \<notin> node_keys t \<Longrightarrow>
     node_ok (place_node off b cont key v t)"
proof (induction t)
  case (External k w)
  then show ?case using join_ok[of "External k w" off b n key cont v] by (simp add: displaced_def)
next
  case (Internal off' b' cont' l r)
  show ?case
  proof (cases "off' > off \<or> (off' = off \<and> b' < b)")
    case True
    then show ?thesis
      using Internal.prems join_ok[of "Internal off' b' cont' l r" off b n key cont v]
      by (auto simp: displaced_def)
  next
    case False
    then have pos: "off' < off \<or> (off' = off \<and> b \<le> b')" by auto
    have nt: "n \<in> node_keys (Internal off' b' cont' l r)"
      using Internal.prems(2) search_in by blast
    have near: "agrees off' b' k key" if "k \<in> node_keys l \<union> node_keys r" for k
      using Internal.prems(1) nt that critical_agrees[OF Internal.prems(3) pos]
      by (intro agrees_trans[of off' b' k n key]) auto
    have self: "agrees off' b' key key"
      using near[of n] nt agrees_sym agrees_trans[of off' b' key n key] by auto
    show ?thesis
    proof (cases "direction off' b' cont' key")
      case True
      then have "node_ok (place_node off b cont key v r)" "after off' b' (place_node off b cont key v r)"
        using Internal pos by (auto intro: after_place)
      then show ?thesis using Internal.prems(1) True False near self agrees_sym
        by (auto simp: keys_place)
    next
      case go_left: False
      then have "node_ok (place_node off b cont key v l)" "after off' b' (place_node off b cont key v l)"
        using Internal pos by (auto intro: after_place)
      moreover have "ends_ok off' cont' (place_node off b cont key v l)"
        using ends_place[of off' cont' l b' r n key off b cont v] Internal.prems go_left pos
          search_in[of l key] by auto
      ultimately show ?thesis using Internal.prems(1) go_left False near self agrees_sym
        by (auto simp: keys_place)
    qed
  qed
qed

section \<open>The interface of a trie\<close>

text \<open>
  What the clients of the trie rely on: an invariant, the finite map a trie stands for, insertion that
  never overwrites, and the longest stored key that is a prefix of a given string.
\<close>

locale prefix_map =
  fixes empty :: 't
    and insert_key :: "bytes \<Rightarrow> 'v \<Rightarrow> 't \<Rightarrow> 't"
    and longest :: "bytes \<Rightarrow> 't \<Rightarrow> (bytes \<times> 'v) option"
    and inv :: "'t \<Rightarrow> bool"
    and lookup :: "'t \<Rightarrow> bytes \<rightharpoonup> 'v"
  assumes inv_empty: "inv empty"
    and lookup_empty: "lookup empty = Map.empty"
    and inv_insert: "inv t \<Longrightarrow> inv (insert_key k v t)"
    and lookup_insert: "inv t \<Longrightarrow> lookup (insert_key k v t) = [k \<mapsto> v] ++ lookup t"
    and longest_Some: "inv t \<Longrightarrow> longest g t = Some (k, v) \<Longrightarrow>
      lookup t k = Some v \<and> prefix k g \<and> (\<forall>k' \<in> dom (lookup t). prefix k' g \<longrightarrow> length k' \<le> length k)"
    and longest_None: "inv t \<Longrightarrow> longest g t = None \<Longrightarrow> k \<in> dom (lookup t) \<Longrightarrow> \<not> prefix k g"
begin

text \<open>A trie filled from a list of rules holds for each key the value of its first rule.\<close>

lemma inv_fill: "inv t \<Longrightarrow> inv (fold (\<lambda>(k, v). insert_key k v) rs t)"
  by (induction rs arbitrary: t) (auto simp: inv_insert)

lemma lookup_fill: "inv t \<Longrightarrow> lookup (fold (\<lambda>(k, v). insert_key k v) rs t) = map_of rs ++ lookup t"
proof (induction rs arbitrary: t)
  case (Cons r rs)
  obtain k v where "r = (k, v)" by (cases r)
  then show ?case using Cons by (auto simp: inv_insert lookup_insert map_add_def fun_eq_iff split: option.splits)
qed simp

lemma longest_iff:
  assumes "inv t"
  shows "longest g t = Some (k, v) \<longleftrightarrow>
    lookup t k = Some v \<and> prefix k g \<and> (\<forall>k' \<in> dom (lookup t). prefix k' g \<longrightarrow> length k' \<le> length k)"
proof
  assume *: "lookup t k = Some v \<and> prefix k g \<and> (\<forall>k' \<in> dom (lookup t). prefix k' g \<longrightarrow> length k' \<le> length k)"
  then obtain k2 v2 where l: "longest g t = Some (k2, v2)"
    using longest_None[OF assms, of g k] by (cases "longest g t") auto
  note s = longest_Some[OF assms l]
  then have "length k2 = length k" using * by (intro order.antisym) auto
  then have "k2 = k" using * s by (metis prefix_order.order_refl prefix_same_cases prefix_length_prefix prefix_order.antisym order_refl)
  then show "longest g t = Some (k, v)" using l s * by simp
qed (use longest_Some[OF assms] in blast)

lemma longest_none_iff: "inv t \<Longrightarrow> longest g t = None \<longleftrightarrow> (\<forall>k \<in> dom (lookup t). \<not> prefix k g)"
  using longest_None longest_Some by (metis domI not_None_eq prod.exhaust)

text \<open>If any stored key is a prefix, the search succeeds.\<close>

lemma longest_exists:
  assumes "inv t" "lookup t k = Some v" "prefix k g"
  shows "\<exists>k' v'. longest g t = Some (k', v') \<and> length k \<le> length k'"
  using assms longest_None[OF assms(1), of g k] longest_Some[OF assms(1), of g]
  by (cases "longest g t") fastforce+

end

section \<open>The trie implements the interface\<close>

definition Trie_lookup :: "'v Trie \<Rightarrow> bytes \<rightharpoonup> 'v" where
  "Trie_lookup t = (case t of None \<Rightarrow> Map.empty | Some root \<Rightarrow> map_of (entries root))"

definition Trie_ok :: "'v Trie \<Rightarrow> bool" where
  "Trie_ok t \<longleftrightarrow> (case t of None \<Rightarrow> True | Some root \<Rightarrow> node_ok root)"

lemma dom_entries [simp]: "dom (map_of (entries t)) = node_keys t"
  by (simp add: dom_map_of_conv_image_fst fst_entries)

lemma entries_none: "k \<notin> node_keys t \<Longrightarrow> map_of (entries t) k = None"
  by (simp add: map_of_eq_None_iff fst_entries)

lemma entries_some: "map_of (entries t) k = Some v \<Longrightarrow> k \<in> node_keys t"
  by (metis entries_none option.distinct(1))

lemma entries_in: "k \<in> node_keys t \<Longrightarrow> \<exists>v. map_of (entries t) k = Some v"
  by (metis domD dom_entries)

lemma map_of_join: "key \<notin> node_keys t \<Longrightarrow> map_of (entries (join_node off b cont key v t)) = (map_of (entries t))(key \<mapsto> v)"
  by (auto simp: join_node_def map_add_def fun_eq_iff entries_none split: option.splits)

lemma map_of_place:
  "key \<notin> node_keys t \<Longrightarrow> map_of (entries (place_node off b cont key v t)) = (map_of (entries t))(key \<mapsto> v)"
proof (induction t)
  case (Internal off' b' cont' l r)
  then show ?case using map_of_join[of key "Internal off' b' cont' l r"]
    by (auto simp: map_add_def fun_eq_iff entries_none split: option.splits)
qed (simp add: map_of_join)

lemma search_finds: "node_ok t \<Longrightarrow> key \<in> node_keys t \<Longrightarrow> fst (search_node t key) = key"
  by (induction t) auto

lemma Insert_ok: "Trie_ok t \<Longrightarrow> Trie_ok (Trie_Insert key v t)"
proof (cases t)
  case (Some root)
  assume "Trie_ok t"
  then have ok: "node_ok root" using Some by (simp add: Trie_ok_def)
  have "node_ok (place_node off b cont key v root)"
    if "criticalBit (fst (search_node root key)) key = Some (off, b, cont)" for off b cont
  proof (rule place_ok[OF ok refl criticalBit_Some[OF that]])
    have "fst (search_node root key) \<noteq> key" using that criticalBit_None[of key key] by auto
    then show "key \<notin> node_keys root" using search_finds[OF ok] by blast
  qed
  then show ?thesis using Some ok by (auto simp: Trie_ok_def Trie_Insert_def split: option.splits)
qed (simp add: Trie_ok_def Trie_Insert_def)

lemma Insert_lookup: "Trie_ok t \<Longrightarrow> Trie_lookup (Trie_Insert key v t) = [key \<mapsto> v] ++ Trie_lookup t"
proof (cases t)
  case (Some root)
  assume "Trie_ok t"
  then have ok: "node_ok root" using Some by (simp add: Trie_ok_def)
  show ?thesis
  proof (cases "key \<in> node_keys root")
    case True
    then have "criticalBit (fst (search_node root key)) key = None"
      using search_finds[OF ok] by (simp add: criticalBit_None)
    moreover have "\<exists>w. map_of (entries root) key = Some w" using True by (rule entries_in)
    ultimately show ?thesis using Some by (auto simp: Trie_Insert_def Trie_lookup_def map_add_def fun_eq_iff split: option.splits)
  next
    case False
    then have "fst (search_node root key) \<noteq> key" using search_in[of root key] by auto
    then obtain x where "criticalBit (fst (search_node root key)) key = Some x"
      by (metis criticalBit_None option.exhaust)
    then show ?thesis using Some False
      by (auto simp: Trie_Insert_def Trie_lookup_def map_of_place map_add_def fun_eq_iff entries_none
               split: option.splits prod.splits)
  qed
qed (simp add: Trie_Insert_def Trie_lookup_def)

text \<open>The search relies only on the sides the keys lie on.\<close>

lemma direction_prefix: "prefix k key \<Longrightarrow> off < length k \<Longrightarrow> direction off b cont k = direction off b cont key"
  by (auto simp: direction_def prefix_def nth_append)

lemma longestPrefix_spec:
  "node_ok t \<Longrightarrow>
     (case longestPrefix t key of
        None \<Rightarrow> \<forall>k \<in> node_keys t. \<not> prefix k key
      | Some (k, v) \<Rightarrow> map_of (entries t) k = Some v \<and> prefix k key \<and>
          (\<forall>k' \<in> node_keys t. prefix k' key \<longrightarrow> length k' \<le> length k))"
proof (induction t)
  case (Internal off b cont l r)
  have disj: "node_keys l \<inter> node_keys r = {}" using Internal.prems by auto
  have left: "map_of (entries l @ entries r) k = Some v" if "map_of (entries l) k = Some v" for k v
    using that by (simp add: map_add_def)
  have right: "map_of (entries l @ entries r) k = Some v" if "map_of (entries r) k = Some v" for k v
  proof -
    have "k \<in> node_keys r" using that by (rule entries_some)
    then have "map_of (entries l) k = None" using disj by (intro entries_none) auto
    then show ?thesis using that by (simp add: map_add_def)
  qed
  show ?case
  proof (cases "direction off b cont key")
    case True
    have short: "length k \<le> off" if "k \<in> node_keys l" "prefix k key" for k
    proof -
      have "\<not> direction off b cont k" using Internal.prems that(1) by simp
      then show ?thesis using direction_prefix[OF that(2), of off b cont] True by (auto simp: not_less[symmetric])
    qed
    show ?thesis
    proof (cases "longestPrefix r key")
      case None
      then show ?thesis using True Internal left by (auto split: option.splits)
    next
      case (Some kv)
      obtain k v where kv: "kv = (k, v)" by (cases kv)
      have IH: "map_of (entries r) k = Some v" "prefix k key" "\<forall>k' \<in> node_keys r. prefix k' key \<longrightarrow> length k' \<le> length k"
        using Internal.IH(2) Internal.prems Some kv by auto
      then have "k \<in> node_keys r" by (intro entries_some)
      then have "off < length k" using Internal.prems by (auto simp: direction_def)
      then have "length k' \<le> length k" if "k' \<in> node_keys l" "prefix k' key" for k'
        using short[OF that] by simp
      then show ?thesis using True Some kv IH right[OF IH(1)] by auto
    qed
  next
    case False
    have "\<not> prefix k key" if "k \<in> node_keys r" for k
      using direction_prefix[of k key off b cont] that False Internal.prems by (auto simp: direction_def)
    then show ?thesis using False Internal left by (auto split: option.splits)
  qed
qed simp

lemma LongestPrefix_Some:
  "Trie_ok t \<Longrightarrow> LongestPrefix g t = Some (k, v) \<Longrightarrow>
     Trie_lookup t k = Some v \<and> prefix k g \<and> (\<forall>k' \<in> dom (Trie_lookup t). prefix k' g \<longrightarrow> length k' \<le> length k)"
  using longestPrefix_spec[of "the t" g]
  by (auto simp: LongestPrefix_def Trie_ok_def Trie_lookup_def split: option.splits)

lemma LongestPrefix_None:
  "Trie_ok t \<Longrightarrow> LongestPrefix g t = None \<Longrightarrow> k \<in> dom (Trie_lookup t) \<Longrightarrow> \<not> prefix k g"
  using longestPrefix_spec[of "the t" g]
  by (auto simp: LongestPrefix_def Trie_ok_def Trie_lookup_def split: option.splits)

interpretation critbit: prefix_map NewTrie Trie_Insert LongestPrefix Trie_ok Trie_lookup
proof unfold_locales
  show "Trie_ok (NewTrie :: 'v Trie)" "Trie_lookup (NewTrie :: 'v Trie) = Map.empty"
    by (simp_all add: Trie_ok_def Trie_lookup_def NewTrie_def)
qed (erule Insert_ok Insert_lookup | erule (1) LongestPrefix_Some | erule (2) LongestPrefix_None)+

section \<open>Property\<close>

text \<open>
  C14. A trie filled by any sequence of insertions finds for every string the longest of the inserted keys
  that is a prefix of it, with the value of the first insertion of that key, and finds nothing exactly
  if no inserted key is a prefix.
\<close>

theorem trie_longest_prefix:
  "(LongestPrefix g (fold (\<lambda>(k, v). Trie_Insert k v) rs NewTrie) = Some (k, v) \<longleftrightarrow>
      map_of rs k = Some v \<and> prefix k g \<and> (\<forall>k' \<in> dom (map_of rs). prefix k' g \<longrightarrow> length k' \<le> length k)) \<and>
   (LongestPrefix g (fold (\<lambda>(k, v). Trie_Insert k v) rs NewTrie) = None \<longleftrightarrow>
      (\<forall>k' \<in> dom (map_of rs). \<not> prefix k' g))"
  using critbit.longest_iff[OF critbit.inv_fill[OF critbit.inv_empty], of g rs k v]
    critbit.longest_none_iff[OF critbit.inv_fill[OF critbit.inv_empty], of g rs]
  by (simp add: critbit.lookup_fill[OF critbit.inv_empty] critbit.lookup_empty)

theorem trie_longest_prefix_witness:
  "LongestPrefix [1, 2, 3] (fold (\<lambda>(k, v). Trie_Insert k v) [([1], 10), ([1, 2], 20), ([1, 2], 30), ([2], 40 :: nat)] NewTrie) =
     Some ([1, 2], 20)"
  using trie_longest_prefix[of "[1, 2, 3]" "[([1], 10), ([1, 2], 20), ([1, 2], 30), ([2], 40 :: nat)]" "[1, 2]" 20]
  by (simp add: insert_commute)

end
