(* ===== verification/Glob.thy ===== *)
theory Glob
  imports Go_Strings
begin

text \<open>
  \<^verbatim>\<open>filepath.Match\<close> of the Go library, which matches names against the rules with wildcards inside, as it
  works on Unix. A bad pattern is \<open>None\<close>. The main lemma shows that its search, which takes for every part
  between two stars the first place where it fits, decides the meaning of a pattern.
\<close>

section \<open>The matcher\<close>

abbreviation separator :: char where "separator \<equiv> CHR ''/''"
abbreviation backslash :: char where "backslash \<equiv> CHR 0x5C"

text \<open>The text up to the next star that is not within a character class.\<close>

fun scan_from :: "bool \<Rightarrow> string \<Rightarrow> string \<times> string" where
  "scan_from inrange [] = ([], [])"
| "scan_from inrange (c # p) =
     (if c = backslash
      then (case p of
              [] \<Rightarrow> ([c], [])
            | d # p' \<Rightarrow> (case scan_from inrange p' of (a, b) \<Rightarrow> (c # d # a, b)))
      else if c = CHR ''*'' \<and> \<not> inrange then ([], c # p)
      else (case scan_from (if c = CHR ''['' then True else if c = CHR '']'' then False else inrange) p of
              (a, b) \<Rightarrow> (c # a, b)))"

definition scanChunk :: "string \<Rightarrow> bool \<times> string \<times> string" where
  "scanChunk pattern =
     (prefix ''*'' pattern, scan_from False (dropWhile (\<lambda>c. c = CHR ''*'') pattern))"

definition getEsc :: "string \<Rightarrow> (char \<times> string) option" where
  "getEsc chunk =
     (case chunk of
        [] \<Rightarrow> None
      | c # rest \<Rightarrow>
          if c = CHR ''-'' \<or> c = CHR '']'' then None
          else (case (if c = backslash then rest else chunk) of
                  [] \<Rightarrow> None
                | r # nchunk \<Rightarrow> if nchunk = [] then None else Some (r, nchunk)))"

lemma getEsc_shorter: "getEsc chunk = Some (r, rest) \<Longrightarrow> length rest < length chunk \<and> rest \<noteq> []"
  by (auto simp: getEsc_def split: list.splits if_splits)

text \<open>The ranges of a character class, up to its closing bracket.\<close>

function class_ranges :: "nat \<Rightarrow> bool \<Rightarrow> bool \<Rightarrow> string \<Rightarrow> (bool \<times> string) option" where
  "class_ranges r found seen chunk =
     (if seen \<and> prefix '']'' chunk then Some (found, tl chunk)
      else (case getEsc chunk of
              None \<Rightarrow> None
            | Some (lo, c1) \<Rightarrow>
                if hd c1 = CHR ''-''
                then (case getEsc (tl c1) of
                        None \<Rightarrow> None
                      | Some (hi, c2) \<Rightarrow> class_ranges r (found \<or> of_char lo \<le> r \<and> r \<le> of_char hi) True c2)
                else class_ranges r (found \<or> of_char lo = r) True c1))"
  by pat_completeness auto
termination
proof (relation "measure (\<lambda>(_, _, _, chunk). length chunk)", goal_cases)
  case (2 r found seen chunk x lo c1 y hi c2)
  then show ?case
    using getEsc_shorter[of chunk lo c1] getEsc_shorter[of "tl c1" hi c2] by (auto simp: less_le_trans)
next
  case (3 r found seen chunk x lo c1)
  then show ?case using getEsc_shorter[of chunk lo c1] by auto
qed simp

declare class_ranges.simps [simp del]

lemma class_ranges_shorter: "class_ranges r found seen chunk = Some (m, rest) \<Longrightarrow> length rest < length chunk"
proof (induction r found seen chunk rule: class_ranges.induct)
  case (1 r found seen chunk)
  note unfolded = 1(3)[unfolded class_ranges.simps[of r found seen chunk]]
  show ?case
  proof (cases "seen \<and> prefix '']'' chunk")
    case True
    then show ?thesis using unfolded by (cases chunk) auto
  next
    case False
    then obtain lo c1 where e: "getEsc chunk = Some (lo, c1)" using unfolded by (cases "getEsc chunk") auto
    note short = getEsc_shorter[OF e]
    show ?thesis
    proof (cases "hd c1 = CHR ''-''")
      case True
      then obtain hi c2 where e2: "getEsc (tl c1) = Some (hi, c2)"
        using unfolded False e by (cases "getEsc (tl c1)") auto
      have "class_ranges r (found \<or> of_char lo \<le> r \<and> r \<le> of_char hi) True c2 = Some (m, rest)"
        using unfolded False e True e2 by simp
      then have "length rest < length c2" by (rule 1(1)[OF False e refl True e2 refl])
      then show ?thesis using short getEsc_shorter[OF e2] by auto
    next
      case no_range: False
      have "class_ranges r (found \<or> of_char lo = r) True c1 = Some (m, rest)"
        using unfolded False e no_range by simp
      then have "length rest < length c1" by (rule 1(2)[OF False e refl no_range])
      then show ?thesis using short by simp
    qed
  qed
qed

text \<open>
  One chunk against the start of the name: the rest of the name, \<open>Some None\<close> without a match. After a
  mismatch the chunk is still read to its end, so that its syntax is checked.
\<close>

function matchChunk :: "bool \<Rightarrow> string \<Rightarrow> string \<Rightarrow> string option option" where
  "matchChunk failed [] s = Some (if failed then None else Some s)"
| "matchChunk failed (c # chunk) s =
     (let failed1 = (failed \<or> s = [])
      in if c = CHR ''[''
         then let negated = prefix ''^'' chunk
              in (case class_ranges (if failed1 then 0 else of_char (hd s)) False False
                         (if negated then tl chunk else chunk) of
                    None \<Rightarrow> None
                  | Some (found, rest) \<Rightarrow>
                      matchChunk (failed1 \<or> found = negated) rest (if failed1 then s else tl s))
         else if c = CHR ''?''
         then matchChunk (failed1 \<or> hd s = separator) chunk (if failed1 then s else tl s)
         else if c = backslash
         then (case chunk of
                 [] \<Rightarrow> None
               | d # rest \<Rightarrow> matchChunk (failed1 \<or> d \<noteq> hd s) rest (if failed1 then s else tl s))
         else matchChunk (failed1 \<or> c \<noteq> hd s) chunk (if failed1 then s else tl s))"
  by pat_completeness auto
termination
proof (relation "measure (\<lambda>(_, chunk, _). length chunk)", goal_cases)
  case (2 failed c chunk s failed1 negated x found rest)
  then show ?case
    by (auto dest!: class_ranges_shorter split: if_splits)
qed auto

text \<open>A chunk after a star: the places behind the first characters, none of which may be a separator.\<close>

primrec skip_match :: "string \<Rightarrow> bool \<Rightarrow> string \<Rightarrow> string option option" where
  "skip_match chunk at_end [] = Some None"
| "skip_match chunk at_end (c # name) =
     (if c = separator then Some None
      else (case matchChunk False chunk name of
              None \<Rightarrow> None
            | Some None \<Rightarrow> skip_match chunk at_end name
            | Some (Some t) \<Rightarrow>
                if at_end \<and> t \<noteq> [] then skip_match chunk at_end name else Some (Some t)))"

lemma scan_from_length: "scan_from inrange p = (a, b) \<Longrightarrow> length a + length b = length p"
  by (induction inrange p arbitrary: a b rule: scan_from.induct) (auto split: if_splits list.splits prod.splits)

lemma scanChunk_shorter: "pattern \<noteq> [] \<Longrightarrow> scanChunk pattern = (star, chunk, rest) \<Longrightarrow> length rest < length pattern"
proof (cases pattern)
  case (Cons c p)
  assume s: "scanChunk pattern = (star, chunk, rest)"
  show ?thesis
  proof (cases "c = CHR ''*''")
    case True
    have "length chunk + length rest = length (dropWhile (\<lambda>c. c = CHR ''*'') p)"
      using s Cons True by (auto simp: scanChunk_def dest: scan_from_length)
    then show ?thesis using Cons length_dropWhile_le[of "\<lambda>c. c = CHR ''*''" p] by simp
  next
    case False
    then have "scan_from False (c # p) = (chunk, rest)" using s Cons by (auto simp: scanChunk_def)
    moreover from this have "chunk \<noteq> []" using False by (auto split: if_splits list.splits prod.splits)
    ultimately show ?thesis using Cons scan_from_length[of False "c # p" chunk rest] by (cases chunk) auto
  qed
qed simp

text \<open>After a failed match the remaining chunks are checked for their syntax.\<close>

function check_rest :: "string \<Rightarrow> bool option" where
  "check_rest pattern =
     (if pattern = [] then Some False
      else (case scanChunk pattern of
              (star, chunk, rest) \<Rightarrow>
                (case matchChunk False chunk [] of None \<Rightarrow> None | Some _ \<Rightarrow> check_rest rest)))"
  by pat_completeness auto
termination
  by (relation "measure length") (auto dest: scanChunk_shorter[OF _ sym])

function filepath_Match :: "string \<Rightarrow> string \<Rightarrow> bool option" where
  "filepath_Match pattern name =
     (if pattern = [] then Some (name = [])
      else (case scanChunk pattern of
              (star, chunk, rest) \<Rightarrow>
                if star \<and> chunk = [] then Some (separator \<notin> set name)
                else (case matchChunk False chunk name of
                        None \<Rightarrow> None
                      | Some m \<Rightarrow>
                          if m \<noteq> None \<and> (the m = [] \<or> rest \<noteq> []) then filepath_Match rest (the m)
                          else if star
                          then (case skip_match chunk (rest = []) name of
                                  None \<Rightarrow> None
                                | Some None \<Rightarrow> check_rest rest
                                | Some (Some t) \<Rightarrow> filepath_Match rest t)
                          else check_rest rest)))"
  by pat_completeness auto
termination
  by (relation "measure (\<lambda>(pattern, _). length pattern)") (auto dest: scanChunk_shorter[OF _ sym])

declare check_rest.simps [simp del] filepath_Match.simps [simp del]

section \<open>The meaning of a pattern\<close>

text \<open>
  Patterns made of literal characters, question marks and stars, that is, without classes and escapes: a
  question mark stands for one character, a star for any text, but neither stands for a separator.
\<close>

definition fits :: "char \<Rightarrow> char \<Rightarrow> bool" where
  "fits c x \<longleftrightarrow> (if c = CHR ''?'' then x \<noteq> separator else c = x)"

fun glob :: "string \<Rightarrow> string \<Rightarrow> bool" where
  "glob [] name \<longleftrightarrow> name = []"
| "glob (c # p) name \<longleftrightarrow>
     (if c = CHR ''*''
      then (\<exists>i \<le> length name. separator \<notin> set (take i name) \<and> glob p (drop i name))
      else name \<noteq> [] \<and> fits c (hd name) \<and> glob p (tl name))"

definition plain :: "string \<Rightarrow> bool" where
  "plain p \<longleftrightarrow> CHR ''['' \<notin> set p \<and> backslash \<notin> set p"

definition chunk_fits :: "string \<Rightarrow> string \<Rightarrow> bool" where
  "chunk_fits chunk name \<longleftrightarrow>
     length chunk \<le> length name \<and> (\<forall>i < length chunk. fits (chunk ! i) (name ! i))"

lemma chunk_fits_Cons: "chunk_fits (c # chunk) name \<longleftrightarrow> name \<noteq> [] \<and> fits c (hd name) \<and> chunk_fits chunk (tl name)"
  by (cases name) (auto simp: chunk_fits_def less_Suc_eq_0_disj)

lemma plain_simps [simp]:
  "plain []" "plain (c # p) \<longleftrightarrow> c \<noteq> CHR ''['' \<and> c \<noteq> backslash \<and> plain p"
  "plain (p @ q) \<longleftrightarrow> plain p \<and> plain q"
  by (auto simp: plain_def)

lemma matchChunk_plain:
  "plain chunk \<Longrightarrow>
     matchChunk failed chunk s =
       Some (if \<not> failed \<and> chunk_fits chunk s then Some (drop (length chunk) s) else None)"
proof (induction chunk arbitrary: failed s)
  case (Cons c chunk)
  then show ?case
    by (cases s) (auto simp: chunk_fits_Cons fits_def Let_def)
qed (simp add: chunk_fits_def)

lemma scan_from_plain:
  "plain p \<Longrightarrow>
     scan_from False p = (takeWhile (\<lambda>c. c \<noteq> CHR ''*'') p, dropWhile (\<lambda>c. c \<noteq> CHR ''*'') p)"
  by (induction p) auto

lemma glob_chunk:
  "CHR ''*'' \<notin> set chunk \<Longrightarrow> glob (chunk @ rest) name \<longleftrightarrow> chunk_fits chunk name \<and> glob rest (drop (length chunk) name)"
  by (induction chunk arbitrary: name) (auto simp: chunk_fits_Cons drop_Suc, simp add: chunk_fits_def)

lemma glob_starI:
  "i \<le> length name \<Longrightarrow> separator \<notin> set (take i name) \<Longrightarrow> glob p (drop i name) \<Longrightarrow> glob (CHR ''*'' # p) name"
  by auto

lemma glob_two_stars: "glob (CHR ''*'' # CHR ''*'' # p) name \<longleftrightarrow> glob (CHR ''*'' # p) name"
proof
  assume "glob (CHR ''*'' # CHR ''*'' # p) name"
  then obtain i j where ij: "i \<le> length name" "separator \<notin> set (take i name)" "j \<le> length name - i"
    "separator \<notin> set (take j (drop i name))" "glob p (drop j (drop i name))" by auto
  moreover have "take (i + j) name = take i name @ take j (drop i name)" by (simp add: take_add)
  ultimately show "glob (CHR ''*'' # p) name" by (auto simp: add.commute intro!: exI[of _ "i + j"])
next
  assume "glob (CHR ''*'' # p) name"
  then have "glob (CHR ''*'' # p) (drop 0 name)" by simp
  then show "glob (CHR ''*'' # CHR ''*'' # p) name"
    by (rule glob_starI[of 0, rotated 2]) simp_all
qed

lemma glob_skip_stars: "glob (CHR ''*'' # p) name \<longleftrightarrow> glob (CHR ''*'' # dropWhile (\<lambda>c. c = CHR ''*'') p) name"
proof (induction p)
  case (Cons c p)
  then show ?case using glob_two_stars[of p name] by (cases "c = CHR ''*''") auto
qed simp

text \<open>
  The first place is as good as any later one: what lies between the end of the chunk here and its end
  there has no separator, so that the next star can take it.
\<close>

lemma chunk_fits_nth:
  "chunk_fits chunk (drop j name) \<Longrightarrow> j \<le> length name \<Longrightarrow> e < length chunk \<Longrightarrow> fits (chunk ! e) (name ! (j + e))"
  by (auto simp: chunk_fits_def)

lemma chunk_separator_free:
  assumes "separator \<notin> set (take j name)" "i < j" "j \<le> length name"
    and i: "chunk_fits chunk (drop i name)" and j: "chunk_fits chunk (drop j name)"
  shows "separator \<notin> set chunk"
proof
  assume "separator \<in> set chunk"
  then obtain d where "d < length chunk" "chunk ! d = separator" by (auto simp: in_set_conv_nth)
  then show False
  proof (induction d rule: less_induct)
    case (less d)
    have at_i: "name ! (i + d) = separator"
      using i less.prems assms(2,3) by (auto simp: chunk_fits_def fits_def)
    show False
    proof (cases "i + d < j")
      case True
      then have "name ! (i + d) \<in> set (take j name)" using assms(3) by (auto simp: in_set_conv_nth)
      then show False using at_i assms(1) by simp
    next
      case False
      define e where "e = d - (j - i)"
      have e: "e < d" "j + e = i + d" "e < length chunk" using False assms(2) less.prems by (auto simp: e_def)
      have "fits (chunk ! e) (name ! (j + e))" using chunk_fits_nth[OF j assms(3) e(3)] .
      then have "chunk ! e = separator" using at_i e(2) by (auto simp: fits_def split: if_splits)
      then show False using less.IH e by blast
    qed
  qed
qed

lemma first_fit:
  assumes sep: "separator \<notin> set (take j name)" and "i \<le> j" "j \<le> length name"
    and i: "chunk_fits chunk (drop i name)" and j: "chunk_fits chunk (drop j name)"
    and rest: "glob (CHR ''*'' # r) (drop (j + length chunk) name)"
  shows "glob (CHR ''*'' # r) (drop (i + length chunk) name)"
proof (cases "i = j")
  case False
  let ?k = "length chunk" and ?d = "j - i"
  have ij: "i < j" using False assms(2) by simp
  have free: "separator \<notin> set chunk" using chunk_separator_free[OF sep ij assms(3) i j] .
  have fit: "j + ?k \<le> length name" using j assms(3) by (auto simp: chunk_fits_def)
  have "name ! x \<noteq> separator" if "x < j + ?k" for x
  proof (cases "x < j")
    case True
    then show ?thesis using sep assms(3) by (auto simp: in_set_conv_nth)
  next
    case F: False
    then have "fits (chunk ! (x - j)) (name ! x)" "chunk ! (x - j) \<in> set chunk"
      using chunk_fits_nth[OF j assms(3), of "x - j"] that by auto
    then show ?thesis using free by (auto simp: fits_def split: if_splits)
  qed
  then have "separator \<notin> set (take ?d (drop (i + ?k) name))"
    using fit ij by (auto simp: in_set_conv_nth)
  moreover obtain n where n: "n \<le> length name - (j + ?k)" "separator \<notin> set (take n (drop (j + ?k) name))"
    "glob r (drop n (drop (j + ?k) name))" using rest by auto
  moreover have "drop ?d (drop (i + ?k) name) = drop (j + ?k) name" using ij by simp
  then have "take (?d + n) (drop (i + ?k) name) = take ?d (drop (i + ?k) name) @ take n (drop (j + ?k) name)"
    "drop (?d + n) (drop (i + ?k) name) = drop n (drop (j + ?k) name)"
    by (simp_all add: take_add) (metis add.commute drop_drop)+
  moreover have "?d + n \<le> length (drop (i + ?k) name)" using n(1) fit ij by simp
  ultimately show ?thesis unfolding glob.simps by (auto intro!: exI[of _ "?d + n"])
qed (use rest in simp)

section \<open>The search decides the meaning\<close>

definition place_ok :: "string \<Rightarrow> bool \<Rightarrow> string \<Rightarrow> nat \<Rightarrow> bool" where
  "place_ok chunk at_end name i \<longleftrightarrow>
     chunk_fits chunk (drop i name) \<and> (at_end \<longrightarrow> drop (i + length chunk) name = [])"

lemma skip_match_plain:
  "plain chunk \<Longrightarrow>
     (case skip_match chunk at_end name of
        None \<Rightarrow> False
      | Some None \<Rightarrow> \<forall>i. 0 < i \<and> i \<le> length name \<and> separator \<notin> set (take i name) \<longrightarrow> \<not> place_ok chunk at_end name i
      | Some (Some t) \<Rightarrow> \<exists>i. 0 < i \<and> i \<le> length name \<and> separator \<notin> set (take i name) \<and>
          place_ok chunk at_end name i \<and> t = drop (i + length chunk) name \<and>
          (\<forall>j. 0 < j \<and> j < i \<longrightarrow> \<not> place_ok chunk at_end name j))"
proof (induction name)
  case (Cons c name)
  note IH = Cons.IH[OF Cons.prems]
  have shift: "place_ok chunk at_end (c # name) (Suc i) \<longleftrightarrow> place_ok chunk at_end name i" for i
    by (simp add: place_ok_def)
  have now: "matchChunk False chunk name = Some (if chunk_fits chunk name then Some (drop (length chunk) name) else None)"
    using matchChunk_plain[OF Cons.prems] by simp
  consider (sep) "c = separator" | (hit) "c \<noteq> separator" "place_ok chunk at_end name 0"
    | (miss) "c \<noteq> separator" "\<not> place_ok chunk at_end name 0" by blast
  then show ?case
  proof cases
    case sep
    then show ?thesis by (auto simp: take_Cons' split: if_splits)
  next
    case hit
    then have "skip_match chunk at_end (c # name) = Some (Some (drop (length chunk) name))"
      by (auto simp: now place_ok_def)
    moreover have "place_ok chunk at_end (c # name) 1" using hit shift[of 0] by simp
    ultimately show ?thesis using hit by (auto intro!: exI[of _ 1])
  next
    case miss
    then have skip: "skip_match chunk at_end (c # name) = skip_match chunk at_end name"
      by (auto simp: now place_ok_def split: option.splits)
    have first: "\<not> place_ok chunk at_end (c # name) (Suc 0)" using miss shift[of 0] by simp
    have tail: "(\<forall>i. 0 < i \<and> i \<le> length (c # name) \<and> separator \<notin> set (take i (c # name)) \<longrightarrow> \<not> place_ok chunk at_end (c # name) i)"
      if "\<forall>i. 0 < i \<and> i \<le> length name \<and> separator \<notin> set (take i name) \<longrightarrow> \<not> place_ok chunk at_end name i"
    proof (intro allI impI)
      fix i assume "0 < i \<and> i \<le> length (c # name) \<and> separator \<notin> set (take i (c # name))"
      then show "\<not> place_ok chunk at_end (c # name) i" using that first shift by (cases i; cases "i - 1") auto
    qed
    show ?thesis
    proof (cases "skip_match chunk at_end name")
      case None
      then show ?thesis using IH by simp
    next
      case (Some r)
      show ?thesis
      proof (cases r)
        case None
        then show ?thesis using IH Some skip tail by simp
      next
        case (Some t)
        then obtain i where i: "0 < i" "i \<le> length name" "separator \<notin> set (take i name)" "place_ok chunk at_end name i"
          "t = drop (i + length chunk) name" "\<forall>j. 0 < j \<and> j < i \<longrightarrow> \<not> place_ok chunk at_end name j"
          using IH \<open>skip_match chunk at_end name = Some r\<close> by auto
        have "\<not> place_ok chunk at_end (c # name) j" if "0 < j" "j < Suc i" for j
          using that i(6) first shift by (cases j; cases "j - 1") auto
        then show ?thesis using i miss(1) shift[of i] Some \<open>skip_match chunk at_end name = Some r\<close> skip
          by (auto intro!: exI[of _ "Suc i"])
      qed
    qed
  qed
qed simp

lemma scanChunk_plain:
  assumes "plain pattern" "scanChunk pattern = (star, chunk, rest)"
  shows "plain chunk" "plain rest" "CHR ''*'' \<notin> set chunk" "rest = [] \<or> (\<exists>r. rest = CHR ''*'' # r)"
    "glob pattern name \<longleftrightarrow> glob (if star then CHR ''*'' # chunk @ rest else chunk @ rest) name"
    "star \<and> chunk = [] \<longrightarrow> rest = []"
proof -
  let ?p = "dropWhile (\<lambda>c. c = CHR ''*'') pattern"
  have p: "plain ?p" using assms(1) by (auto simp: plain_def dest: set_dropWhileD)
  have c: "chunk = takeWhile (\<lambda>c. c \<noteq> CHR ''*'') ?p" "rest = dropWhile (\<lambda>c. c \<noteq> CHR ''*'') ?p"
    "star = prefix ''*'' pattern"
    using assms(2) scan_from_plain[OF p] by (auto simp: scanChunk_def)
  have split: "?p = chunk @ rest" using c by simp
  show "plain chunk" "plain rest" using p split by auto
  show "CHR ''*'' \<notin> set chunk" using c(1) by (auto dest: set_takeWhileD)
  show "rest = [] \<or> (\<exists>r. rest = CHR ''*'' # r)"
  proof (cases rest)
    case (Cons x r)
    then have ne: "dropWhile (\<lambda>c. c \<noteq> CHR ''*'') ?p \<noteq> []" unfolding c(2)[symmetric] by simp
    have "hd rest = CHR ''*''" using hd_dropWhile[OF ne] unfolding c(2)[symmetric] by simp
    then show ?thesis using Cons by simp
  qed simp
  show "glob pattern name \<longleftrightarrow> glob (if star then CHR ''*'' # chunk @ rest else chunk @ rest) name"
  proof (cases star)
    case True
    then obtain p' where "pattern = CHR ''*'' # p'" using c(3) by (cases pattern) auto
    then show ?thesis using True split glob_skip_stars[of p' name] by simp
  next
    case False
    then have "?p = pattern" using c(3) by (cases pattern) auto
    then show ?thesis using False split by simp
  qed
  show "star \<and> chunk = [] \<longrightarrow> rest = []"
  proof
    assume e: "star \<and> chunk = []"
    show "rest = []"
    proof (cases rest)
      case (Cons x r)
      then have ne: "?p \<noteq> []" unfolding split by simp
      have "takeWhile P xs \<noteq> []" if "xs \<noteq> []" "P (hd xs)" for P and xs :: string
        using that by (cases xs) auto
      from this[of ?p "\<lambda>c. c \<noteq> CHR ''*''"] have "chunk \<noteq> []"
        using ne hd_dropWhile[OF ne] unfolding c(1) by simp
      then show ?thesis using e by simp
    qed simp
  qed
qed

lemma check_rest_plain: "plain pattern \<Longrightarrow> check_rest pattern = Some False"
proof (induction pattern rule: check_rest.induct)
  case (1 pattern)
  obtain star chunk rest where s: "scanChunk pattern = (star, chunk, rest)" by (metis prod_cases3)
  note facts = scanChunk_plain[OF 1(2) s]
  show ?case
    using 1(1)[OF _ s[symmetric] refl] facts(1,2) s
    by (subst check_rest.simps) (auto simp: matchChunk_plain split: option.splits)
qed

lemma glob_single_star: "glob ''*'' name \<longleftrightarrow> separator \<notin> set name"
  by (auto intro!: exI[of _ "length name"])

lemma glob_star_chunk:
  assumes "CHR ''*'' \<notin> set chunk"
  shows "glob (CHR ''*'' # chunk @ rest) name \<longleftrightarrow>
    (\<exists>i \<le> length name. separator \<notin> set (take i name) \<and> chunk_fits chunk (drop i name) \<and>
       glob rest (drop (i + length chunk) name))"
  using glob_chunk[OF assms, of rest] by (auto simp: add.commute)

text \<open>The first place decides, whatever the star before the chunk takes.\<close>

lemma star_first_place:
  assumes chunk: "CHR ''*'' \<notin> set chunk" "rest = [] \<or> (\<exists>r. rest = CHR ''*'' # r)"
    and i: "i \<le> length name" "separator \<notin> set (take i name)" "place_ok chunk (rest = []) name i"
    and first: "\<forall>j<i. \<not> place_ok chunk (rest = []) name j"
  shows "glob (CHR ''*'' # chunk @ rest) name \<longleftrightarrow> glob rest (drop (i + length chunk) name)"
proof (cases rest)
  case Nil
  then show ?thesis using i unfolding glob_star_chunk[OF chunk(1)] by (auto simp: place_ok_def)
next
  case (Cons x r)
  then have r: "rest = CHR ''*'' # r" using chunk(2) by simp
  have "glob rest (drop (i + length chunk) name)"
    if "j \<le> length name" "separator \<notin> set (take j name)" "chunk_fits chunk (drop j name)"
      "glob rest (drop (j + length chunk) name)" for j
  proof -
    have "i \<le> j" using first that(3) r by (force simp: place_ok_def not_less[symmetric])
    then show ?thesis
      using first_fit[OF that(2) _ that(1) _ that(3)] that(4) i(3) unfolding r by (auto simp: place_ok_def)
  qed
  then show ?thesis unfolding glob_star_chunk[OF chunk(1)] using i by (auto simp: place_ok_def)
qed

lemma star_no_place:
  assumes "CHR ''*'' \<notin> set chunk" "rest = [] \<or> (\<exists>r. rest = CHR ''*'' # r)"
    and "\<forall>i \<le> length name. separator \<notin> set (take i name) \<longrightarrow> \<not> place_ok chunk (rest = []) name i"
  shows "\<not> glob (CHR ''*'' # chunk @ rest) name"
  using assms(2,3) unfolding glob_star_chunk[OF assms(1)] by (fastforce simp: place_ok_def)

lemma filepath_Match_step:
  assumes "plain pattern" "pattern \<noteq> []" "scanChunk pattern = (star, chunk, rest)"
  shows "filepath_Match pattern name =
    (if star \<and> chunk = [] then Some (separator \<notin> set name)
     else if place_ok chunk (rest = []) name 0 then filepath_Match rest (drop (length chunk) name)
     else if star
     then (case skip_match chunk (rest = []) name of
             None \<Rightarrow> None | Some None \<Rightarrow> Some False | Some (Some t) \<Rightarrow> filepath_Match rest t)
     else Some False)"
  using assms(2,3) matchChunk_plain[OF scanChunk_plain(1)[OF assms(1,3)], of False name]
    check_rest_plain[OF scanChunk_plain(2)[OF assms(1,3)]]
  by (subst filepath_Match.simps) (auto simp: place_ok_def split: option.splits)

lemma skip_result:
  assumes "plain chunk" "\<not> place_ok chunk at_end name 0"
  obtains "skip_match chunk at_end name = Some None"
    "\<forall>i \<le> length name. separator \<notin> set (take i name) \<longrightarrow> \<not> place_ok chunk at_end name i"
  | i where "skip_match chunk at_end name = Some (Some (drop (i + length chunk) name))" "i \<le> length name"
    "separator \<notin> set (take i name)" "place_ok chunk at_end name i" "\<forall>j<i. \<not> place_ok chunk at_end name j"
proof (cases "skip_match chunk at_end name")
  case None
  then show ?thesis using skip_match_plain[OF assms(1), where at_end = at_end and name = name] by simp
next
  case (Some q)
  show ?thesis
  proof (cases q)
    case None
    then have "\<not> place_ok chunk at_end name i" if "i \<le> length name" "separator \<notin> set (take i name)" for i
      using skip_match_plain[OF assms(1), where at_end = at_end and name = name] Some assms(2) that by (cases i) auto
    then show ?thesis using that(1) Some None by simp
  next
    case t: (Some t)
    then obtain i where i: "i \<le> length name" "separator \<notin> set (take i name)" "place_ok chunk at_end name i"
      "t = drop (i + length chunk) name" "\<forall>j. 0 < j \<and> j < i \<longrightarrow> \<not> place_ok chunk at_end name j"
      using skip_match_plain[OF assms(1), where at_end = at_end and name = name] Some by auto
    have "\<not> place_ok chunk at_end name j" if "j < i" for j using i(5) that assms(2) by (cases j) auto
    then show ?thesis using that(2)[of i] Some t i by simp
  qed
qed

lemma filepath_Match_glob: "plain pattern \<Longrightarrow> filepath_Match pattern name = Some (glob pattern name)"
proof (induction "length pattern" arbitrary: pattern name rule: less_induct)
  case less
  show ?case
  proof (cases "pattern = []")
    case False
    obtain star chunk rest where s: "scanChunk pattern = (star, chunk, rest)" by (metis prod_cases3)
    note facts = scanChunk_plain[OF less.prems s]
    note step = filepath_Match_step[OF less.prems False s, of name]
    have IH: "filepath_Match rest t = Some (glob rest t)" for t
      using less.hyps[OF scanChunk_shorter[OF False s] facts(2)] .
    show ?thesis
    proof (cases star)
      case no_star: False
      then have "glob pattern name \<longleftrightarrow> chunk_fits chunk name \<and> glob rest (drop (length chunk) name)"
        using facts(5) glob_chunk[OF facts(3)] by simp
      then show ?thesis using step no_star IH by (cases rest) (auto simp: place_ok_def)
    next
      case True
      have meaning: "glob pattern name \<longleftrightarrow> glob (CHR ''*'' # chunk @ rest) name" using facts(5) True by simp
      consider (all) "chunk = []" | (hit) "chunk \<noteq> []" "place_ok chunk (rest = []) name 0"
        | (miss) "chunk \<noteq> []" "\<not> place_ok chunk (rest = []) name 0" by blast
      then show ?thesis
      proof cases
        case all
        then show ?thesis using step True facts(6) meaning glob_single_star by simp
      next
        case hit
        then show ?thesis using step IH meaning star_first_place[OF facts(3,4), of 0 name] by simp
      next
        case miss
        show ?thesis
          by (rule skip_result[OF facts(1) miss(2)])
             (use step True miss IH meaning star_no_place[OF facts(3,4)] star_first_place[OF facts(3,4)] in simp_all)
      qed
    qed
  qed (simp add: filepath_Match.simps)
qed

end
