(* ===== verification/Pattern_Matcher.thy ===== *)
theory Pattern_Matcher
  imports Critbit Glob
begin

text \<open>
  The matcher behind name rules (\<^verbatim>\<open>dnscrypt-proxy/pattern_matcher.go\<close>): rules are sorted by their shape
  into two tries, a table and two lists, and a name is looked up in them in a fixed order. The theorems
  compare it with the rules themselves: a name is matched exactly if one of the accepted rules matches
  it, and among the domains listed the most specific one gives the value.
\<close>

section \<open>The matcher\<close>

datatype PatternType =
    PatternTypePrefix | PatternTypeSuffix | PatternTypeSubstring | PatternTypePattern | PatternTypeExact

record 'v PatternMatcher =
  pm_prefixes :: "'v Trie"
  pm_suffixes :: "'v Trie"
  pm_substrings :: "string list"
  pm_patterns :: "string list"
  pm_exact :: "string \<rightharpoonup> 'v"
  pm_indirectVals :: "string \<rightharpoonup> 'v"

definition NewPatternMatcher :: "'v PatternMatcher" where
  "NewPatternMatcher =
     \<lparr>pm_prefixes = NewTrie, pm_suffixes = NewTrie, pm_substrings = [], pm_patterns = [],
      pm_exact = Map.empty, pm_indirectVals = Map.empty\<rparr>"

definition isGlobCandidate :: "string \<Rightarrow> bool" where
  "isGlobCandidate str =
     list_ex (\<lambda>(i, c). c = CHR ''?'' \<or> c = CHR ''['' \<or> c = CHR ''*'' \<and> i \<noteq> 0 \<and> i \<noteq> length str - 1)
       (zip [0..<length str] str)"

text \<open>The shape of a rule and what remains of its text; \<open>None\<close> is a syntax error.\<close>

definition pattern_shape :: "string \<Rightarrow> (PatternType \<times> string) option" where
  "pattern_shape pattern =
     (let leadingStar = prefix ''*'' pattern; trailingStar = suffix ''*'' pattern;
          exact = prefix ''='' pattern
      in if isGlobCandidate pattern
         then if length pattern < 2 \<or> filepath_Match pattern ''example.com'' = None then None
              else Some (PatternTypePattern, pattern)
         else if leadingStar \<and> trailingStar
         then if length pattern < 3 then None
              else Some (PatternTypeSubstring, go_slice pattern 1 (length pattern - 1))
         else if trailingStar
         then if length pattern < 2 then None
              else Some (PatternTypePrefix, take (length pattern - 1) pattern)
         else if exact
         then if length pattern < 2 then None else Some (PatternTypeExact, tl pattern)
         else let p = TrimPrefix (if leadingStar then tl pattern else pattern) ''.''
              in if length p = 0 then None else Some (PatternTypeSuffix, p))"

definition suffix_key :: "string \<Rightarrow> bytes" where
  "suffix_key p = str_bytes (StringReverse p @ ''.'')"

definition add_shaped :: "PatternType \<Rightarrow> string \<Rightarrow> 'v \<Rightarrow> 'v PatternMatcher \<Rightarrow> 'v PatternMatcher" where
  "add_shaped t p v pm =
     (case t of
        PatternTypeSubstring \<Rightarrow>
          pm\<lparr>pm_substrings := pm_substrings pm @ [p], pm_indirectVals := (pm_indirectVals pm)(p \<mapsto> v)\<rparr>
      | PatternTypePattern \<Rightarrow>
          pm\<lparr>pm_patterns := pm_patterns pm @ [p], pm_indirectVals := (pm_indirectVals pm)(p \<mapsto> v)\<rparr>
      | PatternTypePrefix \<Rightarrow> pm\<lparr>pm_prefixes := Trie_Insert (str_bytes p) v (pm_prefixes pm)\<rparr>
      | PatternTypeSuffix \<Rightarrow> pm\<lparr>pm_suffixes := Trie_Insert (suffix_key p) v (pm_suffixes pm)\<rparr>
      | PatternTypeExact \<Rightarrow> pm\<lparr>pm_exact := (pm_exact pm)(p \<mapsto> v)\<rparr>)"

definition Add :: "string \<Rightarrow> 'v \<Rightarrow> 'v PatternMatcher \<Rightarrow> 'v PatternMatcher option" where
  "Add pattern v pm =
     (case pattern_shape pattern of
        None \<Rightarrow> None
      | Some (t, p) \<Rightarrow> Some (add_shaped t (ToLower p) v pm))"

definition bytes_str :: "bytes \<Rightarrow> string" where
  "bytes_str bs = map (\<lambda>b. char_of (unat b)) bs"

text \<open>The reason and the value of the rule that matches; \<open>None\<close> when no rule does.\<close>

definition Eval :: "'v PatternMatcher \<Rightarrow> string \<Rightarrow> (string \<times> 'v option) option" where
  "Eval pm qName =
     (if length qName < 2 then None
      else case pm_exact pm qName of
             Some v \<Rightarrow> Some (qName, Some v)
           | None \<Rightarrow>
               (case LongestPrefix (suffix_key qName) (pm_suffixes pm) of
                  Some (m, v) \<Rightarrow> Some (''*.'' @ StringReverse (bytes_str (take (length m - 1) m)), Some v)
                | None \<Rightarrow>
                    (case LongestPrefix (str_bytes qName) (pm_prefixes pm) of
                       Some (m, v) \<Rightarrow> Some (bytes_str m @ ''*'', Some v)
                     | None \<Rightarrow>
                         (case find (\<lambda>sub. sublist sub qName) (pm_substrings pm) of
                            Some sub \<Rightarrow> Some (''*'' @ sub @ ''*'', pm_indirectVals pm sub)
                          | None \<Rightarrow>
                              (case find (\<lambda>p. filepath_Match p qName = Some True) (pm_patterns pm) of
                                 Some p \<Rightarrow> Some (p, pm_indirectVals pm p)
                               | None \<Rightarrow> None)))))"

section \<open>Rules and what they mean\<close>

definition rule_matches :: "PatternType \<Rightarrow> string \<Rightarrow> string \<Rightarrow> bool" where
  "rule_matches t p q =
     (case t of
        PatternTypeExact \<Rightarrow> q = p
      | PatternTypeSuffix \<Rightarrow> q = p \<or> suffix (CHR ''.'' # p) q
      | PatternTypePrefix \<Rightarrow> prefix p q
      | PatternTypeSubstring \<Rightarrow> sublist p q
      | PatternTypePattern \<Rightarrow> filepath_Match p q = Some True)"

text \<open>The rules of a list that are accepted, by shape and in lower case; the others are skipped.\<close>

definition accepted_rule :: "string \<times> 'v \<Rightarrow> (PatternType \<times> string \<times> 'v) list" where
  "accepted_rule r =
     (case pattern_shape (fst r) of None \<Rightarrow> [] | Some (t, p) \<Rightarrow> [(t, ToLower p, snd r)])"

definition accepted :: "(string \<times> 'v) list \<Rightarrow> (PatternType \<times> string \<times> 'v) list" where
  "accepted rules = concat (map accepted_rule rules)"

primrec load_rules :: "(string \<times> 'v) list \<Rightarrow> 'v PatternMatcher \<Rightarrow> 'v PatternMatcher" where
  "load_rules [] pm = pm"
| "load_rules (r # rs) pm =
     load_rules rs (case Add (fst r) (snd r) pm of None \<Rightarrow> pm | Some pm' \<Rightarrow> pm')"

definition shaped :: "PatternType \<Rightarrow> (PatternType \<times> string \<times> 'v) list \<Rightarrow> (string \<times> 'v) list" where
  "shaped t rs = map snd (filter (\<lambda>r. fst r = t) rs)"

definition indirect :: "(PatternType \<times> string \<times> 'v) list \<Rightarrow> (string \<times> 'v) list" where
  "indirect rs = map snd (filter (\<lambda>r. fst r \<in> {PatternTypeSubstring, PatternTypePattern}) rs)"

text \<open>A matcher represents a list of rules.\<close>

definition represents :: "'v PatternMatcher \<Rightarrow> (PatternType \<times> string \<times> 'v) list \<Rightarrow> bool" where
  "represents pm rs \<longleftrightarrow>
     Trie_ok (pm_prefixes pm) \<and> Trie_ok (pm_suffixes pm) \<and>
     Trie_lookup (pm_prefixes pm) = map_of (map (apfst str_bytes) (shaped PatternTypePrefix rs)) \<and>
     Trie_lookup (pm_suffixes pm) = map_of (map (apfst suffix_key) (shaped PatternTypeSuffix rs)) \<and>
     pm_substrings pm = map fst (shaped PatternTypeSubstring rs) \<and>
     pm_patterns pm = map fst (shaped PatternTypePattern rs) \<and>
     pm_exact pm = map_of (rev (shaped PatternTypeExact rs)) \<and>
     pm_indirectVals pm = map_of (rev (indirect rs))"

lemma shaped_simps [simp]:
  "shaped t [] = []" "shaped t (rs @ ss) = shaped t rs @ shaped t ss"
  "shaped t ((t', e) # rs) = (if t' = t then e # shaped t rs else shaped t rs)"
  by (simp_all add: shaped_def)

lemma indirect_simps [simp]:
  "indirect [] = []" "indirect (rs @ ss) = indirect rs @ indirect ss"
  "indirect ((t, e) # rs) = (if t \<in> {PatternTypeSubstring, PatternTypePattern} then e # indirect rs else indirect rs)"
  by (simp_all add: indirect_def)

lemma in_shaped: "(p, v) \<in> set (shaped t rs) \<longleftrightarrow> (t, p, v) \<in> set rs"
  by (force simp: shaped_def)

lemma represents_new: "represents NewPatternMatcher []"
  using critbit.inv_empty critbit.lookup_empty by (simp add: represents_def NewPatternMatcher_def)

lemma represents_add: "represents pm rs \<Longrightarrow> represents (add_shaped t p v pm) (rs @ [(t, p, v)])"
  by (cases t) (auto simp: represents_def add_shaped_def critbit.inv_insert critbit.lookup_insert)

lemma represents_load: "represents pm rs \<Longrightarrow> represents (load_rules rules pm) (rs @ accepted rules)"
proof (induction rules arbitrary: pm rs)
  case (Cons r rules)
  show ?case
  proof (cases "pattern_shape (fst r)")
    case None
    then show ?thesis using Cons by (simp add: Add_def accepted_def accepted_rule_def)
  next
    case (Some tp)
    obtain t p where "tp = (t, p)" by (cases tp)
    then show ?thesis
      using Some Cons.IH[OF represents_add[OF Cons.prems, of t "ToLower p" "snd r"]]
      by (simp add: Add_def accepted_def accepted_rule_def)
  qed
qed (simp add: accepted_def)

section \<open>Keys of the tries\<close>

lemma unat_of_char: "unat (of_char c :: byte) = of_char c"
proof -
  have "(of_char c :: byte) = word_of_nat (of_char c)" by (simp add: of_char_def)
  then have "unat (of_char c :: byte) = of_char c mod 256" by (metis unat_byte_of_nat)
  also have "\<dots> = of_char c" by simp
  finally show ?thesis .
qed

lemma of_char_byte_inj: "(of_char c :: byte) = of_char d \<longleftrightarrow> c = d"
  by (metis unat_of_char of_char_eq_iff)

lemma str_bytes_inj: "str_bytes a = str_bytes b \<longleftrightarrow> a = b"
  unfolding str_bytes_def by (intro inj_map_eq_map injI) (simp add: of_char_byte_inj)

lemma bytes_str_bytes [simp]: "bytes_str (str_bytes s) = s"
  by (simp add: bytes_str_def str_bytes_def comp_def unat_of_char)

lemma prefix_str_bytes: "prefix (str_bytes a) (str_bytes b) \<longleftrightarrow> prefix a b"
proof
  assume "prefix (str_bytes a) (str_bytes b)"
  then have "str_bytes a = take (length a) (str_bytes b)" by (auto simp: prefix_def)
  then have "str_bytes a = str_bytes (take (length a) b)" by (simp add: str_bytes_def take_map)
  then show "prefix a b" using str_bytes_inj by (metis take_is_prefix)
qed (auto simp: prefix_def str_bytes_def)

lemma prefix_suffix_key: "prefix (suffix_key p) (suffix_key q) \<longleftrightarrow> rule_matches PatternTypeSuffix p q"
proof -
  have "prefix (suffix_key p) (suffix_key q) \<longleftrightarrow> suffix (CHR ''.'' # p) (CHR ''.'' # q)"
    by (simp add: suffix_key_def prefix_str_bytes StringReverse_def suffix_to_prefix)
  then show ?thesis by (auto simp: rule_matches_def suffix_Cons)
qed

lemma suffix_key_inj: "suffix_key p = suffix_key q \<longleftrightarrow> p = q"
  by (simp add: suffix_key_def str_bytes_inj StringReverse_def)

lemma suffix_reason: "''*.'' @ StringReverse (bytes_str (take (length (suffix_key p) - 1) (suffix_key p))) = ''*.'' @ p"
proof -
  have "take (length (suffix_key p) - 1) (suffix_key p) = str_bytes (rev p)"
    by (simp add: suffix_key_def StringReverse_def str_bytes_def)
  then show ?thesis by (simp add: StringReverse_def)
qed

section \<open>The matcher against the rules\<close>

lemma dom_keys: "dom (map_of (map (apfst f) xs)) = f ` fst ` set xs"
  by (force simp: dom_map_of_conv_image_fst)

lemma find_None: "find P xs = None \<longleftrightarrow> (\<forall>x \<in> set xs. \<not> P x)"
  by (auto simp: find_None_iff)

text \<open>No rule of a shape matches.\<close>

definition none_of :: "PatternType \<Rightarrow> (PatternType \<times> string \<times> 'v) list \<Rightarrow> string \<Rightarrow> bool" where
  "none_of t rs q \<longleftrightarrow> (\<forall>e \<in> set (shaped t rs). \<not> rule_matches t (fst e) q)"

lemma none_of_all: "(\<forall>t. none_of t rs q) \<longleftrightarrow> (\<forall>r \<in> set rs. \<not> rule_matches (fst r) (fst (snd r)) q)"
  by (force simp: none_of_def shaped_def)

lemma none_of_parts:
  assumes "represents pm rs"
  shows "pm_exact pm q = None \<longleftrightarrow> none_of PatternTypeExact rs q"
    and "LongestPrefix (suffix_key q) (pm_suffixes pm) = None \<longleftrightarrow> none_of PatternTypeSuffix rs q"
    and "LongestPrefix (str_bytes q) (pm_prefixes pm) = None \<longleftrightarrow> none_of PatternTypePrefix rs q"
    and "find (\<lambda>sub. sublist sub q) (pm_substrings pm) = None \<longleftrightarrow> none_of PatternTypeSubstring rs q"
    and "find (\<lambda>p. filepath_Match p q = Some True) (pm_patterns pm) = None \<longleftrightarrow> none_of PatternTypePattern rs q"
proof -
  note r = assms[unfolded represents_def]
  show "pm_exact pm q = None \<longleftrightarrow> none_of PatternTypeExact rs q"
    using r by (auto simp: map_of_eq_None_iff none_of_def rule_matches_def image_iff)
  show "LongestPrefix (suffix_key q) (pm_suffixes pm) = None \<longleftrightarrow> none_of PatternTypeSuffix rs q"
    using r critbit.longest_none_iff[of "pm_suffixes pm" "suffix_key q"]
    by (simp add: dom_keys prefix_suffix_key none_of_def)
  show "LongestPrefix (str_bytes q) (pm_prefixes pm) = None \<longleftrightarrow> none_of PatternTypePrefix rs q"
    using r critbit.longest_none_iff[of "pm_prefixes pm" "str_bytes q"]
    by (simp add: dom_keys prefix_str_bytes none_of_def rule_matches_def)
  show "find (\<lambda>sub. sublist sub q) (pm_substrings pm) = None \<longleftrightarrow> none_of PatternTypeSubstring rs q"
    "find (\<lambda>p. filepath_Match p q = Some True) (pm_patterns pm) = None \<longleftrightarrow> none_of PatternTypePattern rs q"
    using r by (simp_all add: find_None none_of_def rule_matches_def)
qed

lemma Eval_None:
  assumes "represents pm rs" "2 \<le> length q"
  shows "Eval pm q = None \<longleftrightarrow> (\<forall>r \<in> set rs. \<not> rule_matches (fst r) (fst (snd r)) q)"
proof -
  have "Eval pm q = None \<longleftrightarrow>
      pm_exact pm q = None \<and> LongestPrefix (suffix_key q) (pm_suffixes pm) = None \<and>
      LongestPrefix (str_bytes q) (pm_prefixes pm) = None \<and> find (\<lambda>sub. sublist sub q) (pm_substrings pm) = None \<and>
      find (\<lambda>p. filepath_Match p q = Some True) (pm_patterns pm) = None"
    using assms(2) by (auto simp: Eval_def split: option.splits)
  also have "\<dots> \<longleftrightarrow> (\<forall>t. none_of t rs q)"
    unfolding none_of_parts[OF assms(1)] by (metis PatternType.exhaust)
  finally show ?thesis unfolding none_of_all .
qed

text \<open>The longest listed domain that the name lies in, with the value of its first rule.\<close>

lemma Eval_suffix:
  assumes "represents pm rs" "2 \<le> length q" "none_of PatternTypeExact rs q" "\<not> none_of PatternTypeSuffix rs q"
  shows "\<exists>p v. Eval pm q = Some (''*.'' @ p, Some v) \<and> map_of (shaped PatternTypeSuffix rs) p = Some v \<and>
    rule_matches PatternTypeSuffix p q \<and>
    (\<forall>e \<in> set (shaped PatternTypeSuffix rs). rule_matches PatternTypeSuffix (fst e) q \<longrightarrow> length (fst e) \<le> length p)"
proof -
  note r = assms(1)[unfolded represents_def]
  have ok: "Trie_ok (pm_suffixes pm)" using r by simp
  obtain m v where l: "LongestPrefix (suffix_key q) (pm_suffixes pm) = Some (m, v)"
    using assms(4) none_of_parts(2)[OF assms(1), of q] by (cases "LongestPrefix (suffix_key q) (pm_suffixes pm)") auto
  note s = critbit.longest_Some[OF ok l]
  then obtain p where p: "m = suffix_key p" "(p, v) \<in> set (shaped PatternTypeSuffix rs)"
    using r by (auto dest!: map_of_SomeD)
  have "map_of (map (apfst suffix_key) xs) (suffix_key p) = map_of xs p" for xs :: "(string \<times> 'a) list"
    by (induction xs) (auto simp: suffix_key_inj)
  then have "map_of (shaped PatternTypeSuffix rs) p = Some v" using s p r by simp
  moreover have "rule_matches PatternTypeSuffix p q" using s p prefix_suffix_key by simp
  moreover have "length (fst e) \<le> length p"
    if "e \<in> set (shaped PatternTypeSuffix rs)" "rule_matches PatternTypeSuffix (fst e) q" for e
  proof -
    have "suffix_key (fst e) \<in> dom (Trie_lookup (pm_suffixes pm))" using r that(1) by (simp add: dom_keys)
    then have "length (suffix_key (fst e)) \<le> length m" using s that(2) prefix_suffix_key by blast
    then show ?thesis using p(1) by (simp add: suffix_key_def StringReverse_def)
  qed
  moreover have "Eval pm q = Some (''*.'' @ p, Some v)"
    using assms(2) none_of_parts(1)[OF assms(1), of q] assms(3) l p(1) suffix_reason[of p] by (simp add: Eval_def)
  ultimately show ?thesis by blast
qed

section \<open>Properties\<close>

text \<open>
  C3. A matcher that was filled from a list of rules, skipping those with a syntax error, matches a name
  of at least two characters exactly if one of the accepted rules does: an exact rule the same name, a
  domain rule the domain and the names below it, a prefix and a substring rule what their names say, and
  a rule with wildcards inside what \<^verbatim>\<open>filepath.Match\<close> accepts. Shorter names are never matched.
\<close>

theorem matcher_decides:
  "Eval (load_rules rules NewPatternMatcher) q \<noteq> None \<longleftrightarrow>
     2 \<le> length q \<and> (\<exists>r \<in> set (accepted rules). rule_matches (fst r) (fst (snd r)) q)"
proof (cases "2 \<le> length q")
  case True
  have "represents (load_rules rules NewPatternMatcher) (accepted rules)"
    using represents_load[OF represents_new, of rules] by simp
  from Eval_None[OF this True] True show ?thesis by auto
qed (simp add: Eval_def)

text \<open>
  When no exact rule applies and the name lies in a listed domain, the most specific of these domains
  gives the reason and the value, and among several rules for it the first one.
\<close>

theorem most_specific_domain:
  assumes "2 \<le> length q" "none_of PatternTypeExact (accepted rules) q"
    and "(PatternTypeSuffix, d, w) \<in> set (accepted rules)" "rule_matches PatternTypeSuffix d q"
  shows "\<exists>p v. Eval (load_rules rules NewPatternMatcher) q = Some (''*.'' @ p, Some v) \<and>
    map_of (shaped PatternTypeSuffix (accepted rules)) p = Some v \<and> rule_matches PatternTypeSuffix p q \<and>
    length d \<le> length p"
proof -
  have rep: "represents (load_rules rules NewPatternMatcher) (accepted rules)"
    using represents_load[OF represents_new, of rules] by simp
  have e: "(d, w) \<in> set (shaped PatternTypeSuffix (accepted rules))" using assms(3) by (simp add: in_shaped)
  then have "\<not> none_of PatternTypeSuffix (accepted rules) q" 
    using assms(4) by (force simp: none_of_def)
  from Eval_suffix[OF rep assms(1,2) this] e assms(4) show ?thesis by fastforce
qed

definition example_rules :: "(string \<times> nat) list" where
  "example_rules = [(''example.com'', 1), (''*.Ads.example.com'', 2), (''ads.example.com'', 3), (''track*'', 4)]"

lemma example_accepted:
  "accepted example_rules =
     [(PatternTypeSuffix, ''example.com'', 1), (PatternTypeSuffix, ''ads.example.com'', 2),
      (PatternTypeSuffix, ''ads.example.com'', 3), (PatternTypePrefix, ''track'', 4)]"
  by code_simp

theorem most_specific_domain_witness:
  "\<exists>p v. Eval (load_rules example_rules NewPatternMatcher) ''www.ads.example.com'' = Some (''*.'' @ p, Some v) \<and>
     map_of (shaped PatternTypeSuffix (accepted example_rules)) p = Some v \<and>
     rule_matches PatternTypeSuffix p ''www.ads.example.com'' \<and> length ''example.com'' \<le> length p"
  by (rule most_specific_domain[where d = "''example.com''" and w = 1])
     (simp_all add: example_accepted none_of_def rule_matches_def suffix_def)

end
