(* ===== verification/Time_Ranges.thy ===== *)
theory Time_Ranges
  imports Go_Strings
begin

text \<open>
  Weekly schedules of rules (\<^verbatim>\<open>dnscrypt-proxy/time_ranges.go\<close>): parsing of times of day and ranges, the test
  whether the current time is covered, and the parsing of rules with a schedule
  (\<^verbatim>\<open>ParseTimeBasedRule\<close> of \<^verbatim>\<open>common.go\<close>). The local time is an input: the day of the week, from 0 for
  Sunday, the hour and the minute.
\<close>

section \<open>Schedules\<close>

record TimeRange =
  tr_after :: int
  tr_before :: int

text \<open>One list of ranges per day, from Sunday to Saturday.\<close>

type_synonym WeeklyRanges = "TimeRange list list"

record TimeRangeStr =
  trs_After :: string
  trs_Before :: string

record WeeklyRangesStr =
  wrs_Sun :: "TimeRangeStr list"
  wrs_Mon :: "TimeRangeStr list"
  wrs_Tue :: "TimeRangeStr list"
  wrs_Wed :: "TimeRangeStr list"
  wrs_Thu :: "TimeRangeStr list"
  wrs_Fri :: "TimeRangeStr list"
  wrs_Sat :: "TimeRangeStr list"

definition daySecsFromStr :: "string \<Rightarrow> int option" where
  "daySecsFromStr str =
     (case Split str (CHR '':'') of
        [p0, p1] \<Rightarrow>
          (case Atoi p0 of
             None \<Rightarrow> None
           | Some hours \<Rightarrow>
               if hours < 0 \<or> hours > 23 then None
               else (case Atoi p1 of
                       None \<Rightarrow> None
                     | Some minutes \<Rightarrow>
                         if minutes < 0 \<or> minutes > 59 then None
                         else Some ((hours * 60 + minutes) * 60)))
      | _ \<Rightarrow> None)"

definition make_range :: "int \<Rightarrow> int \<Rightarrow> TimeRange" where
  "make_range after before =
     (if after = before then \<lparr>tr_after = -1, tr_before = 86402\<rparr>
      else \<lparr>tr_after = after, tr_before = before\<rparr>)"

primrec parseTimeRanges :: "TimeRangeStr list \<Rightarrow> TimeRange list option" where
  "parseTimeRanges [] = Some []"
| "parseTimeRanges (r # rs) =
     (case daySecsFromStr (trs_After r) of
        None \<Rightarrow> None
      | Some after \<Rightarrow>
          (case daySecsFromStr (trs_Before r) of
             None \<Rightarrow> None
           | Some before \<Rightarrow> map_option ((#) (make_range after before)) (parseTimeRanges rs)))"

definition week_days :: "WeeklyRangesStr \<Rightarrow> TimeRangeStr list list" where
  "week_days w = [wrs_Sun w, wrs_Mon w, wrs_Tue w, wrs_Wed w, wrs_Thu w, wrs_Fri w, wrs_Sat w]"

primrec parse_days :: "TimeRangeStr list list \<Rightarrow> WeeklyRanges option" where
  "parse_days [] = Some []"
| "parse_days (d # ds) =
     (case parseTimeRanges d of
        None \<Rightarrow> None
      | Some timeRanges \<Rightarrow> map_option ((#) timeRanges) (parse_days ds))"

definition parseWeeklyRanges :: "WeeklyRangesStr \<Rightarrow> WeeklyRanges option" where
  "parseWeeklyRanges w = parse_days (week_days w)"

primrec ParseAllWeeklyRanges :: "(string \<times> WeeklyRangesStr) list \<Rightarrow> (string \<times> WeeklyRanges) list option" where
  "ParseAllWeeklyRanges [] = Some []"
| "ParseAllWeeklyRanges (e # es) =
     (case parseWeeklyRanges (snd e) of
        None \<Rightarrow> None
      | Some weeklyRanges \<Rightarrow> map_option ((#) (fst e, weeklyRanges)) (ParseAllWeeklyRanges es))"

definition range_matches :: "int \<Rightarrow> TimeRange \<Rightarrow> bool" where
  "range_matches nowX r \<longleftrightarrow>
     (if tr_after r > tr_before r then nowX \<ge> tr_after r \<or> nowX \<le> tr_before r
      else nowX \<ge> tr_after r \<and> nowX \<le> tr_before r)"

definition Match :: "WeeklyRanges \<Rightarrow> nat \<Rightarrow> int \<Rightarrow> int \<Rightarrow> bool" where
  "Match weeklyRanges day hour mins = list_ex (range_matches ((hour * 60 + mins) * 60)) (weeklyRanges ! day)"

text \<open>
  A rule line with an optional schedule after an \<^verbatim>\<open>@\<close>. The table of schedules is an association list;
  the errors are the unexpected second \<^verbatim>\<open>@\<close> and the unknown schedule.
\<close>

datatype rule_error = UnexpectedAt | TimeRangeNotFound | SyntaxError | SuspiciousIP | EmptyRule | InnerWildcard

definition ParseTimeBasedRule ::
  "string \<Rightarrow> (string \<times> WeeklyRanges) list \<Rightarrow> rule_error + string \<times> WeeklyRanges option" where
  "ParseTimeBasedRule line allWeeklyRanges =
     (let schedule = (\<lambda>rulePart timeRangeName.
            if length timeRangeName > 0
            then (case map_of allWeeklyRanges timeRangeName of
                    Some weeklyRanges \<Rightarrow> Inr (rulePart, Some weeklyRanges)
                  | None \<Rightarrow> Inl TimeRangeNotFound)
            else Inr (rulePart, None))
      in case Split line (CHR ''@'') of
           [a, b] \<Rightarrow> schedule (TrimSpace a) (TrimSpace b)
         | _ # _ # _ # _ \<Rightarrow> Inl UnexpectedAt
         | _ \<Rightarrow> schedule line [])"

section \<open>Well-formed schedules\<close>

definition range_ok :: "TimeRange \<Rightarrow> bool" where
  "range_ok r \<longleftrightarrow>
     tr_after r = -1 \<and> tr_before r = 86402 \<or>
     tr_after r \<noteq> tr_before r \<and> tr_after r \<in> {0..86340} \<and> tr_before r \<in> {0..86340} \<and>
     60 dvd tr_after r \<and> 60 dvd tr_before r"

definition week_ok :: "WeeklyRanges \<Rightarrow> bool" where
  "week_ok w \<longleftrightarrow> length w = 7 \<and> list_all (list_all range_ok) w"

lemma daySecs_range: "daySecsFromStr s = Some n \<Longrightarrow> n \<in> {0..86340} \<and> 60 dvd n"
  by (auto simp: daySecsFromStr_def split: list.splits option.splits if_splits)

lemma make_range_ok:
  "a \<in> {0..86340} \<and> 60 dvd a \<Longrightarrow> b \<in> {0..86340} \<and> 60 dvd b \<Longrightarrow> range_ok (make_range a b)"
  by (simp add: make_range_def range_ok_def)

lemma parseTimeRanges_ok: "parseTimeRanges rs = Some ts \<Longrightarrow> list_all range_ok ts"
  by (induction rs arbitrary: ts)
     (auto split: option.splits dest!: daySecs_range intro!: make_range_ok)

lemma parse_days_ok:
  "parse_days ds = Some w \<Longrightarrow> length w = length ds \<and> list_all (list_all range_ok) w"
  by (induction ds arbitrary: w) (auto split: option.splits dest: parseTimeRanges_ok)

lemma parseWeeklyRanges_ok: "parseWeeklyRanges s = Some w \<Longrightarrow> week_ok w"
  using parse_days_ok[of "week_days s" w] by (simp add: parseWeeklyRanges_def week_ok_def week_days_def)

text \<open>A time of day written with two digits each for hour and minute.\<close>

definition two_digits :: "nat \<Rightarrow> string" where
  "two_digits n = [char_of (48 + n div 10), char_of (48 + n mod 10)]"

lemma digit_of_char: "d < (10 :: nat) \<Longrightarrow> digit_of (char_of (48 + d)) = Some d"
  by (simp add: digit_of_def)

lemma digit_neq: "d < (10 :: nat) \<Longrightarrow> of_char c < (48::nat) \<or> 57 < (of_char c :: nat) \<Longrightarrow> char_of (48 + d) \<noteq> c"
proof
  assume d: "d < 10" "of_char c < (48::nat) \<or> 57 < (of_char c :: nat)" "char_of (48 + d) = c"
  have "of_char c = (48 + d) mod (256 :: nat)" unfolding d(3)[symmetric] by simp
  with d show False by auto
qed

lemma Atoi_two_digits: "n < 100 \<Longrightarrow> Atoi (two_digits n) = Some (int n)"
proof -
  assume n: "n < 100"
  then have d: "n div 10 < 10" "n mod 10 < 10" by auto
  have "digits_from (two_digits n) 0 = Some (n div 10 * 10 + n mod 10)"
    using d by (simp add: two_digits_def digit_of_char)
  then have "parse_digits (two_digits n) = Some n" by (simp add: parse_digits_def two_digits_def)
  moreover have "char_of (48 + n div 10) \<noteq> CHR ''-''" "char_of (48 + n div 10) \<noteq> CHR ''+''"
    using digit_neq[OF d(1)] by simp_all
  then have "\<not> prefix ''-'' (two_digits n)" "\<not> prefix ''+'' (two_digits n)"
    by (auto simp: two_digits_def)
  ultimately show ?thesis using n by (simp add: Atoi_def)
qed

lemma colon_two_digits: "n < 100 \<Longrightarrow> CHR '':'' \<notin> set (two_digits n)"
  using digit_neq[of "n div 10" "CHR '':''"] digit_neq[of "n mod 10" "CHR '':''"]
  by (auto simp: two_digits_def less_mult_imp_div_less)

lemma daySecs_two_digits:
  assumes "h < 24" "m < 60"
  shows "daySecsFromStr (two_digits h @ '':'' @ two_digits m) = Some (int ((h * 60 + m) * 60))"
  using assms
  by (simp add: daySecsFromStr_def Split_pair Split_single colon_two_digits Atoi_two_digits)

section \<open>What a schedule covers\<close>

text \<open>
  The meaning of a range of times of day: equal bounds cover the whole day, and bounds in the wrong
  order cover the day outside of them.
\<close>

definition covers :: "int \<Rightarrow> int \<Rightarrow> int \<Rightarrow> bool" where
  "covers a b now \<longleftrightarrow>
     a = b \<or> a < b \<and> a \<le> now \<and> now \<le> b \<or> b < a \<and> (a \<le> now \<or> now \<le> b)"

lemma make_range_covers:
  "now \<in> {0..86340} \<Longrightarrow> range_matches now (make_range a b) \<longleftrightarrow> covers a b now"
  by (auto simp: range_matches_def make_range_def covers_def)

definition range_covers :: "int \<Rightarrow> TimeRangeStr \<Rightarrow> bool" where
  "range_covers now r \<longleftrightarrow>
     covers (the (daySecsFromStr (trs_After r))) (the (daySecsFromStr (trs_Before r))) now"

lemma parseTimeRanges_covers:
  "parseTimeRanges rs = Some ts \<Longrightarrow> now \<in> {0..86340} \<Longrightarrow>
     list_ex (range_matches now) ts \<longleftrightarrow> list_ex (range_covers now) rs"
  by (induction rs arbitrary: ts)
     (auto simp: range_covers_def make_range_covers split: option.splits)

lemma parse_days_nth:
  "parse_days ds = Some w \<Longrightarrow> i < length ds \<Longrightarrow> parseTimeRanges (ds ! i) = Some (w ! i)"
  by (induction ds arbitrary: w i) (auto simp: nth_Cons' split: option.splits)

text \<open>
  C39. Every table of schedules that the parser returns is well-formed: it has the names of the
  configuration in their order, and for each of them seven days whose ranges are either the whole day or
  two different times of day, given in seconds and falling on whole minutes.
\<close>

theorem schedules_typed:
  assumes "ParseAllWeeklyRanges ws = Some table"
  shows "map fst table = map fst ws \<and> list_all (\<lambda>e. week_ok (snd e)) table"
  using assms
  by (induction ws arbitrary: table) (auto split: option.splits dest: parseWeeklyRanges_ok)

definition example_week :: WeeklyRangesStr where
  "example_week =
     \<lparr>wrs_Sun = [], wrs_Mon = [\<lparr>trs_After = ''21:00'', trs_Before = ''7:30''\<rparr>], wrs_Tue = [],
      wrs_Wed = [\<lparr>trs_After = ''0:00'', trs_Before = ''0:00''\<rparr>], wrs_Thu = [], wrs_Fri = [], wrs_Sat = []\<rparr>"

definition example_parsed :: WeeklyRanges where
  "example_parsed =
     [[], [\<lparr>tr_after = 75600, tr_before = 27000\<rparr>], [], [\<lparr>tr_after = -1, tr_before = 86402\<rparr>], [], [], []]"

lemma example_week_parses: "parseWeeklyRanges example_week = Some example_parsed"
  by code_simp

theorem schedules_typed_witness: "list_all (\<lambda>e. week_ok (snd e)) [(''night'', example_parsed)]"
  using schedules_typed[of "[(''night'', example_week)]" "[(''night'', example_parsed)]"]
  by (simp add: example_week_parses)

text \<open>
  C40. A parsed schedule matches at a moment exactly if one of the ranges that the configuration gives for
  the day covers the time of day. Equal bounds cover the whole day, and bounds in the wrong order cover
  the rest of the same day.
\<close>

theorem schedule_matches:
  assumes "parseWeeklyRanges ws = Some w" "day < 7" "hour \<in> {0..23}" "mins \<in> {0..59}"
  shows "Match w day hour mins \<longleftrightarrow> list_ex (range_covers ((hour * 60 + mins) * 60)) (week_days ws ! day)"
proof -
  have "day < length (week_days ws)" using assms(2) by (simp add: week_days_def)
  then have p: "parseTimeRanges (week_days ws ! day) = Some (w ! day)"
    using parse_days_nth assms(1) by (auto simp: parseWeeklyRanges_def)
  have "(hour * 60 + mins) * 60 \<in> {0..86340}" using assms(3,4) by auto
  then show ?thesis unfolding Match_def by (rule parseTimeRanges_covers[OF p])
qed

lemma example_times: "daySecsFromStr ''21:00'' = Some 75600" "daySecsFromStr ''7:30'' = Some 27000"
  by code_simp+

theorem schedule_matches_witness: "Match example_parsed 1 23 15 \<and> \<not> Match example_parsed 1 12 0"
  using schedule_matches[OF example_week_parses, of 1 23 15] schedule_matches[OF example_week_parses, of 1 12 0]
  by (simp add: example_week_def week_days_def range_covers_def covers_def example_times)

end
