(* ===== verification/Plugin_Names.thy ===== *)
theory Plugin_Names
  imports Plugin_Logs Plugin_Reload Pattern_Matcher Time_Ranges
begin

text \<open>
  The plugins that block and allow names (\<^verbatim>\<open>plugin_block_name.go\<close> and \<^verbatim>\<open>plugin_allow_name.go\<close>): loading and
  reloading of rules, the decision on the name of a query, and on the aliases in a response. The local time
  that schedules are compared with is an input. Both plugins share the log file of the model.
\<close>

type_synonym name_rules = "WeeklyRanges option PatternMatcher"

record local_clock =
  lc_day :: nat
  lc_hour :: int
  lc_min :: int

text \<open>A rule without a schedule is always in force.\<close>

definition in_force :: "local_clock \<Rightarrow> WeeklyRanges option option \<Rightarrow> bool" where
  "in_force clock weekly =
     (case weekly of
        Some (Some w) \<Rightarrow> Match w (lc_day clock) (lc_hour clock) (lc_min clock)
      | _ \<Rightarrow> True)"

section \<open>Loading rules\<close>

text \<open>Lines with an error are skipped.\<close>

definition name_rule :: "(string \<times> WeeklyRanges) list \<Rightarrow> string \<Rightarrow> nat \<Rightarrow> name_rules \<Rightarrow> unit + name_rules" where
  "name_rule allWeeklyRanges line lineNo pm =
     (case ParseTimeBasedRule line allWeeklyRanges of
        Inl _ \<Rightarrow> Inr pm
      | Inr (rulePart, weeklyRanges) \<Rightarrow>
          (case Add rulePart weeklyRanges pm of None \<Rightarrow> Inr pm | Some pm' \<Rightarrow> Inr pm'))"

definition loadRules :: "(string \<times> WeeklyRanges) list \<Rightarrow> string \<Rightarrow> name_rules \<Rightarrow> unit + name_rules" where
  "loadRules allWeeklyRanges lines pm = ProcessConfigLines lines (name_rule allWeeklyRanges) pm"

text \<open>The rules in a file.\<close>

definition line_rule :: "(string \<times> WeeklyRanges) list \<Rightarrow> string \<Rightarrow> (string \<times> WeeklyRanges option) list" where
  "line_rule allWeeklyRanges raw =
     (let line = TrimAndStripInlineComments raw
      in if line = [] then []
         else case ParseTimeBasedRule line allWeeklyRanges of Inl _ \<Rightarrow> [] | Inr rule \<Rightarrow> [rule])"

definition file_rules :: "(string \<times> WeeklyRanges) list \<Rightarrow> string \<Rightarrow> (string \<times> WeeklyRanges option) list" where
  "file_rules allWeeklyRanges lines = concat (map (line_rule allWeeklyRanges) (Split lines (CHR 0x0A)))"

lemma load_rules_append: "load_rules (a @ b) pm = load_rules b (load_rules a pm)"
  by (induction a arbitrary: pm) auto

lemma loadRules_rules: "loadRules allWeeklyRanges lines pm = Inr (load_rules (file_rules allWeeklyRanges lines) pm)"
proof -
  have "config_lines_from (name_rule allWeeklyRanges) n ls pm = Inr (load_rules (concat (map (line_rule allWeeklyRanges) ls)) pm)" for n ls
    by (induction ls arbitrary: n pm)
       (auto simp: Let_def line_rule_def name_rule_def load_rules_append split: sum.splits option.splits)
  then show ?thesis by (simp add: loadRules_def ProcessConfigLines_def file_rules_def)
qed

section \<open>Blocked names\<close>

record BlockedNames =
  bn_allWeeklyRanges :: "(string \<times> WeeklyRanges) list"
  bn_patternMatcher :: name_rules
  bn_logger :: bool
  bn_format :: string
  bn_ipCryptConfig :: ip_privacy

definition aliasesLimit :: nat where
  "aliasesLimit = 8"

text \<open>The active rules, the staged ones and the log.\<close>

record block_world =
  bw_blockedNames :: "BlockedNames option"
  bw_stagingBlocked :: "BlockedNames option"
  bw_log :: log_file

definition alias_reason :: "string \<Rightarrow> string option \<Rightarrow> string" where
  "alias_reason reason aliasFor =
     (case aliasFor of None \<Rightarrow> reason | Some a \<Rightarrow> reason @ '' (alias for ['' @ a @ ''])'')"

text \<open>Whether the name is blocked, whether logging failed, and the new states.\<close>

definition check ::
  "local_clock \<Rightarrow> stamp \<Rightarrow> BlockedNames \<Rightarrow> PluginsState \<Rightarrow> string \<Rightarrow> string option \<Rightarrow> log_file \<Rightarrow>
   bool \<times> bool \<times> PluginsState \<times> log_file" where
  "check clock st B ps qName aliasFor f =
     (case Pattern_Matcher.Eval (bn_patternMatcher B) qName of
        None \<Rightarrow> (False, False, ps, f)
      | Some (reason, weekly) \<Rightarrow>
          if \<not> in_force clock weekly then (False, False, ps, f)
          else let ps1 = ps\<lparr>ps_action := PluginsActionReject, ps_returnCode := PluginsReturnCodeReject\<rparr>
               in if \<not> bn_logger B then (True, False, ps1, f)
                  else case ExtractClientIPStrEncrypted (bn_ipCryptConfig B) ps1 of
                         None \<Rightarrow> (False, False, ps1, f)
                       | Some clientIPStr \<Rightarrow>
                           (case WritePluginLog st True (bn_format B) clientIPStr qName (alias_reason reason aliasFor) [] f of
                              (failed, f') \<Rightarrow> (\<not> failed, failed, ps1, f')))"

definition blocked_names :: "BlockedNames \<Rightarrow> string \<Rightarrow> BlockedNames option" where
  "blocked_names B lines =
     (case loadRules (bn_allWeeklyRanges B) lines NewPatternMatcher of
        Inl _ \<Rightarrow> None
      | Inr pm \<Rightarrow> Some (B\<lparr>bn_patternMatcher := pm\<rparr>))"

text \<open>The settings of the proxy make an object without rules, which \<open>Init\<close> fills and publishes.\<close>

definition PluginBlockName_Init :: "BlockedNames \<Rightarrow> string option \<Rightarrow> block_world \<Rightarrow> bool \<times> block_world" where
  "PluginBlockName_Init settings file w =
     (case ReadTextFile file of
        None \<Rightarrow> (True, w)
      | Some lines \<Rightarrow>
          (case blocked_names settings lines of
             None \<Rightarrow> (True, w)
           | Some B \<Rightarrow> (False, w\<lparr>bw_blockedNames := Some B\<rparr>)))"

definition PluginBlockName_PrepareReload :: "string option \<Rightarrow> string option \<Rightarrow> block_world \<Rightarrow> bool \<times> block_world" where
  "PluginBlockName_PrepareReload file1 file2 w =
     StandardPrepareReloadPattern file1 file2
       (\<lambda>lines w. case bw_blockedNames w of
                    None \<Rightarrow> (True, w)
                  | Some current \<Rightarrow>
                      (case blocked_names current lines of
                         None \<Rightarrow> (True, w\<lparr>bw_stagingBlocked := Some (current\<lparr>bn_patternMatcher := NewPatternMatcher\<rparr>)\<rparr>)
                       | Some B \<Rightarrow> (False, w\<lparr>bw_stagingBlocked := Some B\<rparr>))) w"

definition PluginBlockName_ApplyReload :: "block_world \<Rightarrow> bool \<times> block_world" where
  "PluginBlockName_ApplyReload w =
     (case bw_stagingBlocked w of
        None \<Rightarrow> (True, w)
      | Some B \<Rightarrow> (False, w\<lparr>bw_blockedNames := Some B, bw_stagingBlocked := None\<rparr>))"

definition PluginBlockName_CancelReload :: "block_world \<Rightarrow> block_world" where
  "PluginBlockName_CancelReload w = w\<lparr>bw_stagingBlocked := None\<rparr>"

definition PluginBlockName_Eval :: "local_clock \<Rightarrow> stamp \<Rightarrow> block_world plugin" where
  "PluginBlockName_Eval clock st w ps msg =
     (if ps_whitelisted ps then (False, w, ps, msg)
      else case bw_blockedNames w of
             None \<Rightarrow> (False, w, ps, msg)
           | Some B \<Rightarrow>
               (case check clock st B ps (ps_qName ps) None (bw_log w) of
                  (_, failed, ps1, f) \<Rightarrow> (failed, w\<lparr>bw_log := f\<rparr>, ps1, msg)))"

text \<open>The name an answer is an alias for.\<close>

definition alias_target :: "RR \<Rightarrow> string option" where
  "alias_target rr =
     (if rr_Class rr \<noteq> ClassINET then None
      else case rr_Data rr of
             RD_CNAME target \<Rightarrow> Some target
           | RD_SVCB priority target \<Rightarrow> if priority = 0 then Some target else None
           | RD_HTTPS priority target \<Rightarrow> if priority = 0 then Some target else None
           | _ \<Rightarrow> None)"

text \<open>The loop over the answers, with the number of aliases that may still be checked.\<close>

primrec check_aliases ::
  "local_clock \<Rightarrow> stamp \<Rightarrow> BlockedNames \<Rightarrow> string \<Rightarrow> RR list \<Rightarrow> nat \<Rightarrow> PluginsState \<Rightarrow> log_file \<Rightarrow>
   bool \<times> PluginsState \<times> log_file" where
  "check_aliases clock st B aliasFor [] aliasesLeft ps f = (False, ps, f)"
| "check_aliases clock st B aliasFor (answer # answers) aliasesLeft ps f =
     (case alias_target answer of
        None \<Rightarrow> check_aliases clock st B aliasFor answers aliasesLeft ps f
      | Some target0 \<Rightarrow>
          (case NormalizeQName target0 of
             None \<Rightarrow> (True, ps, f)
           | Some target \<Rightarrow>
               (case check clock st B ps target (Some aliasFor) f of
                  (blocked, failed, ps1, f1) \<Rightarrow>
                    if blocked \<or> failed then (failed, ps1, f1)
                    else if aliasesLeft - 1 = 0 then (False, ps1, f1)
                    else check_aliases clock st B aliasFor answers (aliasesLeft - 1) ps1 f1)))"

definition PluginBlockNameResponse_Eval :: "local_clock \<Rightarrow> stamp \<Rightarrow> block_world plugin" where
  "PluginBlockNameResponse_Eval clock st w ps msg =
     (if ps_whitelisted ps then (False, w, ps, msg)
      else case bw_blockedNames w of
             None \<Rightarrow> (False, w, ps, msg)
           | Some B \<Rightarrow>
               (case check_aliases clock st B (ps_qName ps) (m_Answer msg) aliasesLimit ps (bw_log w) of
                  (failed, ps1, f) \<Rightarrow> (failed, w\<lparr>bw_log := f\<rparr>, ps1, msg)))"

section \<open>Allowed names\<close>

record allow_world =
  aw_patternMatcher :: name_rules
  aw_stagingMatcher :: "name_rules option"
  aw_allWeeklyRanges :: "(string \<times> WeeklyRanges) list"
  aw_logger :: bool
  aw_format :: string
  aw_ipCryptConfig :: ip_privacy
  aw_log :: log_file

definition PluginAllowName_Init :: "string option \<Rightarrow> allow_world \<Rightarrow> bool \<times> allow_world" where
  "PluginAllowName_Init file w =
     (case ReadTextFile file of
        None \<Rightarrow> (True, w)
      | Some lines \<Rightarrow>
          (case loadRules (aw_allWeeklyRanges w) lines NewPatternMatcher of
             Inl _ \<Rightarrow> (True, w\<lparr>aw_patternMatcher := NewPatternMatcher\<rparr>)
           | Inr pm \<Rightarrow> (False, w\<lparr>aw_patternMatcher := pm\<rparr>)))"

definition PluginAllowName_PrepareReload :: "string option \<Rightarrow> string option \<Rightarrow> allow_world \<Rightarrow> bool \<times> allow_world" where
  "PluginAllowName_PrepareReload file1 file2 w =
     StandardPrepareReloadPattern file1 file2
       (\<lambda>lines w. case loadRules (aw_allWeeklyRanges w) lines NewPatternMatcher of
                    Inl _ \<Rightarrow> (True, w\<lparr>aw_stagingMatcher := Some NewPatternMatcher\<rparr>)
                  | Inr pm \<Rightarrow> (False, w\<lparr>aw_stagingMatcher := Some pm\<rparr>)) w"

definition PluginAllowName_ApplyReload :: "allow_world \<Rightarrow> bool \<times> allow_world" where
  "PluginAllowName_ApplyReload w =
     (case aw_stagingMatcher w of
        None \<Rightarrow> (True, w)
      | Some pm \<Rightarrow> (False, w\<lparr>aw_patternMatcher := pm, aw_stagingMatcher := None\<rparr>))"

definition PluginAllowName_CancelReload :: "allow_world \<Rightarrow> allow_world" where
  "PluginAllowName_CancelReload w = w\<lparr>aw_stagingMatcher := None\<rparr>"

definition PluginAllowName_Eval :: "local_clock \<Rightarrow> stamp \<Rightarrow> allow_world plugin" where
  "PluginAllowName_Eval clock st w ps msg =
     (case Pattern_Matcher.Eval (aw_patternMatcher w) (ps_qName ps) of
        None \<Rightarrow> (False, w, ps, msg)
      | Some (reason, weekly) \<Rightarrow>
          if \<not> in_force clock weekly then (False, w, ps, msg)
          else let ps1 = ps\<lparr>ps_whitelisted := True\<rparr>
               in case log_decision st (aw_ipCryptConfig w) (aw_logger w) (aw_format w) ps1 (ps_qName ps) reason [] (aw_log w) of
                    (failed, f) \<Rightarrow> (failed, w\<lparr>aw_log := f\<rparr>, ps1, msg))"

section \<open>The plugins keep the identity of the query\<close>

lemma check_identity: "check clock st B ps q a f = (blocked, failed, ps', f') \<Longrightarrow> ps_identity ps' = ps_identity ps"
  by (auto simp: check_def Let_def split: option.splits prod.splits if_splits)

lemma check_aliases_identity: "check_aliases clock st B a answers n ps f = (failed, ps', f') \<Longrightarrow> ps_identity ps' = ps_identity ps"
  by (induction answers arbitrary: n ps f)
     (fastforce simp: check_identity split: option.splits prod.splits if_splits)+

interpretation block_name: identity_plugin "PluginBlockName_Eval clock st" for clock st
  by unfold_locales (auto simp: PluginBlockName_Eval_def dest: check_identity split: if_splits option.splits prod.splits)

interpretation block_name_response: identity_plugin "PluginBlockNameResponse_Eval clock st" for clock st
  by unfold_locales (auto simp: PluginBlockNameResponse_Eval_def dest: check_aliases_identity split: if_splits option.splits prod.splits)

interpretation allow_name: identity_plugin "PluginAllowName_Eval clock st" for clock st
  by unfold_locales (auto simp: PluginAllowName_Eval_def Let_def ps_identity_def split: if_splits option.splits prod.splits)

section \<open>Reloading\<close>

definition with_rules :: "BlockedNames \<Rightarrow> string \<Rightarrow> BlockedNames" where
  "with_rules B lines = B\<lparr>bn_patternMatcher := load_rules (file_rules (bn_allWeeklyRanges B) lines) NewPatternMatcher\<rparr>"

lemma blocked_names_rules: "blocked_names B lines = Some (with_rules B lines)"
  by (simp add: blocked_names_def loadRules_rules with_rules_def)

interpretation block_reload: reloadable PluginBlockName_PrepareReload PluginBlockName_ApplyReload PluginBlockName_CancelReload
    "\<lambda>w. bw_blockedNames w \<noteq> None" bw_blockedNames "\<lambda>w. map_option Some (bw_stagingBlocked w)"
    "\<lambda>w lines. map_option (\<lambda>B. with_rules B lines) (bw_blockedNames w)"
  by unfold_locales
    (auto simp: PluginBlockName_PrepareReload_def StandardPrepareReloadPattern_def blocked_names_rules
       PluginBlockName_ApplyReload_def PluginBlockName_CancelReload_def split: option.splits)

interpretation allow_reload: reloadable PluginAllowName_PrepareReload PluginAllowName_ApplyReload PluginAllowName_CancelReload
    "\<lambda>w. True" aw_patternMatcher aw_stagingMatcher
    "\<lambda>w lines. load_rules (file_rules (aw_allWeeklyRanges w) lines) NewPatternMatcher"
  by unfold_locales
    (auto simp: PluginAllowName_PrepareReload_def StandardPrepareReloadPattern_def loadRules_rules
       PluginAllowName_ApplyReload_def PluginAllowName_CancelReload_def split: option.splits)

text \<open>
  C12. Hot reload of the blocked names. If both readings of the file agree, a reload makes exactly the rules of
  the file active; if the file cannot be read or changes meanwhile, the reload fails, the active rules stay
  as they are, and nothing remains staged.
\<close>

theorem block_names_reload:
  assumes "bw_blockedNames w = Some B"
    and r_def: "r = Reload PluginBlockName_PrepareReload PluginBlockName_ApplyReload PluginBlockName_CancelReload file1 file2 w"
  shows "case SafeReadTextFile file1 file2 of
      Some lines \<Rightarrow> \<not> fst r \<and> bw_blockedNames (snd r) = Some (with_rules B lines) \<and> bw_stagingBlocked (snd r) = None
    | None \<Rightarrow> fst r \<and> bw_blockedNames (snd r) = Some B \<and> bw_stagingBlocked (snd r) = None"
proof (cases "SafeReadTextFile file1 file2")
  case None
  then show ?thesis using block_reload.reload_keeps[OF None, of w] assms(1) by (auto simp: r_def)
next
  case (Some lines)
  then show ?thesis using block_reload.reload_installs[OF _ Some, of w] assms(1) by (auto simp: r_def)
qed

section \<open>Decisions\<close>

definition blocks :: "local_clock \<Rightarrow> name_rules \<Rightarrow> string \<Rightarrow> bool" where
  "blocks clock pm q = (case Pattern_Matcher.Eval pm q of None \<Rightarrow> False | Some (_, weekly) \<Rightarrow> in_force clock weekly)"

lemma check_blocks:
  assumes "check clock st B ps q a f = (blocked, failed, ps', f')"
  shows "ps_action ps' = (if blocks clock (bn_patternMatcher B) q then PluginsActionReject else ps_action ps)"
    and "blocked \<or> failed \<Longrightarrow> blocks clock (bn_patternMatcher B) q"
  using assms by (auto simp: check_def blocks_def Let_def split: option.splits prod.splits if_splits)

lemma represents_rules: "represents (load_rules rules NewPatternMatcher) (accepted rules)"
  using represents_load[OF represents_new, of rules] by simp

text \<open>The value that comes with a match is that of a rule.\<close>

lemma Eval_value:
  assumes "represents pm rs" "Pattern_Matcher.Eval pm q = Some (reason, Some v)"
  shows "\<exists>t p. (t, p, v) \<in> set rs"
proof -
  note r = assms(1)[unfolded represents_def]
  have key: "\<exists>t p. (t, p, v) \<in> set rs" if "map_of (map (apfst h) (shaped t rs)) m = Some v" for h :: "string \<Rightarrow> bytes" and t m
    using map_of_SomeD[OF that] in_shaped by fastforce
  have suf: "\<exists>t p. (t, p, v) \<in> set rs" if "LongestPrefix g (pm_suffixes pm) = Some (m, v)" for g m
    using critbit.longest_Some[OF _ that] r key by metis
  have pre: "\<exists>t p. (t, p, v) \<in> set rs" if "LongestPrefix g (pm_prefixes pm) = Some (m, v)" for g m
    using critbit.longest_Some[OF _ that] r key by metis
  have ind: "\<exists>t p. (t, p, v) \<in> set rs" if "pm_indirectVals pm p = Some v" for p
    using r that by (auto dest!: map_of_SomeD simp: indirect_def) blast+
  have ex: "\<exists>t p. (t, p, v) \<in> set rs" if "pm_exact pm p = Some v" for p
    using r that by (auto dest!: map_of_SomeD simp: in_shaped) blast
  show ?thesis using assms(2) suf pre ind ex by (auto simp: Pattern_Matcher.Eval_def split: if_splits option.splits)
qed

lemma blocks_rules:
  assumes "pm = load_rules rules NewPatternMatcher"
  shows "blocks clock pm q \<Longrightarrow> 2 \<le> length q \<and> (\<exists>r \<in> set (accepted rules). rule_matches (fst r) (fst (snd r)) q)"
    and "2 \<le> length q \<Longrightarrow> r \<in> set (accepted rules) \<Longrightarrow> rule_matches (fst r) (fst (snd r)) q \<Longrightarrow>
      \<forall>r \<in> set (accepted rules). in_force clock (Some (snd (snd r))) \<Longrightarrow> blocks clock pm q"
proof -
  have rep: "represents pm (accepted rules)" using represents_rules assms by simp
  assume b: "blocks clock pm q"
  then have "Pattern_Matcher.Eval pm q \<noteq> None" by (auto simp: blocks_def split: option.splits)
  moreover from this have "2 \<le> length q" by (auto simp: Pattern_Matcher.Eval_def split: if_splits)
  ultimately show "2 \<le> length q \<and> (\<exists>r \<in> set (accepted rules). rule_matches (fst r) (fst (snd r)) q)"
    using Eval_None[OF rep] by auto
next
  have rep: "represents pm (accepted rules)" using represents_rules assms by simp
  assume a: "2 \<le> length q" "r \<in> set (accepted rules)" "rule_matches (fst r) (fst (snd r)) q"
    "\<forall>r \<in> set (accepted rules). in_force clock (Some (snd (snd r)))"
  then obtain reason weekly where e: "Pattern_Matcher.Eval pm q = Some (reason, weekly)" using Eval_None[OF rep a(1)] by auto
  have "in_force clock weekly"
  proof (cases weekly)
    case None
    then show ?thesis by (simp add: in_force_def)
  next
    case (Some v)
    then obtain t p where "(t, p, v) \<in> set (accepted rules)" using Eval_value[OF rep] e by blast
    then show ?thesis using a(4) Some by fastforce
  qed
  then show "blocks clock pm q" using e by (simp add: blocks_def)
qed


section \<open>Aliases\<close>

definition aliases :: "RR list \<Rightarrow> string list" where
  "aliases answers = List.map_filter alias_target answers"

lemma aliases_simps [simp]:
  "aliases [] = []" "aliases (a # as) = (case alias_target a of None \<Rightarrow> aliases as | Some t \<Rightarrow> t # aliases as)"
  by (simp_all add: aliases_def List.map_filter_simps split: option.splits)

lemma check_aliases_blocks:
  assumes "check_aliases clock st B a answers n ps f = (failed, ps', f')" "0 < n"
    and "\<forall>t \<in> set (aliases answers). NormalizeQName t \<noteq> None"
  shows "ps_action ps' = PluginsActionReject \<longleftrightarrow>
    ps_action ps = PluginsActionReject \<or> (\<exists>t \<in> set (take n (aliases answers)). blocks clock (bn_patternMatcher B) (the (NormalizeQName t)))"
  using assms
proof (induction answers arbitrary: n ps f)
  case (Cons answer answers)
  show ?case
  proof (cases "alias_target answer")
    case None
    then show ?thesis using Cons by simp
  next
    case (Some t)
    then obtain target where target: "NormalizeQName t = Some target" using Cons.prems(3) by auto
    obtain blocked fail1 ps1 f1 where c: "check clock st B ps target (Some a) f = (blocked, fail1, ps1, f1)" by (metis prod_cases4)
    note cb = check_blocks[OF c]
    obtain m where n: "n = Suc m" using Cons.prems(2) by (cases n) auto
    show ?thesis
    proof (cases "blocked \<or> fail1 \<or> m = 0")
      case True
      then have "ps' = ps1" using Cons.prems(1) Some target c n by (auto split: if_splits)
      then show ?thesis using True cb Some target n by auto
    next
      case False
      then have "check_aliases clock st B a answers m ps1 f1 = (failed, ps', f')" using Cons.prems(1) Some target c n by simp
      from Cons.IH[OF this] False Cons.prems(3) Some show ?thesis using cb(1) target n by auto
    qed
  qed
qed simp

text \<open>
  C8. Aliases of blocked names. If the names in a response can be normalised, a response that is not on an
  allow list is rejected exactly if one of its first eight aliases (CNAME targets and targets of service
  records in alias mode, in order) is a blocked name.
\<close>

theorem aliases_blocked:
  assumes "bw_blockedNames w = Some B" "\<not> ps_whitelisted ps" "ps_action ps \<noteq> PluginsActionReject"
    and "\<forall>t \<in> set (aliases (m_Answer msg)). NormalizeQName t \<noteq> None"
    and "PluginBlockNameResponse_Eval clock st w ps msg = (failed, w', ps', msg')"
  shows "ps_action ps' = PluginsActionReject \<longleftrightarrow>
    (\<exists>t \<in> set (take 8 (aliases (m_Answer msg))). blocks clock (bn_patternMatcher B) (the (NormalizeQName t)))"
proof -
  obtain f where "check_aliases clock st B (ps_qName ps) (m_Answer msg) 8 ps (bw_log w) = (failed, ps', f)"
    using assms(1,2,5) by (auto simp: PluginBlockNameResponse_Eval_def aliasesLimit_def split: prod.splits)
  from check_aliases_blocks[OF this _ assms(4)] assms(3) show ?thesis by simp
qed

section \<open>An example\<close>

definition example_settings :: BlockedNames where
  "example_settings =
     \<lparr>bn_allWeeklyRanges = [], bn_patternMatcher = NewPatternMatcher, bn_logger = False, bn_format = ''tsv'',
      bn_ipCryptConfig =
        \<lparr>ip_ciphers = \<lparr>bc_aes = \<lambda>k b. b, bc_aes_inv = \<lambda>k b. b, bc_kiasu = \<lambda>k t b. b, bc_kiasu_inv = \<lambda>k t b. b\<rparr>,
         ip_rand = \<lambda>_. None, ip_config = None\<rparr>\<rparr>"

definition example_world :: block_world where
  "example_world =
     \<lparr>bw_blockedNames = Some example_settings, bw_stagingBlocked = None, bw_log = \<lparr>lf_lines = [], lf_writable = True\<rparr>\<rparr>"

definition example_clock :: local_clock where
  "example_clock = \<lparr>lc_day = 0, lc_hour = 12, lc_min = 0\<rparr>"

definition example_stamp :: stamp where
  "example_stamp = \<lparr>st_tsv = ''[0]'', st_unix = ''0''\<rparr>"

definition example_ps :: "string \<Rightarrow> PluginsState" where
  "example_ps q = (NewPluginsState \<lparr>qc_cacheNegMinTTL = 60, qc_cacheNegMaxTTL = 600, qc_cacheMinTTL = 60,
     qc_cacheMaxTTL = 86400, qc_rejectTTL = 10, qc_timeout = 1\<rparr> ''udp'' None ''udp'' 0)\<lparr>ps_qName := q\<rparr>"

lemma example_ps_fields [simp]:
  "ps_qName (example_ps q) = q" "\<not> ps_whitelisted (example_ps q)" "ps_action (example_ps q) \<noteq> PluginsActionReject"
  by (simp_all add: example_ps_def NewPluginsState_def)

lemma example_file_rules: "accepted (file_rules [] ''ads.test'') = [(PatternTypeSuffix, ''ads.test'', None)]"
  by code_simp

theorem block_names_reload_witness:
  "bw_blockedNames (snd (Reload PluginBlockName_PrepareReload PluginBlockName_ApplyReload PluginBlockName_CancelReload
     (Some ''ads.test'') None example_world)) = Some example_settings"
proof -
  have "SafeReadTextFile (Some ''ads.test'') None = None" by (simp add: SafeReadTextFile_def ReadTextFile_def)
  then show ?thesis using block_names_reload[of example_world example_settings _ "Some ''ads.test''" None]
    by (simp add: example_world_def)
qed


definition example_alias :: Msg where
  "example_alias = zero_Msg\<lparr>m_Answer := [\<lparr>rr_Name = ''w.test.'', rr_Class = ClassINET, rr_TTL = 60, rr_Data = RD_CNAME ''x.ads.test.''\<rparr>]\<rparr>"

theorem aliases_blocked_witness:
  "\<exists>failed w' ps' msg'. PluginBlockNameResponse_Eval example_clock example_stamp
       (example_world\<lparr>bw_blockedNames := Some (with_rules example_settings ''ads.test'')\<rparr>) (example_ps ''w.test'') example_alias
       = (failed, w', ps', msg') \<and> ps_action ps' = PluginsActionReject"
proof -
  let ?w = "example_world\<lparr>bw_blockedNames := Some (with_rules example_settings ''ads.test'')\<rparr>"
  obtain failed w' ps' msg' where eval: "PluginBlockNameResponse_Eval example_clock example_stamp ?w (example_ps ''w.test'') example_alias = (failed, w', ps', msg')"
    by (metis prod_cases4)
  have al: "aliases (m_Answer example_alias) = [''x.ads.test.'']" by (simp add: example_alias_def alias_target_def)
  have n: "NormalizeQName ''x.ads.test.'' = Some ''x.ads.test''" by code_simp
  have "rule_matches PatternTypeSuffix ''ads.test'' ''x.ads.test''" by code_simp
  then have "blocks example_clock (bn_patternMatcher (with_rules example_settings ''ads.test'')) ''x.ads.test''"
    using blocks_rules(2)[of "bn_patternMatcher (with_rules example_settings ''ads.test'')" "file_rules [] ''ads.test''" "''x.ads.test''"
        "(PatternTypeSuffix, ''ads.test'', None)" example_clock]
    by (simp add: with_rules_def example_settings_def example_file_rules in_force_def)
  then have "ps_action ps' = PluginsActionReject" using aliases_blocked[OF _ _ _ _ eval] by (simp add: al n)
  then show ?thesis using eval by blast
qed

end
